(* ===== verification/Prelude.thy ===== *)
theory Prelude
  imports Main "HOL-Library.Char_ord" "HOL-Library.List_Lexorder"
begin

text \<open>
  What every component shares: how a C++ call can end (\<open>outcome\<close>), the characters the
  sources name by escape sequences, and the members of \<open>std::string\<close> and
  \<open>std::vector\<close> they use, with the exception or the undefined behaviour of each written out.

  A position that C++ gives as \<open>std::string::npos\<close> is \<open>None\<close> here.
  A \<open>char\<close> is a byte; where the sources promote it to \<open>int\<close> it is
  signed, as on the x86-64 targets the Makefile builds for (\<open>schar\<close>).
\<close>

named_theorems cxx_simps \<open>rewrite rules for the std::string and std::vector operations\<close>

section \<open>How a call ends\<close>

text \<open>
  A C++ call returns a value, throws one of the exceptions the sources can trigger, aborts because an
  \<open>assert\<close> fails (the Makefile does not define \<open>NDEBUG\<close>), or runs into undefined behaviour (a read past the end of a vector, a null pointer, \<open>top()\<close>
  of an empty stack, the value of an uninitialised variable). A call that may also never return has
  an \<open>outcome option\<close>, with \<open>None\<close> for not returning.
\<close>

datatype fault =
    Out_of_range
  | Invalid_argument
  | Runtime_error
  | System_error
  | Bad_lexical_cast
  | Assertion_failed
  | Undefined_behaviour

type_synonym 'a outcome = "fault + 'a"

definition outcome_bind :: "'a outcome \<Rightarrow> ('a \<Rightarrow> 'b outcome) \<Rightarrow> 'b outcome" where
  "outcome_bind m f = (case m of Inl e \<Rightarrow> Inl e | Inr x \<Rightarrow> f x)"

lemma outcome_bind_simps [simp]:
  "outcome_bind (Inl e) f = Inl e"
  "outcome_bind (Inr x) f = f x"
  by (simp_all add: outcome_bind_def)

lemma outcome_bind_eq_Inr [simp]:
  "outcome_bind m f = Inr y \<longleftrightarrow> (\<exists>x. m = Inr x \<and> f x = Inr y)"
  by (cases m) simp_all

lemma outcome_bind_eq_Inl [simp]:
  "outcome_bind m f = Inl e \<longleftrightarrow> m = Inl e \<or> (\<exists>x. m = Inr x \<and> f x = Inl e)"
  by (cases m) simp_all

section \<open>Characters\<close>

abbreviation CR :: char where "CR \<equiv> CHR 0x0D"
abbreviation LF :: char where "LF \<equiv> CHR 0x0A"
abbreviation TAB :: char where "TAB \<equiv> CHR 0x09"
abbreviation SPACE :: char where "SPACE \<equiv> CHR 0x20"
abbreviation DQUOTE :: char where "DQUOTE \<equiv> CHR 0x22"
abbreviation SQUOTE :: char where "SQUOTE \<equiv> CHR 0x27"
abbreviation BACKSLASH :: char where "BACKSLASH \<equiv> CHR 0x5C"

text \<open>The integer a (signed) \<open>char\<close> is promoted to.\<close>

definition schar :: "char \<Rightarrow> int" where
  "schar c = (let n = of_char c in if n < 128 then n else n - 256)"

lemma schar_range: "- 128 \<le> schar c \<and> schar c < 128"
proof -
  have "0 \<le> (of_char c :: int)" "(of_char c :: int) < 256"
    using pos_mod_sign [of 256 "of_char c :: int"] pos_mod_bound [of 256 "of_char c :: int"]
    by simp_all
  then show ?thesis by (simp add: schar_def Let_def)
qed

section \<open>Operations of std::vector and std::string\<close>

text \<open>\<open>v[i]\<close>: no bounds check, so a read past the end is undefined.\<close>

definition vec_at :: "'a list \<Rightarrow> nat \<Rightarrow> 'a outcome" where
  "vec_at xs i = (if i < length xs then Inr (xs ! i) else Inl Undefined_behaviour)"

text \<open>\<open>v.back() = f(v.back())\<close>: undefined on an empty vector.\<close>

definition update_back :: "('a \<Rightarrow> 'a) \<Rightarrow> 'a list \<Rightarrow> 'a list outcome" where
  "update_back f xs =
     (if xs = [] then Inl Undefined_behaviour else Inr (butlast xs @ [f (last xs)]))"

text \<open>\<open>s.find(c)\<close>, \<open>s.find(c, pos)\<close> and \<open>s.rfind(c)\<close>.\<close>

fun find_char :: "char \<Rightarrow> string \<Rightarrow> nat option" where
  "find_char c [] = None"
| "find_char c (x # xs) = (if x = c then Some 0 else map_option Suc (find_char c xs))"

definition find_char_from :: "char \<Rightarrow> string \<Rightarrow> nat \<Rightarrow> nat option" where
  "find_char_from c s pos = map_option ((+) pos) (find_char c (drop pos s))"

definition rfind_char :: "char \<Rightarrow> string \<Rightarrow> nat option" where
  "rfind_char c s = map_option (\<lambda>i. length s - 1 - i) (find_char c (rev s))"

text \<open>
  \<open>s.substr(pos)\<close> and \<open>s.substr(pos, len)\<close>: \<open>std::out_of_range\<close> when
  \<open>pos\<close> is beyond the end; a \<open>pos\<close> of \<open>npos\<close> (\<open>None\<close>) always is.
\<close>

definition substr_from :: "string \<Rightarrow> nat option \<Rightarrow> string outcome" where
  "substr_from s pos =
     (case pos of
        None \<Rightarrow> Inl Out_of_range
      | Some p \<Rightarrow> if p \<le> length s then Inr (drop p s) else Inl Out_of_range)"

definition starts_with :: "string \<Rightarrow> string \<Rightarrow> bool" where
  "starts_with p s \<longleftrightarrow> take (length p) s = p"

text \<open>\<open>s.find(d)\<close> for a string \<open>d\<close>.\<close>

fun find_string :: "string \<Rightarrow> string \<Rightarrow> nat option" where
  "find_string d [] = (if d = [] then Some 0 else None)"
| "find_string d (c # s) =
     (if starts_with d (c # s) then Some 0 else map_option Suc (find_string d s))"

lemma vec_at_simps [simp]:
  "i < length xs \<Longrightarrow> vec_at xs i = Inr (xs ! i)"
  "length xs \<le> i \<Longrightarrow> vec_at xs i = Inl Undefined_behaviour"
  by (simp_all add: vec_at_def)

lemma vec_at_eq_Inr [simp]: "vec_at xs i = Inr x \<longleftrightarrow> i < length xs \<and> xs ! i = x"
  by (auto simp: vec_at_def)

lemma vec_at_eq_Inl [simp]:
  "vec_at xs i = Inl e \<longleftrightarrow> length xs \<le> i \<and> e = Undefined_behaviour"
  by (auto simp: vec_at_def)

lemma update_back_Nil [simp]: "update_back f [] = Inl Undefined_behaviour"
  by (simp add: update_back_def)

lemma update_back_snoc [simp]: "update_back f (xs @ [x]) = Inr (xs @ [f x])"
  by (simp add: update_back_def)

lemma update_back_eq_Inr:
  "update_back f xs = Inr ys \<longleftrightarrow> (\<exists>zs x. xs = zs @ [x] \<and> ys = zs @ [f x])"
  by (cases xs rule: rev_cases) auto

lemma update_back_total: "xs \<noteq> [] \<Longrightarrow> \<exists>ys. update_back f xs = Inr ys \<and> ys \<noteq> []"
  by (cases xs rule: rev_cases) auto

lemma find_char_None [cxx_simps]: "find_char c s = None \<longleftrightarrow> c \<notin> set s"
  by (induction s) auto

lemma find_char_append: "c \<notin> set a \<Longrightarrow> find_char c (a @ c # b) = Some (length a)"
  by (induction a) auto

lemma find_char_SomeD:
  "find_char c s = Some i \<Longrightarrow> s = take i s @ c # drop (Suc i) s \<and> c \<notin> set (take i s) \<and> i < length s"
  by (induction s arbitrary: i) (auto split: if_splits)

lemma find_char_Some [cxx_simps]:
  "find_char c s = Some i \<longleftrightarrow> (\<exists>a b. s = a @ c # b \<and> c \<notin> set a \<and> i = length a)"
proof
  assume "find_char c s = Some i"
  from find_char_SomeD [OF this]
  have "s = take i s @ c # drop (Suc i) s \<and> c \<notin> set (take i s) \<and> i = length (take i s)"
    by simp
  then show "\<exists>a b. s = a @ c # b \<and> c \<notin> set a \<and> i = length a" by blast
qed (auto simp: find_char_append)

lemma rfind_char_None [cxx_simps]: "rfind_char c s = None \<longleftrightarrow> c \<notin> set s"
  by (simp add: rfind_char_def find_char_None)

lemma rfind_char_append:
  "c \<notin> set b \<Longrightarrow> rfind_char c (a @ c # b) = Some (length a)"
proof -
  assume "c \<notin> set b"
  then have "find_char c (rev (a @ c # b)) = Some (length (rev b))"
    unfolding find_char_Some by (intro exI [of _ "rev b"] exI [of _ "rev a"]) simp
  then show ?thesis by (simp add: rfind_char_def)
qed

lemma split_at_last: "c \<in> set s \<Longrightarrow> \<exists>a b. s = a @ c # b \<and> c \<notin> set b"
  by (rule split_list_last)

lemma rfind_char_Some [cxx_simps]:
  "rfind_char c s = Some i \<longleftrightarrow> (\<exists>a b. s = a @ c # b \<and> c \<notin> set b \<and> i = length a)"
proof
  assume r: "rfind_char c s = Some i"
  then have "c \<in> set s" using rfind_char_None [of c s] by force
  then obtain a b where ab: "s = a @ c # b" "c \<notin> set b" using split_at_last by metis
  with r have "i = length a" by (simp add: rfind_char_append)
  with ab show "\<exists>a b. s = a @ c # b \<and> c \<notin> set b \<and> i = length a" by blast
qed (auto simp: rfind_char_append)

lemma starts_with_iff [cxx_simps]: "starts_with p s \<longleftrightarrow> (\<exists>t. s = p @ t)"
proof
  assume "starts_with p s"
  then have "s = p @ drop (length p) s"
    by (metis append_take_drop_id starts_with_def)
  then show "\<exists>t. s = p @ t" ..
qed (auto simp: starts_with_def)

lemma find_string_Some:
  "find_string d s = Some i \<Longrightarrow> \<exists>b. s = take i s @ d @ b \<and> i \<le> length s"
proof (induction s arbitrary: i)
  case (Cons c s)
  show ?case
  proof (cases "starts_with d (c # s)")
    case True
    with Cons.prems show ?thesis by (auto simp: starts_with_iff)
  next
    case False
    then obtain j where j: "i = Suc j" "find_string d s = Some j" using Cons.prems by auto
    with Cons.IH [OF j(2)] show ?thesis by auto
  qed
qed (auto split: if_splits)

lemma find_string_None [cxx_simps]: "find_string d s = None \<longleftrightarrow> (\<nexists>a b. s = a @ d @ b)"
proof (induction s)
  case (Cons c s)
  have "(\<exists>a b. c # s = a @ d @ b) \<longleftrightarrow> starts_with d (c # s) \<or> (\<exists>a b. s = a @ d @ b)"
  proof
    assume "\<exists>a b. c # s = a @ d @ b"
    then obtain a b where ab: "c # s = a @ d @ b" by blast
    then show "starts_with d (c # s) \<or> (\<exists>a b. s = a @ d @ b)"
      by (cases a) (auto simp: starts_with_iff)
  next
    assume r: "starts_with d (c # s) \<or> (\<exists>a b. s = a @ d @ b)"
    then show "\<exists>a b. c # s = a @ d @ b"
    proof
      assume "starts_with d (c # s)"
      then obtain b where "c # s = [] @ d @ b" by (auto simp: starts_with_iff)
      then show ?thesis by blast
    next
      assume "\<exists>a b. s = a @ d @ b"
      then obtain a b where "c # s = (c # a) @ d @ b" by auto
      then show ?thesis by blast
    qed
  qed
  with Cons show ?case by auto
qed auto

end
