(* ===== verification/Nginx_Config.thy ===== *)
theory Nginx_Config
  imports Prelude
begin

text \<open>
  The parsed configuration and its printer: the classes \<open>NginxConfig\<close> and
  \<open>NginxConfigStatement\<close> of \<open>include/config_parser.h\<close> and their
  \<open>ToString\<close> in \<open>config_parser/config_parser.cc\<close>. A null
  \<open>child_block_\<close> is \<open>None\<close>. Then the access to the tree the parser needs: the
  configs on the parser's stack are those met by going from the root to the child block of the last
  statement, again and again, so a pointer of the stack is a depth.
\<close>

section \<open>The classes\<close>

datatype NginxConfig = NginxConfig (statements: "NginxConfigStatement list")
  and NginxConfigStatement =
    NginxConfigStatement (tokens: "string list") (child_block: "NginxConfig option")

section \<open>Printing\<close>

definition indentation :: "int \<Rightarrow> string" where
  "indentation depth = concat (replicate (nat depth) ''  '')"

text \<open>The loop over the tokens: a space before each but the first.\<close>

fun append_tokens :: "bool \<Rightarrow> string list \<Rightarrow> string" where
  "append_tokens first [] = []"
| "append_tokens first (t # ts) = (if first then [] else '' '') @ t @ append_tokens False ts"

fun NginxConfig_ToString :: "int \<Rightarrow> NginxConfig \<Rightarrow> string"
  and Statements_ToString :: "int \<Rightarrow> NginxConfigStatement list \<Rightarrow> string"
  and Statement_ToString :: "int \<Rightarrow> NginxConfigStatement \<Rightarrow> string" where
  "NginxConfig_ToString depth (NginxConfig ss) = Statements_ToString depth ss"
| "Statements_ToString depth [] = []"
| "Statements_ToString depth (s # ss) = Statement_ToString depth s @ Statements_ToString depth ss"
| "Statement_ToString depth (NginxConfigStatement ts None) =
     indentation depth @ append_tokens True ts @ '';'' @ [LF]"
| "Statement_ToString depth (NginxConfigStatement ts (Some c)) =
     indentation depth @ append_tokens True ts @ '' {'' @ [LF]
       @ NginxConfig_ToString (depth + 1) c @ indentation depth @ ''}'' @ [LF]"

section \<open>Access along the last statements\<close>

text \<open>
  \<open>at_depth n c\<close>: the statements of the config \<open>n\<close> levels down, if there is one;
  \<open>modify_at n f c\<close> replaces them by \<open>f\<close> of them.
\<close>

fun at_depth :: "nat \<Rightarrow> NginxConfig \<Rightarrow> NginxConfigStatement list option" where
  "at_depth 0 (NginxConfig ss) = Some ss"
| "at_depth (Suc n) (NginxConfig ss) =
     (if ss = [] then None
      else case child_block (last ss) of None \<Rightarrow> None | Some c \<Rightarrow> at_depth n c)"

fun modify_at ::
  "nat \<Rightarrow> (NginxConfigStatement list \<Rightarrow> NginxConfigStatement list) \<Rightarrow> NginxConfig \<Rightarrow> NginxConfig" where
  "modify_at 0 f (NginxConfig ss) = NginxConfig (f ss)"
| "modify_at (Suc n) f (NginxConfig ss) =
     (if ss = [] then NginxConfig ss
      else case last ss of
          NginxConfigStatement ts None \<Rightarrow> NginxConfig ss
        | NginxConfigStatement ts (Some c) \<Rightarrow>
            NginxConfig (butlast ss @ [NginxConfigStatement ts (Some (modify_at n f c))]))"

lemma modify_at_modify_at: "modify_at n f (modify_at n g c) = modify_at n (\<lambda>ss. f (g ss)) c"
  by (induction n g c rule: modify_at.induct)
     (auto split: NginxConfigStatement.splits option.splits)

lemma modify_at_child:
  "modify_at (Suc n) f (modify_at n (\<lambda>ss. g ss @ [NginxConfigStatement ts (Some (NginxConfig xs))]) c)
   = modify_at n (\<lambda>ss. g ss @ [NginxConfigStatement ts (Some (NginxConfig (f xs)))]) c"
  by (induction n "\<lambda>ss. g ss @ [NginxConfigStatement ts (Some (NginxConfig xs))]" c
        rule: modify_at.induct)
     (auto split: NginxConfigStatement.splits option.splits)

lemma at_depth_modify_at: "at_depth n (modify_at n f c) = map_option f (at_depth n c)"
  by (induction n f c rule: modify_at.induct)
     (auto split: NginxConfigStatement.splits option.splits)

lemma at_depth_below:
  "at_depth (Suc n) c \<noteq> None \<Longrightarrow> at_depth n c \<noteq> None"
  by (induction n c rule: at_depth.induct) (auto split: option.splits if_splits)

lemma at_depth_child:
  "at_depth (Suc n) c =
     (case at_depth n c of None \<Rightarrow> None
      | Some ss \<Rightarrow> if ss = [] then None else map_option statements (child_block (last ss)))"
proof (induction n c rule: at_depth.induct)
  case (1 ss)
  then show ?case
    by (auto split: option.splits) (metis NginxConfig.exhaust_sel at_depth.simps(1))+
next
  case (2 n ss)
  then show ?case by (auto split: option.splits)
qed

section \<open>Well-formed configurations\<close>

text \<open>
  The characters that end a plain token, and those that cannot start one. \<open>plain_token\<close>
  and \<open>quoted_token\<close> are the texts the lexer returns as one token; a statement has at
  least one of them.
\<close>

definition ends_token :: "char \<Rightarrow> bool" where
  "ends_token c \<longleftrightarrow> c = SPACE \<or> c = TAB \<or> c = LF \<or> c = TAB \<or>
     c = CHR '';'' \<or> c = CHR ''{'' \<or> c = CHR ''}''"

definition skipped_space :: "char \<Rightarrow> bool" where
  "skipped_space c \<longleftrightarrow> c = SPACE \<or> c = TAB \<or> c = LF \<or> c = CR"

definition starts_plain :: "char \<Rightarrow> bool" where
  "starts_plain c \<longleftrightarrow> \<not> skipped_space c \<and>
     c \<notin> {CHR ''{'', CHR ''}'', CHR ''#'', DQUOTE, SQUOTE, CHR '';''}"

definition plain_token :: "string \<Rightarrow> bool" where
  "plain_token t \<longleftrightarrow> t \<noteq> [] \<and> starts_plain (hd t) \<and> list_all (\<lambda>c. \<not> ends_token c) (tl t)"

definition quoted_token :: "string \<Rightarrow> bool" where
  "quoted_token t \<longleftrightarrow> 2 \<le> length t \<and> hd t \<in> {DQUOTE, SQUOTE} \<and> last t = hd t \<and>
     hd t \<notin> set (butlast (tl t))"

definition token_ok :: "string \<Rightarrow> bool" where
  "token_ok t \<longleftrightarrow> plain_token t \<or> quoted_token t"

fun config_ok :: "NginxConfig \<Rightarrow> bool"
  and statement_ok :: "NginxConfigStatement \<Rightarrow> bool" where
  "config_ok (NginxConfig ss) = list_all statement_ok ss"
| "statement_ok (NginxConfigStatement ts b) =
     (ts \<noteq> [] \<and> list_all token_ok ts \<and> (case b of None \<Rightarrow> True | Some c \<Rightarrow> config_ok c))"

lemma config_ok_at_depth: "config_ok c \<Longrightarrow> at_depth n c = Some ss \<Longrightarrow> list_all statement_ok ss"
proof (induction n c arbitrary: ss rule: at_depth.induct)
  case (2 n xs)
  then have "statement_ok (last xs)" by (auto simp: list_all_iff split: if_splits)
  with 2 show ?case
    by (cases "last xs") (auto split: option.splits if_splits)
qed simp

lemma config_ok_modify_at:
  assumes "config_ok c" "\<And>ss. list_all statement_ok ss \<Longrightarrow> list_all statement_ok (f ss)"
  shows "config_ok (modify_at n f c)"
  using assms
proof (induction n f c rule: modify_at.induct)
  case (2 n f ss)
  show ?case
  proof (cases "ss = []")
    case False
    obtain ts b where l: "last ss = NginxConfigStatement ts b" by (cases "last ss")
    have "list_all statement_ok (butlast ss)" "statement_ok (last ss)"
      using "2.prems"(1) False by (auto simp: list_all_iff dest: in_set_butlastD)
    with 2 l False show ?thesis by (auto split: option.splits)
  qed (use 2 in simp)
qed simp

end
