(* ===== verification/Config_Parser.thy ===== *)
theory Config_Parser
  imports Nginx_Config
begin

text \<open>
  \<open>NginxConfigParser\<close> of \<open>config_parser/config_parser.cc\<close>: the lexer
  \<open>ParseToken\<close>, a state machine over the characters, and the parser \<open>Parse\<close>, a
  loop over the tokens that builds the configuration on a stack of pointers into it.

  The input stream is the list of the characters not yet read; \<open>unget()\<close> leaves a character
  there. \<open>num_open_blocks\<close> is an \<open>int\<close> that the input would have to be over two
  gigabytes long to overflow, so it is an unbounded \<open>int\<close> here.
\<close>

section \<open>Tokens\<close>

datatype TokenType =
    TOKEN_TYPE_START
  | TOKEN_TYPE_NORMAL
  | TOKEN_TYPE_START_BLOCK
  | TOKEN_TYPE_END_BLOCK
  | TOKEN_TYPE_COMMENT
  | TOKEN_TYPE_STATEMENT_END
  | TOKEN_TYPE_EOF
  | TOKEN_TYPE_ERROR

datatype TokenParserState =
    TOKEN_STATE_INITIAL_WHITESPACE
  | TOKEN_STATE_SINGLE_QUOTE
  | TOKEN_STATE_DOUBLE_QUOTE
  | TOKEN_STATE_TOKEN_TYPE_COMMENT
  | TOKEN_STATE_TOKEN_TYPE_NORMAL

fun TokenTypeAsString :: "TokenType \<Rightarrow> string" where
  "TokenTypeAsString TOKEN_TYPE_START = ''TOKEN_TYPE_START''"
| "TokenTypeAsString TOKEN_TYPE_NORMAL = ''TOKEN_TYPE_NORMAL''"
| "TokenTypeAsString TOKEN_TYPE_START_BLOCK = ''TOKEN_TYPE_START_BLOCK''"
| "TokenTypeAsString TOKEN_TYPE_END_BLOCK = ''TOKEN_TYPE_END_BLOCK''"
| "TokenTypeAsString TOKEN_TYPE_COMMENT = ''TOKEN_TYPE_COMMENT''"
| "TokenTypeAsString TOKEN_TYPE_STATEMENT_END = ''TOKEN_TYPE_STATEMENT_END''"
| "TokenTypeAsString TOKEN_TYPE_EOF = ''TOKEN_TYPE_EOF''"
| "TokenTypeAsString TOKEN_TYPE_ERROR = ''TOKEN_TYPE_ERROR''"

section \<open>The lexer\<close>

text \<open>
  \<open>lex_loop state value input\<close>: the \<open>while\<close> loop of \<open>ParseToken\<close>, one
  character per turn; it returns the token type, the text and the input left.
\<close>

fun lex_loop :: "TokenParserState \<Rightarrow> string \<Rightarrow> string \<Rightarrow> TokenType \<times> string \<times> string" where
  "lex_loop state val [] =
     (if state = TOKEN_STATE_SINGLE_QUOTE \<or> state = TOKEN_STATE_DOUBLE_QUOTE
      then (TOKEN_TYPE_ERROR, val, [])
      else (TOKEN_TYPE_EOF, val, []))"
| "lex_loop TOKEN_STATE_INITIAL_WHITESPACE val (c # input) =
     (if c = CHR ''{'' then (TOKEN_TYPE_START_BLOCK, [c], input)
      else if c = CHR ''}'' then (TOKEN_TYPE_END_BLOCK, [c], input)
      else if c = CHR ''#'' then lex_loop TOKEN_STATE_TOKEN_TYPE_COMMENT [c] input
      else if c = DQUOTE then lex_loop TOKEN_STATE_DOUBLE_QUOTE [c] input
      else if c = SQUOTE then lex_loop TOKEN_STATE_SINGLE_QUOTE [c] input
      else if c = CHR '';'' then (TOKEN_TYPE_STATEMENT_END, [c], input)
      else if c = SPACE \<or> c = TAB \<or> c = LF \<or> c = CR
        then lex_loop TOKEN_STATE_INITIAL_WHITESPACE val input
      else lex_loop TOKEN_STATE_TOKEN_TYPE_NORMAL (val @ [c]) input)"
| "lex_loop TOKEN_STATE_SINGLE_QUOTE val (c # input) =
     (if c = SQUOTE then (TOKEN_TYPE_NORMAL, val @ [c], input)
      else lex_loop TOKEN_STATE_SINGLE_QUOTE (val @ [c]) input)"
| "lex_loop TOKEN_STATE_DOUBLE_QUOTE val (c # input) =
     (if c = DQUOTE then (TOKEN_TYPE_NORMAL, val @ [c], input)
      else lex_loop TOKEN_STATE_DOUBLE_QUOTE (val @ [c]) input)"
| "lex_loop TOKEN_STATE_TOKEN_TYPE_COMMENT val (c # input) =
     (if c = LF \<or> c = CR then (TOKEN_TYPE_COMMENT, val, input)
      else lex_loop TOKEN_STATE_TOKEN_TYPE_COMMENT (val @ [c]) input)"
| "lex_loop TOKEN_STATE_TOKEN_TYPE_NORMAL val (c # input) =
     (if ends_token c then (TOKEN_TYPE_NORMAL, val, c # input)
      else lex_loop TOKEN_STATE_TOKEN_TYPE_NORMAL (val @ [c]) input)"

definition ParseToken :: "string \<Rightarrow> TokenType \<times> string \<times> string" where
  "ParseToken input = lex_loop TOKEN_STATE_INITIAL_WHITESPACE [] input"

text \<open>Every token but the two that end the loop of the parser takes input away.\<close>

lemma lex_loop_length: "length (snd (snd (lex_loop st v input))) \<le> length input"
  by (induction st v input rule: lex_loop.induct) (simp_all add: le_SucI)

lemma lex_loop_consumes:
  "st \<noteq> TOKEN_STATE_TOKEN_TYPE_NORMAL \<Longrightarrow>
   fst (lex_loop st v input) \<noteq> TOKEN_TYPE_EOF \<Longrightarrow> fst (lex_loop st v input) \<noteq> TOKEN_TYPE_ERROR \<Longrightarrow>
   length (snd (snd (lex_loop st v input))) < length input"
proof (induction st v input rule: lex_loop.induct)
  case (2 v c input)
  then show ?case
    using lex_loop_length [of TOKEN_STATE_TOKEN_TYPE_NORMAL "v @ [c]" input]
    by (simp add: less_SucI less_Suc_eq_le split: if_split_asm)
next
  case (5 v c input)
  then show ?case by (cases "c = LF \<or> c = CR") (simp_all add: less_SucI)
qed (simp_all add: less_SucI split: if_split_asm)

lemma ParseToken_consumes:
  "ParseToken input = (tt, v, rest) \<Longrightarrow> tt \<noteq> TOKEN_TYPE_EOF \<Longrightarrow> tt \<noteq> TOKEN_TYPE_ERROR \<Longrightarrow>
   length rest < length input"
  using lex_loop_consumes [of TOKEN_STATE_INITIAL_WHITESPACE "[]" input]
  by (simp add: ParseToken_def)

section \<open>The parser\<close>

text \<open>
  The parser's variables. \<open>config_stack\<close> holds the out-parameter and, above it, the child
  block of the last statement of the entry below; it is kept as its size, and the entry \<open>i\<close>
  places above the bottom is the config at depth \<open>i\<close> of \<open>out_config\<close>. An empty stack
  (after one closing brace too many) has no top.
\<close>

record parser =
  out_config :: NginxConfig
  stack_size :: nat
  num_open_blocks :: int
  last_token_type :: TokenType

definition initial_parser :: "NginxConfig \<Rightarrow> parser" where
  "initial_parser config =
     \<lparr>out_config = config, stack_size = 1, num_open_blocks = 0,
      last_token_type = TOKEN_TYPE_START\<rparr>"

text \<open>The statements of \<open>config_stack.top()\<close>; none on an empty stack.\<close>

definition top_statements :: "parser \<Rightarrow> NginxConfigStatement list option" where
  "top_statements st =
     (if stack_size st = 0 then None else at_depth (stack_size st - 1) (out_config st))"

definition modify_top ::
  "(NginxConfigStatement list \<Rightarrow> NginxConfigStatement list) \<Rightarrow> parser \<Rightarrow> parser" where
  "modify_top f st = st\<lparr>out_config := modify_at (stack_size st - 1) f (out_config st)\<rparr>"

definition push_token :: "string \<Rightarrow> NginxConfigStatement \<Rightarrow> NginxConfigStatement" where
  "push_token token s = NginxConfigStatement (tokens s @ [token]) (child_block s)"

definition open_block :: "NginxConfigStatement \<Rightarrow> NginxConfigStatement" where
  "open_block s = NginxConfigStatement (tokens s) (Some (NginxConfig []))"

definition on_back :: "('a \<Rightarrow> 'a) \<Rightarrow> 'a list \<Rightarrow> 'a list" where
  "on_back f xs = (if xs = [] then [] else butlast xs @ [f (last xs)])"

text \<open>
  One turn of the loop after \<open>ParseToken\<close>: go on with a new state, return, or undefined
  behaviour (\<open>top()\<close> or \<open>pop()\<close> of an empty stack, \<open>back()\<close> of an empty
  vector).
\<close>

datatype verdict = Go parser | Return bool | Undefined

definition Parse_step :: "parser \<Rightarrow> TokenType \<Rightarrow> string \<Rightarrow> verdict" where
  "Parse_step st token_type token =
     (let prev = last_token_type st; go = (\<lambda>s. Go (s\<lparr>last_token_type := token_type\<rparr>)) in
      case token_type of
        TOKEN_TYPE_ERROR \<Rightarrow> Return False
      | TOKEN_TYPE_COMMENT \<Rightarrow> Go st
      | TOKEN_TYPE_START \<Rightarrow> Return False
      | TOKEN_TYPE_NORMAL \<Rightarrow>
          if prev = TOKEN_TYPE_START \<or> prev = TOKEN_TYPE_STATEMENT_END \<or>
             prev = TOKEN_TYPE_START_BLOCK \<or> prev = TOKEN_TYPE_END_BLOCK \<or>
             prev = TOKEN_TYPE_NORMAL
          then (case top_statements st of
                  None \<Rightarrow> Undefined
                | Some ss \<Rightarrow>
                    if prev \<noteq> TOKEN_TYPE_NORMAL
                    then go (modify_top (\<lambda>xs. xs @ [NginxConfigStatement [token] None]) st)
                    else if ss = [] then Undefined
                    else go (modify_top (on_back (push_token token)) st))
          else Return False
      | TOKEN_TYPE_STATEMENT_END \<Rightarrow>
          if prev \<noteq> TOKEN_TYPE_NORMAL then Return False else go st
      | TOKEN_TYPE_START_BLOCK \<Rightarrow>
          if prev \<noteq> TOKEN_TYPE_NORMAL then Return False
          else (case top_statements st of
                  None \<Rightarrow> Undefined
                | Some ss \<Rightarrow>
                    if ss = [] then Undefined
                    else go ((modify_top (on_back open_block) st)
                               \<lparr>stack_size := stack_size st + 1,
                                num_open_blocks := num_open_blocks st + 1\<rparr>))
      | TOKEN_TYPE_END_BLOCK \<Rightarrow>
          if prev \<noteq> TOKEN_TYPE_STATEMENT_END \<and> prev \<noteq> TOKEN_TYPE_END_BLOCK \<and>
             prev \<noteq> TOKEN_TYPE_START_BLOCK
          then Return False
          else if stack_size st = 0 then Undefined
          else go (st\<lparr>stack_size := stack_size st - 1,
                      num_open_blocks := num_open_blocks st - 1\<rparr>)
      | TOKEN_TYPE_EOF \<Rightarrow>
          Return (\<not> (num_open_blocks st \<noteq> 0 \<or>
                     (prev \<noteq> TOKEN_TYPE_STATEMENT_END \<and> prev \<noteq> TOKEN_TYPE_END_BLOCK \<and>
                      prev \<noteq> TOKEN_TYPE_START))))"

lemma Parse_step_Go_token:
  "Parse_step st tt tok = Go st' \<Longrightarrow> tt \<noteq> TOKEN_TYPE_EOF \<and> tt \<noteq> TOKEN_TYPE_ERROR"
  by (auto simp: Parse_step_def Let_def)

text \<open>
  \<open>Parse(istream*, NginxConfig*)\<close>: the result and the out-parameter, which has been written
  also when the result is \<open>false\<close>.
\<close>

function Parse_loop :: "parser \<Rightarrow> string \<Rightarrow> (bool \<times> NginxConfig) outcome" where
  "Parse_loop st input =
     (case ParseToken input of (token_type, token, rest) \<Rightarrow>
        case Parse_step st token_type token of
          Go st' \<Rightarrow> Parse_loop st' rest
        | Return b \<Rightarrow> Inr (b, out_config st)
        | Undefined \<Rightarrow> Inl Undefined_behaviour)"
  by pat_completeness auto
termination
  by (relation "measure (\<lambda>(st, input). length input)")
     (auto dest: Parse_step_Go_token ParseToken_consumes [OF sym])

declare Parse_loop.simps [simp del]

definition Parse :: "string \<Rightarrow> NginxConfig \<Rightarrow> (bool \<times> NginxConfig) outcome" where
  "Parse config_file config = Parse_loop (initial_parser config) config_file"

text \<open>
  \<open>Parse(const char*, NginxConfig*)\<close>: a file that cannot be opened is a failed parse. The
  file system is the argument \<open>read_file\<close>.
\<close>

definition Parse_file ::
  "(string \<Rightarrow> string option) \<Rightarrow> string \<Rightarrow> NginxConfig \<Rightarrow> (bool \<times> NginxConfig) outcome" where
  "Parse_file read_file file_name config =
     (case read_file file_name of
        None \<Rightarrow> Inr (False, config)
      | Some contents \<Rightarrow> Parse contents config)"

text \<open>
  The command line tool prints the configuration whatever the result of \<open>Parse\<close>; the exit
  status and the output.
\<close>

definition config_parser_main ::
  "(string \<Rightarrow> string option) \<Rightarrow> string list \<Rightarrow> (int \<times> string) outcome" where
  "config_parser_main read_file argv =
     (if length argv \<noteq> 2
      then Inr (1, ''Usage: ./config_parser <path to config file>'' @ [LF])
      else outcome_bind (Parse_file read_file (argv ! 1) (NginxConfig []))
             (\<lambda>(_, config). Inr (0, NginxConfig_ToString 0 config)))"

end
