(* ===== verification/Config_Correct.thy ===== *)
theory Config_Correct
  imports Config_Parser
begin

text \<open>
  Correctness of the configuration parser: what it builds is well formed, it reads back what
  \<open>ToString\<close> prints, and the only inputs on which its behaviour is undefined are those that
  close a block that was never opened.
\<close>

section \<open>The lexer\<close>

subsection \<open>What it returns\<close>

lemma plain_token_snoc: "plain_token v \<Longrightarrow> \<not> ends_token c \<Longrightarrow> plain_token (v @ [c])"
  by (cases v) (auto simp: plain_token_def)

lemma plain_token_single: "plain_token [c] \<longleftrightarrow> starts_plain c"
  by (simp add: plain_token_def)

lemma quoted_token_snoc:
  "v \<noteq> [] \<Longrightarrow> hd v = q \<Longrightarrow> q = SQUOTE \<or> q = DQUOTE \<Longrightarrow> q \<notin> set (tl v) \<Longrightarrow> quoted_token (v @ [q])"
  by (cases v) (auto simp: quoted_token_def)

lemma first_char_cases:
  obtains "starts_plain c" | "skipped_space c"
    | "c = CHR ''{''" | "c = CHR ''}''" | "c = CHR ''#''" | "c = DQUOTE" | "c = SQUOTE" | "c = CHR '';''"
  by (auto simp: starts_plain_def)

lemma lex_first:
  "starts_plain c \<Longrightarrow> lex_loop TOKEN_STATE_INITIAL_WHITESPACE v (c # s) =
     lex_loop TOKEN_STATE_TOKEN_TYPE_NORMAL (v @ [c]) s"
  "skipped_space c \<Longrightarrow> lex_loop TOKEN_STATE_INITIAL_WHITESPACE v (c # s) =
     lex_loop TOKEN_STATE_INITIAL_WHITESPACE v s"
  by (auto simp: starts_plain_def skipped_space_def)

lemma lex_plain_ok:
  "plain_token v \<Longrightarrow> fst (lex_loop TOKEN_STATE_TOKEN_TYPE_NORMAL v s) = TOKEN_TYPE_NORMAL \<Longrightarrow>
   token_ok (fst (snd (lex_loop TOKEN_STATE_TOKEN_TYPE_NORMAL v s)))"
  by (induction s arbitrary: v)
     (simp_all add: token_ok_def plain_token_snoc split: if_split_asm)

lemma lex_quoted_ok:
  "v \<noteq> [] \<Longrightarrow> hd v = SQUOTE \<Longrightarrow> SQUOTE \<notin> set (tl v) \<Longrightarrow>
   fst (lex_loop TOKEN_STATE_SINGLE_QUOTE v s) = TOKEN_TYPE_NORMAL \<Longrightarrow>
   token_ok (fst (snd (lex_loop TOKEN_STATE_SINGLE_QUOTE v s)))"
  "v \<noteq> [] \<Longrightarrow> hd v = DQUOTE \<Longrightarrow> DQUOTE \<notin> set (tl v) \<Longrightarrow>
   fst (lex_loop TOKEN_STATE_DOUBLE_QUOTE v s) = TOKEN_TYPE_NORMAL \<Longrightarrow>
   token_ok (fst (snd (lex_loop TOKEN_STATE_DOUBLE_QUOTE v s)))"
  by (induction s arbitrary: v)
     (simp_all add: token_ok_def quoted_token_snoc split: if_split_asm)

lemma lex_comment: "fst (lex_loop TOKEN_STATE_TOKEN_TYPE_COMMENT v s) \<noteq> TOKEN_TYPE_NORMAL"
  by (induction s arbitrary: v) simp_all

lemma lex_token_ok:
  "fst (lex_loop TOKEN_STATE_INITIAL_WHITESPACE [] s) = TOKEN_TYPE_NORMAL \<Longrightarrow>
   token_ok (fst (snd (lex_loop TOKEN_STATE_INITIAL_WHITESPACE [] s)))"
proof (induction s)
  case (Cons c s)
  show ?case
  proof (cases c rule: first_char_cases)
    case 1
    then show ?thesis
      using Cons.prems lex_plain_ok [of "[c]" s] by (simp only: lex_first) (simp add: plain_token_single)
  next
    case 2
    then show ?thesis using Cons by (simp only: lex_first)
  next
    case 6
    then show ?thesis using Cons.prems lex_quoted_ok(2) [of "[c]" s] by simp
  next
    case 7
    then show ?thesis using Cons.prems lex_quoted_ok(1) [of "[c]" s] by simp
  next
    case 5
    then show ?thesis using Cons.prems lex_comment [of "[c]" s] by simp
  qed (use Cons.prems in simp_all)
qed simp

lemma ParseToken_token_ok:
  "ParseToken input = (TOKEN_TYPE_NORMAL, v, rest) \<Longrightarrow> token_ok v"
  using lex_token_ok [of input] by (simp add: ParseToken_def)

subsection \<open>What it reads\<close>

lemma ParseToken_skip: "skipped_space c \<Longrightarrow> ParseToken (c # s) = ParseToken s"
  by (auto simp: ParseToken_def skipped_space_def)

lemma ParseToken_skips: "list_all skipped_space w \<Longrightarrow> ParseToken (w @ s) = ParseToken s"
  by (induction w) (simp_all add: ParseToken_skip)

lemma lex_loop_plain:
  "list_all (\<lambda>c. \<not> ends_token c) s \<Longrightarrow> ends_token d \<Longrightarrow>
   lex_loop TOKEN_STATE_TOKEN_TYPE_NORMAL v (s @ d # r) = (TOKEN_TYPE_NORMAL, v @ s, d # r)"
  by (induction s arbitrary: v) simp_all

lemma lex_loop_quoted:
  "DQUOTE \<notin> set s \<Longrightarrow>
   lex_loop TOKEN_STATE_DOUBLE_QUOTE v (s @ DQUOTE # r) = (TOKEN_TYPE_NORMAL, v @ s @ [DQUOTE], r)"
  "SQUOTE \<notin> set s \<Longrightarrow>
   lex_loop TOKEN_STATE_SINGLE_QUOTE v (s @ SQUOTE # r) = (TOKEN_TYPE_NORMAL, v @ s @ [SQUOTE], r)"
  by (induction s arbitrary: v) auto

lemma ParseToken_plain:
  assumes "plain_token t" "ends_token d"
  shows "ParseToken (t @ d # r) = (TOKEN_TYPE_NORMAL, t, d # r)"
proof -
  obtain c s where t: "t = c # s" using assms(1) by (cases t) (auto simp: plain_token_def)
  with assms(1) have c: "starts_plain c" and s: "list_all (\<lambda>c. \<not> ends_token c) s"
    by (simp_all add: plain_token_def)
  show ?thesis
    using c lex_loop_plain [OF s assms(2), of "[c]" r]
    by (simp add: t ParseToken_def starts_plain_def skipped_space_def)
qed

lemma ParseToken_quoted:
  assumes "quoted_token t"
  shows "ParseToken (t @ r) = (TOKEN_TYPE_NORMAL, t, r)"
proof -
  obtain q u where u: "t = q # u" using assms by (cases t) (auto simp: quoted_token_def)
  with assms have "u \<noteq> []" by (auto simp: quoted_token_def)
  define s where "s = butlast u"
  have t: "t = q # s @ [q]" and q: "q = DQUOTE \<or> q = SQUOTE" "q \<notin> set s"
    using assms u \<open>u \<noteq> []\<close> by (simp_all add: quoted_token_def s_def) (metis append_butlast_last_id)
  from q(1) show ?thesis
  proof
    assume "q = DQUOTE"
    then show ?thesis using lex_loop_quoted(1) [of s "[q]" r] q(2) by (simp add: t ParseToken_def)
  next
    assume "q = SQUOTE"
    then show ?thesis using lex_loop_quoted(2) [of s "[q]" r] q(2) by (simp add: t ParseToken_def)
  qed
qed

lemma ParseToken_token:
  "token_ok t \<Longrightarrow> ends_token d \<Longrightarrow> ParseToken (t @ d # r) = (TOKEN_TYPE_NORMAL, t, d # r)"
  by (auto simp: token_ok_def ParseToken_plain ParseToken_quoted)

lemma ParseToken_punctuation:
  "ParseToken (CHR '';'' # r) = (TOKEN_TYPE_STATEMENT_END, '';'', r)"
  "ParseToken (CHR ''{'' # r) = (TOKEN_TYPE_START_BLOCK, ''{'', r)"
  "ParseToken (CHR ''}'' # r) = (TOKEN_TYPE_END_BLOCK, ''}'', r)"
  "ParseToken [] = (TOKEN_TYPE_EOF, [], [])"
  by (simp_all add: ParseToken_def)

section \<open>The parser reads what is printed\<close>

subsection \<open>Single tokens\<close>

lemma Parse_loop_skip: "skipped_space c \<Longrightarrow> Parse_loop st (c # s) = Parse_loop st s"
  by (simp add: Parse_loop.simps [of st "c # s"] Parse_loop.simps [of st s] ParseToken_skip)

lemma Parse_loop_skips: "list_all skipped_space w \<Longrightarrow> Parse_loop st (w @ s) = Parse_loop st s"
  by (induction w) (simp_all add: Parse_loop_skip)

lemma skipped_indentation: "list_all skipped_space (indentation d)"
  by (simp add: indentation_def list_all_iff skipped_space_def)

lemma skipped_space_simps [simp]: "skipped_space SPACE" "skipped_space LF"
  by (simp_all add: skipped_space_def)

lemma ends_token_simps [simp]:
  "ends_token SPACE" "ends_token (CHR '';'')" "ends_token (CHR ''{'')" "ends_token (CHR ''}'')"
  by (simp_all add: ends_token_def)

abbreviation parser_at :: "NginxConfig \<Rightarrow> nat \<Rightarrow> int \<Rightarrow> TokenType \<Rightarrow> parser" where
  "parser_at c n k l \<equiv>
     \<lparr>out_config = c, stack_size = Suc n, num_open_blocks = k, last_token_type = l\<rparr>"

definition between_statements :: "TokenType \<Rightarrow> bool" where
  "between_statements l \<longleftrightarrow> l = TOKEN_TYPE_START \<or> l = TOKEN_TYPE_STATEMENT_END \<or>
     l = TOKEN_TYPE_START_BLOCK \<or> l = TOKEN_TYPE_END_BLOCK"

definition add_statements :: "nat \<Rightarrow> NginxConfigStatement list \<Rightarrow> NginxConfig \<Rightarrow> NginxConfig" where
  "add_statements n ss = modify_at n (\<lambda>xs. xs @ ss)"

lemma at_depth_add [simp]: "at_depth n (add_statements n ss c) = map_option (\<lambda>xs. xs @ ss) (at_depth n c)"
  by (simp add: add_statements_def at_depth_modify_at)

lemma add_statements_add:
  "add_statements n ss (add_statements n rs c) = add_statements n (rs @ ss) c"
  by (simp add: add_statements_def modify_at_modify_at)

lemma add_statements_Nil: "at_depth n c \<noteq> None \<Longrightarrow> add_statements n [] c = c"
proof -
  have "modify_at n (\<lambda>xs. xs @ []) c = c"
  proof (induction n "\<lambda>xs :: NginxConfigStatement list. xs @ []" c rule: modify_at.induct)
    case (2 n ss)
    then show ?case
      by (cases "ss = []") (auto split: NginxConfigStatement.splits option.splits, metis append_butlast_last_id)
  qed simp
  then show ?thesis by (simp add: add_statements_def)
qed

lemma modify_add_last:
  "modify_at n (on_back f) (add_statements n [s] c) = add_statements n [f s] c"
  by (simp add: add_statements_def modify_at_modify_at on_back_def)

lemma add_statements_child:
  "add_statements (Suc n) xs (add_statements n [NginxConfigStatement ts (Some (NginxConfig []))] c)
   = add_statements n [NginxConfigStatement ts (Some (NginxConfig xs))] c"
  using modify_at_child [of n "\<lambda>ys. ys @ xs" "\<lambda>ys. ys" ts "[]" c]
  by (simp add: add_statements_def)

lemmas step_simps = Parse_step_def Let_def top_statements_def modify_top_def

lemma Parse_first_token:
  assumes "at_depth n c \<noteq> None" "between_statements l" "token_ok t" "ends_token d"
  shows "Parse_loop (parser_at c n k l) (t @ d # r)
       = Parse_loop (parser_at (add_statements n [NginxConfigStatement [t] None] c) n k TOKEN_TYPE_NORMAL)
           (d # r)"
  using assms
  by (subst Parse_loop.simps)
     (auto simp: ParseToken_token step_simps between_statements_def add_statements_def)

lemma Parse_next_token:
  assumes "at_depth n c \<noteq> None" "token_ok t" "ends_token d"
  shows "Parse_loop (parser_at (add_statements n [NginxConfigStatement ts None] c) n k TOKEN_TYPE_NORMAL)
           (t @ d # r)
       = Parse_loop (parser_at (add_statements n [NginxConfigStatement (ts @ [t]) None] c) n k
           TOKEN_TYPE_NORMAL) (d # r)"
  using assms
  by (subst Parse_loop.simps)
     (auto simp: ParseToken_token step_simps modify_add_last push_token_def)

lemma Parse_more_tokens:
  assumes "at_depth n c \<noteq> None" "list_all token_ok ts" "ends_token d"
  shows "Parse_loop (parser_at (add_statements n [NginxConfigStatement us None] c) n k TOKEN_TYPE_NORMAL)
           (append_tokens False ts @ d # r)
       = Parse_loop (parser_at (add_statements n [NginxConfigStatement (us @ ts) None] c) n k
           TOKEN_TYPE_NORMAL) (d # r)"
  using assms(2)
proof (induction ts arbitrary: us)
  case (Cons t ts)
  obtain e q where e: "append_tokens False ts @ d # r = e # q" "ends_token e"
    using assms(3) by (cases ts) auto
  show ?case
    using Cons.prems Cons.IH [of "us @ [t]"] Parse_next_token [OF assms(1), of t e us k q] e
    by (simp add: Parse_loop_skip)
qed simp

lemma Parse_tokens:
  assumes "at_depth n c \<noteq> None" "between_statements l" "ts \<noteq> []" "list_all token_ok ts" "ends_token d"
  shows "Parse_loop (parser_at c n k l) (append_tokens True ts @ d # r)
       = Parse_loop (parser_at (add_statements n [NginxConfigStatement ts None] c) n k
           TOKEN_TYPE_NORMAL) (d # r)"
proof -
  obtain t us where ts: "ts = t # us" using assms(3) by (cases ts) auto
  obtain e q where e: "append_tokens False us @ d # r = e # q" "ends_token e"
    using assms(5) by (cases us) auto
  show ?thesis
    using assms Parse_first_token [OF assms(1,2), of t e k q] Parse_more_tokens [OF assms(1), of us d "[t]" k r] e
    by (simp add: ts)
qed

lemma Parse_semicolon:
  "Parse_loop (parser_at c n k TOKEN_TYPE_NORMAL) (CHR '';'' # r)
   = Parse_loop (parser_at c n k TOKEN_TYPE_STATEMENT_END) r"
  by (subst Parse_loop.simps) (simp add: ParseToken_punctuation step_simps)

lemma Parse_open_brace:
  "at_depth n c \<noteq> None \<Longrightarrow>
   Parse_loop (parser_at (add_statements n [NginxConfigStatement ts None] c) n k TOKEN_TYPE_NORMAL)
     (CHR ''{'' # r)
   = Parse_loop (parser_at (add_statements n [NginxConfigStatement ts (Some (NginxConfig []))] c) (Suc n)
       (k + 1) TOKEN_TYPE_START_BLOCK) r"
  by (subst Parse_loop.simps)
     (auto simp: ParseToken_punctuation step_simps modify_add_last open_block_def)

lemma Parse_close_brace:
  "l = TOKEN_TYPE_STATEMENT_END \<or> l = TOKEN_TYPE_END_BLOCK \<or> l = TOKEN_TYPE_START_BLOCK \<Longrightarrow>
   Parse_loop (parser_at c (Suc n) k l) (CHR ''}'' # r)
   = Parse_loop (parser_at c n (k - 1) TOKEN_TYPE_END_BLOCK) r"
  by (subst Parse_loop.simps) (auto simp: ParseToken_punctuation step_simps)

subsection \<open>Whole configurations\<close>

text \<open>The last token of a printed statement, and of a list of them read after a token \<open>l\<close>.\<close>

definition closing_token :: "NginxConfigStatement \<Rightarrow> TokenType" where
  "closing_token s = (if child_block s = None then TOKEN_TYPE_STATEMENT_END else TOKEN_TYPE_END_BLOCK)"

definition closing_tokens :: "TokenType \<Rightarrow> NginxConfigStatement list \<Rightarrow> TokenType" where
  "closing_tokens l ss = (if ss = [] then l else closing_token (last ss))"

lemma closing_tokens_Cons: "closing_tokens l (s # ss) = closing_tokens (closing_token s) ss"
  by (simp add: closing_tokens_def)

lemma between_closing_token: "between_statements (closing_token s)"
  by (simp add: between_statements_def closing_token_def)

lemma closing_tokens_block:
  "closing_tokens TOKEN_TYPE_START_BLOCK ss \<in>
     {TOKEN_TYPE_STATEMENT_END, TOKEN_TYPE_END_BLOCK, TOKEN_TYPE_START_BLOCK}"
  by (simp add: closing_tokens_def closing_token_def)

lemma at_depth_open_block:
  "at_depth n c \<noteq> None \<Longrightarrow>
   at_depth (Suc n) (add_statements n [NginxConfigStatement ts (Some (NginxConfig xs))] c) = Some xs"
  by (auto simp: at_depth_child)

lemma Parse_printed:
  "config_ok x \<Longrightarrow> at_depth n c \<noteq> None \<Longrightarrow> between_statements l \<Longrightarrow>
   Parse_loop (parser_at c n k l) (NginxConfig_ToString depth x @ r)
   = Parse_loop (parser_at (add_statements n (statements x) c) n k (closing_tokens l (statements x))) r"
  "list_all statement_ok ss \<Longrightarrow> at_depth n c \<noteq> None \<Longrightarrow> between_statements l \<Longrightarrow>
   Parse_loop (parser_at c n k l) (Statements_ToString depth ss @ r)
   = Parse_loop (parser_at (add_statements n ss c) n k (closing_tokens l ss)) r"
  "statement_ok s \<Longrightarrow> at_depth n c \<noteq> None \<Longrightarrow> between_statements l \<Longrightarrow>
   Parse_loop (parser_at c n k l) (Statement_ToString depth s @ r)
   = Parse_loop (parser_at (add_statements n [s] c) n k (closing_token s)) r"
proof (induction depth x and depth ss and depth s arbitrary: n c k l r and n c k l r and n c k l r
    rule: NginxConfig_ToString_Statements_ToString_Statement_ToString.induct)
  case (2 depth)
  then show ?case by (simp add: add_statements_Nil closing_tokens_def)
next
  case (3 depth s ss)
  then show ?case
    by (simp add: add_statements_add closing_tokens_Cons between_closing_token)
next
  case (4 depth ts)
  then show ?case
    by (simp add: Parse_loop_skips skipped_indentation Parse_tokens Parse_semicolon Parse_loop_skip
        closing_token_def)
next
  case (5 depth ts b)
  let ?open = "add_statements n [NginxConfigStatement ts (Some (NginxConfig []))] c"
  have "Parse_loop (parser_at ?open (Suc n) (k + 1) TOKEN_TYPE_START_BLOCK)
          (NginxConfig_ToString (depth + 1) b @ indentation depth @ CHR ''}'' # LF # r)
      = Parse_loop (parser_at (add_statements (Suc n) (statements b) ?open) (Suc n) (k + 1)
          (closing_tokens TOKEN_TYPE_START_BLOCK (statements b))) (indentation depth @ CHR ''}'' # LF # r)"
    using 5 by (auto simp: between_statements_def at_depth_open_block)
  also have "\<dots> = Parse_loop (parser_at (add_statements n [NginxConfigStatement ts (Some b)] c) n k
      TOKEN_TYPE_END_BLOCK) r"
    using closing_tokens_block [of "statements b"]
    by (cases b) (simp add: Parse_loop_skips skipped_indentation Parse_close_brace Parse_loop_skip
        add_statements_child)
  finally show ?case
    using 5 by (simp add: Parse_loop_skips skipped_indentation Parse_tokens Parse_open_brace
        Parse_loop_skip closing_token_def)
qed simp

lemma Parse_ToString:
  "config_ok c \<Longrightarrow> Parse (NginxConfig_ToString depth c) (NginxConfig []) = Inr (True, c)"
  using Parse_printed(1) [of c 0 "NginxConfig []" TOKEN_TYPE_START 0 depth "[]"]
  by (cases c)
     (auto simp: Parse_def initial_parser_def between_statements_def add_statements_def
       Parse_loop.simps [of _ "[]"] ParseToken_punctuation Parse_step_def closing_tokens_def
       closing_token_def)

end
