(* ===== verification/Config_Safety.thy ===== *)
theory Config_Safety
  imports Config_Correct
begin

text \<open>
  The invariant of the configuration parser, and what follows from it: every configuration it
  leaves behind, accepted or not, is well formed (so the callers may read \<open>tokens_[0]\<close> of
  every statement), an accepted input nests its blocks properly, and the parser is undefined only
  on an input that closes more blocks than it opened.
\<close>

section \<open>The invariant\<close>

definition parser_inv :: "parser \<Rightarrow> bool" where
  "parser_inv st \<longleftrightarrow>
     config_ok (out_config st) \<and>
     num_open_blocks st = int (stack_size st) - 1 \<and>
     (stack_size st \<noteq> 0 \<longrightarrow> top_statements st \<noteq> None) \<and>
     (last_token_type st = TOKEN_TYPE_NORMAL \<longrightarrow>
        stack_size st \<noteq> 0 \<and> top_statements st \<noteq> Some [])"

lemma parser_inv_initial: "config_ok c \<Longrightarrow> parser_inv (initial_parser c)"
  by (cases c) (simp add: parser_inv_def initial_parser_def top_statements_def)

lemma parser_inv_modify_top:
  assumes "parser_inv st" "stack_size st \<noteq> 0"
    and "\<And>ss. list_all statement_ok ss \<Longrightarrow> list_all statement_ok (f ss)"
    and "\<And>ss. top_statements st = Some ss \<Longrightarrow> f ss \<noteq> []"
  shows "parser_inv ((modify_top f st)\<lparr>last_token_type := l\<rparr>)"
  using assms config_ok_modify_at [of "out_config st" f "stack_size st - 1"]
  by (auto simp: parser_inv_def modify_top_def top_statements_def at_depth_modify_at)

lemma list_all_on_back:
  "list_all P xs \<Longrightarrow> (\<And>x. P x \<Longrightarrow> P (f x)) \<Longrightarrow> list_all P (on_back f xs)"
  by (auto simp: on_back_def list_all_iff dest: in_set_butlastD)

lemma statement_ok_push_token: "token_ok t \<Longrightarrow> statement_ok s \<Longrightarrow> statement_ok (push_token t s)"
  by (cases s) (auto simp: push_token_def)

lemma statement_ok_open_block: "statement_ok s \<Longrightarrow> statement_ok (open_block s)"
  by (cases s) (auto simp: open_block_def)

lemma on_back_nonempty: "xs \<noteq> [] \<Longrightarrow> on_back f xs \<noteq> []"
  by (simp add: on_back_def)

text \<open>One step keeps the invariant; the token is one the lexer can have returned.\<close>

lemma parser_inv_normal:
  assumes "parser_inv st" "token_ok tok" "Parse_step st TOKEN_TYPE_NORMAL tok = Go st'"
  shows "parser_inv st'"
proof -
  have nz: "stack_size st \<noteq> 0"
    using assms(3) by (auto simp: Parse_step_def Let_def top_statements_def split: if_splits)
  show ?thesis
  proof (cases "last_token_type st = TOKEN_TYPE_NORMAL")
    case True
    then have st': "st' = (modify_top (on_back (push_token tok)) st)\<lparr>last_token_type := TOKEN_TYPE_NORMAL\<rparr>"
      using assms(3) by (auto simp: Parse_step_def Let_def split: option.splits if_splits)
    have "top_statements st \<noteq> Some []" using assms(1) True by (simp add: parser_inv_def)
    then show ?thesis unfolding st'
      by (intro parser_inv_modify_top assms(1) nz list_all_on_back statement_ok_push_token assms(2)
          on_back_nonempty) auto
  next
    case False
    then have st': "st' = (modify_top (\<lambda>xs. xs @ [NginxConfigStatement [tok] None]) st)
        \<lparr>last_token_type := TOKEN_TYPE_NORMAL\<rparr>"
      using assms(3) by (auto simp: Parse_step_def Let_def split: option.splits if_splits)
    show ?thesis unfolding st'
      by (intro parser_inv_modify_top assms(1) nz) (simp_all add: assms(2))
  qed
qed

lemma parser_inv_start_block:
  assumes "parser_inv st" "Parse_step st TOKEN_TYPE_START_BLOCK tok = Go st'"
  shows "parser_inv st'"
proof -
  let ?m = "modify_top (on_back open_block) st"
  obtain ss where ss: "top_statements st = Some ss" "ss \<noteq> []"
    and st': "st' = ?m\<lparr>stack_size := stack_size st + 1,
      num_open_blocks := num_open_blocks st + 1, last_token_type := TOKEN_TYPE_START_BLOCK\<rparr>"
    using assms(2) by (auto simp: Parse_step_def Let_def split: option.splits if_splits)
  then obtain n where n: "stack_size st = Suc n"
    by (cases "stack_size st") (simp_all add: top_statements_def)
  with ss have d: "at_depth n (out_config st) = Some ss" by (simp add: top_statements_def)
  have "config_ok (out_config ?m)"
    using assms(1) unfolding parser_inv_def modify_top_def
    by (simp, intro config_ok_modify_at list_all_on_back statement_ok_open_block) simp_all
  moreover have "at_depth (Suc n) (out_config ?m) = Some []"
    using d ss(2) by (simp add: modify_top_def n at_depth_child at_depth_modify_at on_back_def open_block_def)
  ultimately show ?thesis
    using assms(1) by (simp add: st' parser_inv_def n top_statements_def modify_top_def)
qed

lemma parser_inv_end_block:
  assumes "parser_inv st" "Parse_step st TOKEN_TYPE_END_BLOCK tok = Go st'"
  shows "parser_inv st'"
proof -
  obtain n where n: "stack_size st = Suc n"
    and st': "st' = st\<lparr>stack_size := n, num_open_blocks := num_open_blocks st - 1,
      last_token_type := TOKEN_TYPE_END_BLOCK\<rparr>"
    using assms(2) by (cases "stack_size st") (auto simp: Parse_step_def Let_def split: if_splits)
  have "at_depth n (out_config st) \<noteq> None" using assms(1) by (simp add: parser_inv_def n top_statements_def)
  then have "n \<noteq> 0 \<longrightarrow> at_depth (n - 1) (out_config st) \<noteq> None"
    using at_depth_below by (cases n) auto
  then show ?thesis using assms(1) by (simp add: st' parser_inv_def n top_statements_def)
qed

lemma parser_inv_step:
  assumes "parser_inv st" "tt = TOKEN_TYPE_NORMAL \<Longrightarrow> token_ok tok" "Parse_step st tt tok = Go st'"
  shows "parser_inv st'"
proof (cases tt)
  case TOKEN_TYPE_NORMAL
  then show ?thesis using assms parser_inv_normal by blast
next
  case TOKEN_TYPE_START_BLOCK
  then show ?thesis using assms parser_inv_start_block by blast
next
  case TOKEN_TYPE_END_BLOCK
  then show ?thesis using assms parser_inv_end_block by blast
next
  case TOKEN_TYPE_STATEMENT_END
  then show ?thesis
    using assms(1,3) by (auto simp: Parse_step_def parser_inv_def top_statements_def split: if_splits)
qed (use assms(1,3) in \<open>auto simp: Parse_step_def Let_def\<close>)

lemma Parse_loop_config_ok:
  "parser_inv st \<Longrightarrow> Parse_loop st input = Inr (b, c) \<Longrightarrow> config_ok c"
proof (induction st input rule: Parse_loop.induct)
  case (1 st input)
  obtain tt tok rest where t: "ParseToken input = (tt, tok, rest)" by (cases "ParseToken input")
  show ?case
  proof (cases "Parse_step st tt tok")
    case (Go st')
    have "parser_inv st'"
      using parser_inv_step [OF "1.prems"(1) _ Go] t ParseToken_token_ok by blast
    then show ?thesis using "1.IH" t Go "1.prems"(2) by (simp add: Parse_loop.simps [of st input])
  qed (use "1.prems" t in \<open>auto simp: Parse_loop.simps [of st input] parser_inv_def\<close>)
qed

lemma Parse_config_ok: "Parse s (NginxConfig []) = Inr (b, c) \<Longrightarrow> config_ok c"
  unfolding Parse_def by (rule Parse_loop_config_ok [OF parser_inv_initial]) simp_all

section \<open>Nesting\<close>

text \<open>
  The token types of an input, up to its end, and the depth they leave open: \<open>None\<close> as soon as
  a block is closed that was not opened.
\<close>

function lexemes :: "string \<Rightarrow> TokenType list" where
  "lexemes input =
     (case ParseToken input of (tt, _, rest) \<Rightarrow>
        if tt = TOKEN_TYPE_EOF \<or> tt = TOKEN_TYPE_ERROR then [tt] else tt # lexemes rest)"
  by pat_completeness auto
termination
  by (relation "measure length") (auto dest: ParseToken_consumes [OF sym])

declare lexemes.simps [simp del]

fun nesting :: "nat \<Rightarrow> TokenType list \<Rightarrow> nat option" where
  "nesting d [] = Some d"
| "nesting d (TOKEN_TYPE_START_BLOCK # ts) = nesting (Suc d) ts"
| "nesting d (TOKEN_TYPE_END_BLOCK # ts) = (case d of 0 \<Rightarrow> None | Suc e \<Rightarrow> nesting e ts)"
| "nesting d (t # ts) = nesting d ts"

lemma step_stack:
  assumes "parser_inv st" "Parse_step st tt tok = Go st'" "stack_size st = Suc d"
  shows "nesting d (tt # ts) =
    (if stack_size st' = 0 then None else nesting (stack_size st' - 1) ts)"
  using assms(2,3)
  by (cases tt; cases d)
     (auto simp: Parse_step_def Let_def modify_top_def split: if_splits option.splits)

lemma step_undefined:
  assumes "parser_inv st" "Parse_step st tt tok = Undefined"
  shows "stack_size st = 0"
  using assms
  by (cases tt)
     (auto simp: Parse_step_def Let_def parser_inv_def split: if_splits option.splits)

lemma empty_stack_never_accepts:
  "parser_inv st \<Longrightarrow> stack_size st = 0 \<Longrightarrow> Parse_loop st input \<noteq> Inr (True, c)"
proof (induction st input rule: Parse_loop.induct)
  case (1 st input)
  obtain tt tok rest where t: "ParseToken input = (tt, tok, rest)" by (cases "ParseToken input")
  show ?case
  proof (cases "Parse_step st tt tok")
    case (Go st')
    have "parser_inv st'"
      using parser_inv_step [OF "1.prems"(1) _ Go] t ParseToken_token_ok by blast
    moreover have "stack_size st' = 0"
      using Go "1.prems" by (cases tt)
        (auto simp: Parse_step_def Let_def top_statements_def split: if_splits)
    ultimately show ?thesis using "1.IH" t Go by (simp add: Parse_loop.simps [of st input])
  next
    case (Return b)
    then show ?thesis using "1.prems" t
      by (cases tt) (auto simp: Parse_loop.simps [of st input] Parse_step_def Let_def
          parser_inv_def top_statements_def split: if_splits)
  qed (use t in \<open>simp add: Parse_loop.simps [of st input]\<close>)
qed

lemma Parse_loop_nesting:
  "parser_inv st \<Longrightarrow> stack_size st = Suc d \<Longrightarrow>
   (Parse_loop st input = Inr (True, c) \<longrightarrow> nesting d (lexemes input) = Some 0) \<and>
   (Parse_loop st input = Inl e \<longrightarrow> nesting d (lexemes input) = None)"
proof (induction st input arbitrary: d rule: Parse_loop.induct)
  case (1 st input)
  obtain tt tok rest where t: "ParseToken input = (tt, tok, rest)" by (cases "ParseToken input")
  show ?case
  proof (cases "Parse_step st tt tok")
    case (Go st')
    have inv': "parser_inv st'"
      using parser_inv_step [OF "1.prems"(1) _ Go] t ParseToken_token_ok by blast
    have lex: "lexemes input = tt # lexemes rest"
      using Parse_step_Go_token [OF Go] t by (simp add: lexemes.simps [of input])
    have loop: "Parse_loop st input = Parse_loop st' rest"
      using t Go by (simp add: Parse_loop.simps [of st input])
    note nest = step_stack [OF "1.prems"(1) Go "1.prems"(2), of "lexemes rest"]
    show ?thesis
    proof (cases "stack_size st'")
      case 0
      then show ?thesis
        using nest empty_stack_never_accepts [OF inv' 0] by (simp add: lex loop)
    next
      case (Suc d')
      then show ?thesis
        using nest "1.IH" [OF t [symmetric] _ Go inv' Suc] by (simp add: lex loop)
    qed
  next
    case (Return b)
    then show ?thesis using "1.prems" t
      by (cases tt) (auto simp: Parse_loop.simps [of st input] lexemes.simps [of input] Parse_step_def
          Let_def parser_inv_def split: if_splits option.splits)
  next
    case Undefined
    then have "stack_size st = 0" by (rule step_undefined [OF "1.prems"(1)])
    then show ?thesis using "1.prems"(2) by simp
  qed
qed

lemma Parse_nesting:
  "Parse s (NginxConfig []) = Inr (True, c) \<Longrightarrow> nesting 0 (lexemes s) = Some 0"
  "Parse s (NginxConfig []) = Inl e \<Longrightarrow> nesting 0 (lexemes s) = None"
  using Parse_loop_nesting [OF parser_inv_initial, of "NginxConfig []" 0 s c e]
  by (simp_all add: Parse_def initial_parser_def)

end
