(* ===== verification/Request.thy ===== *)
theory Request
  imports Prelude "HOL-Library.Word"
begin

text \<open>
  The class \<open>Request\<close> of \<open>include/request.h\<close> and \<open>src/request.cc\<close>: an HTTP
  request parser that reads one character at a time.

  The two version numbers are 32-bit \<open>int\<close>s that wrap here, as they do on the machines the
  program is built for; the language leaves their overflow undefined. Nothing reads them. The pointer to
  the server status is an address, \<open>None\<close> for the null pointer.
\<close>

section \<open>Character classes\<close>

definition is_char :: "int \<Rightarrow> bool" where
  "is_char c \<longleftrightarrow> c \<ge> 0 \<and> c \<le> 127"

definition is_ctl :: "int \<Rightarrow> bool" where
  "is_ctl c \<longleftrightarrow> (c \<ge> 0 \<and> c \<le> 31) \<or> c = 127"

definition is_tspecial :: "int \<Rightarrow> bool" where
  "is_tspecial c \<longleftrightarrow>
     c \<in> set (map schar
       [CHR ''('', CHR '')'', CHR ''<'', CHR ''>'', CHR ''@'',
        CHR '','', CHR '';'', CHR '':'', BACKSLASH, DQUOTE,
        CHR ''/'', CHR ''['', CHR '']'', CHR ''?'', CHR ''='',
        CHR ''{'', CHR ''}'', SPACE, TAB])"

definition is_digit :: "int \<Rightarrow> bool" where
  "is_digit c \<longleftrightarrow> c \<ge> schar (CHR ''0'') \<and> c \<le> schar (CHR ''9'')"

section \<open>State\<close>

datatype result_type = good | bad | indeterminate

text \<open>The enumeration \<open>state\<close>, in its order.\<close>

datatype state =
    method_start
  | method_inside
  | handler_path_start
  | handler_path_state
  | file_path_state
  | uri_inside
  | http_version_h
  | http_version_t_1
  | http_version_t_2
  | http_version_p
  | http_version_slash
  | http_version_major_start
  | http_version_major_state
  | http_version_minor_start
  | http_version_minor_state
  | expecting_newline_1
  | header_line_start
  | header_lws
  | header_name
  | space_before_header_value
  | header_value
  | expecting_newline_2
  | expecting_newline_3
  | body_state

type_synonym headers = "(string \<times> string) list"

record Request =
  raw_request :: string
  method_name :: string
  uri :: string
  version :: string
  request_body :: string
  request_headers :: headers
  request_status :: "nat option"
  handler_path :: string
  file_path :: string
  http_version_major :: "32 word"
  http_version_minor :: "32 word"
  parsed_status :: result_type
  state_of :: state

text \<open>
  \<open>new Request()\<close> value-initialises the object: every scalar is zero, so the state is
  \<open>method_start\<close> and the status is \<open>good\<close>.
\<close>

definition new_Request :: Request where
  "new_Request =
     \<lparr>raw_request = [], method_name = [], uri = [], version = [], request_body = [],
      request_headers = [], request_status = None, handler_path = [], file_path = [],
      http_version_major = 0, http_version_minor = 0, parsed_status = good,
      state_of = method_start\<rparr>"

section \<open>One character\<close>

text \<open>\<open>n * 10 + input - '0'\<close>.\<close>

definition push_digit :: "32 word \<Rightarrow> char \<Rightarrow> 32 word" where
  "push_digit n c = n * 10 + word_of_int (schar c) - word_of_int (schar (CHR ''0''))"

text \<open>The test of the method and header names.\<close>

definition not_token_char :: "char \<Rightarrow> bool" where
  "not_token_char c \<longleftrightarrow> \<not> is_char (schar c) \<or> is_ctl (schar c) \<or> is_tspecial (schar c)"

definition push_header_name :: "char \<Rightarrow> headers \<Rightarrow> headers outcome" where
  "push_header_name c = update_back (\<lambda>(n, v). (n @ [c], v))"

definition push_header_value :: "char \<Rightarrow> headers \<Rightarrow> headers outcome" where
  "push_header_value c = update_back (\<lambda>(n, v). (n, v @ [c]))"

text \<open>
  The ways a case of the \<open>switch\<close> ends: refuse the character, ask for more in the same state or
  in a new one, or accept.
\<close>

definition fail :: "Request \<Rightarrow> (result_type \<times> Request) outcome" where
  "fail r = Inr (bad, r)"

definition stay :: "Request \<Rightarrow> (result_type \<times> Request) outcome" where
  "stay r = Inr (indeterminate, r)"

definition go :: "state \<Rightarrow> Request \<Rightarrow> (result_type \<times> Request) outcome" where
  "go st r = Inr (indeterminate, r\<lparr>state_of := st\<rparr>)"

definition accept :: "Request \<Rightarrow> (result_type \<times> Request) outcome" where
  "accept r = Inr (good, r)"

text \<open>
  \<open>Request::consume\<close>: the \<open>switch\<close>, one equation per case, and the line before it, which
  records the character. The cases from \<open>header_line_start\<close> on, and the \<open>default\<close> that is
  left for the state \<open>file_path\<close>, are a function of their own.
\<close>

fun consume_fields :: "state \<Rightarrow> char \<Rightarrow> Request \<Rightarrow> (result_type \<times> Request) outcome" where
  "consume_fields header_line_start input r =
     (if input = CR then go expecting_newline_3 r
      else if request_headers r \<noteq> [] \<and> (input = SPACE \<or> input = TAB) then go header_lws r
      else if not_token_char input then fail r
      else go header_name (r\<lparr>request_headers := request_headers r @ [([input], [])]\<rparr>))"
| "consume_fields header_lws input r =
     (if input = CR then go expecting_newline_2 r
      else if input = SPACE \<or> input = TAB then stay r
      else if is_ctl (schar input) then fail r
      else outcome_bind (push_header_value input (request_headers r))
             (\<lambda>hs. go header_value (r\<lparr>request_headers := hs\<rparr>)))"
| "consume_fields header_name input r =
     (if input = CHR '':'' then go space_before_header_value r
      else if not_token_char input then fail r
      else outcome_bind (push_header_name input (request_headers r))
             (\<lambda>hs. stay (r\<lparr>request_headers := hs\<rparr>)))"
| "consume_fields space_before_header_value input r =
     (if input = SPACE then go header_value r else fail r)"
| "consume_fields header_value input r =
     (if input = CR then go expecting_newline_2 r
      else if is_ctl (schar input) then fail r
      else outcome_bind (push_header_value input (request_headers r))
             (\<lambda>hs. stay (r\<lparr>request_headers := hs\<rparr>)))"
| "consume_fields expecting_newline_2 input r =
     (if input = LF then go header_line_start r else fail r)"
| "consume_fields expecting_newline_3 input r =
     (if input = LF then accept (r\<lparr>state_of := body_state\<rparr>) else fail r)"
| "consume_fields body_state input r =
     (accept (r\<lparr>request_body := request_body r @ [input]\<rparr>))"
| "consume_fields _ input r = fail r"

fun consume_in :: "state \<Rightarrow> char \<Rightarrow> Request \<Rightarrow> (result_type \<times> Request) outcome" where
  "consume_in method_start input r =
     (if not_token_char input then fail r
      else go method_inside (r\<lparr>method_name := method_name r @ [input]\<rparr>))"
| "consume_in method_inside input r =
     (if input = SPACE then go handler_path_start r
      else if not_token_char input then fail r
      else stay (r\<lparr>method_name := method_name r @ [input]\<rparr>))"
| "consume_in handler_path_start input r =
     (if input = CHR ''/''
      then go handler_path_state
             (r\<lparr>handler_path := handler_path r @ [input], uri := uri r @ [input]\<rparr>)
      else fail r)"
| "consume_in handler_path_state input r =
     (if input = SPACE then go http_version_h r
      else if is_ctl (schar input) then fail r
      else if input = CHR ''/''
      then go uri_inside (r\<lparr>file_path := file_path r @ [input], uri := uri r @ [input]\<rparr>)
      else stay (r\<lparr>handler_path := handler_path r @ [input], uri := uri r @ [input]\<rparr>))"
| "consume_in uri_inside input r =
     (if input = SPACE then go http_version_h r
      else if is_ctl (schar input) then fail r
      else stay (r\<lparr>uri := uri r @ [input], file_path := file_path r @ [input]\<rparr>))"
| "consume_in http_version_h input r =
     (if input = CHR ''H'' then go http_version_t_1 r else fail r)"
| "consume_in http_version_t_1 input r =
     (if input = CHR ''T'' then go http_version_t_2 r else fail r)"
| "consume_in http_version_t_2 input r =
     (if input = CHR ''T'' then go http_version_p r else fail r)"
| "consume_in http_version_p input r =
     (if input = CHR ''P'' then go http_version_slash r else fail r)"
| "consume_in http_version_slash input r =
     (if input = CHR ''/''
      then go http_version_major_start (r\<lparr>http_version_major := 0, http_version_minor := 0\<rparr>)
      else fail r)"
| "consume_in http_version_major_start input r =
     (if is_digit (schar input)
      then go http_version_major_state
             (r\<lparr>http_version_major := push_digit (http_version_major r) input,
               version := version r @ [input]\<rparr>)
      else fail r)"
| "consume_in http_version_major_state input r =
     (if input = CHR ''.''
      then go http_version_minor_start (r\<lparr>version := version r @ [input]\<rparr>)
      else if is_digit (schar input)
      then stay (r\<lparr>http_version_major := push_digit (http_version_major r) input,
               version := version r @ [input]\<rparr>)
      else fail r)"
| "consume_in http_version_minor_start input r =
     (if is_digit (schar input)
      then go http_version_minor_state
             (r\<lparr>http_version_minor := push_digit (http_version_minor r) input,
               version := version r @ [input]\<rparr>)
      else fail r)"
| "consume_in http_version_minor_state input r =
     (if input = CR then go expecting_newline_1 r
      else if is_digit (schar input)
      then stay (r\<lparr>http_version_minor := push_digit (http_version_minor r) input,
               version := version r @ [input]\<rparr>)
      else fail r)"
| "consume_in expecting_newline_1 input r =
     (if input = LF then go header_line_start r else fail r)"
| "consume_in st input r = consume_fields st input r"

definition consume :: "char \<Rightarrow> Request \<Rightarrow> (result_type \<times> Request) outcome" where
  "consume input r = consume_in (state_of r) input (r\<lparr>raw_request := raw_request r @ [input]\<rparr>)"

section \<open>The whole input\<close>

text \<open>The loop of \<open>Request::Parse\<close>; a bad character ends it.\<close>

fun Parse_chars :: "Request \<Rightarrow> string \<Rightarrow> Request outcome" where
  "Parse_chars r [] = Inr r"
| "Parse_chars r (c # cs) =
     outcome_bind (consume c r)
       (\<lambda>(result, r').
          if result = bad then Inr (r'\<lparr>parsed_status := result\<rparr>)
          else Parse_chars (r'\<lparr>parsed_status := result\<rparr>) cs)"

definition setServerStatus :: "nat option \<Rightarrow> Request \<Rightarrow> Request" where
  "setServerStatus status r = r\<lparr>request_status := status\<rparr>"

definition getServerStatus :: "Request \<Rightarrow> nat option" where
  "getServerStatus r = request_status r"

definition Request_Parse :: "string \<Rightarrow> Request outcome" where
  "Request_Parse raw =
     outcome_bind (Parse_chars new_Request raw) (\<lambda>r. Inr (setServerStatus None r))"

definition Request_Parse_status :: "string \<Rightarrow> nat option \<Rightarrow> Request outcome" where
  "Request_Parse_status raw status =
     outcome_bind (Request_Parse raw) (\<lambda>r. Inr (setServerStatus status r))"

end
