(* ===== verification/Request_Grammar.thy ===== *)
theory Request_Grammar
  imports Request
begin

text \<open>
  The language the request parser is for, written as a printer: a request line, header fields that
  may be folded over several lines, an empty line and a body. \<open>request_text\<close> prints a request of
  the grammar, and \<open>parsed_request\<close> is the object the parser has to build from that text.
\<close>

definition CRLF :: string where
  "CRLF = [CR, LF]"

section \<open>The words of the grammar\<close>

definition token_string :: "string \<Rightarrow> bool" where
  "token_string s \<longleftrightarrow> s \<noteq> [] \<and> list_all (\<lambda>c. \<not> not_token_char c) s"

definition uri_char :: "char \<Rightarrow> bool" where
  "uri_char c \<longleftrightarrow> c \<noteq> SPACE \<and> \<not> is_ctl (schar c)"

definition uri_ok :: "string \<Rightarrow> bool" where
  "uri_ok u \<longleftrightarrow> u \<noteq> [] \<and> hd u = CHR ''/'' \<and> list_all uri_char (tl u)"

definition digits_ok :: "string \<Rightarrow> bool" where
  "digits_ok s \<longleftrightarrow> s \<noteq> [] \<and> list_all (\<lambda>c. is_digit (schar c)) s"

definition value_string :: "string \<Rightarrow> bool" where
  "value_string s \<longleftrightarrow> list_all (\<lambda>c. \<not> is_ctl (schar c)) s"

definition lws_string :: "string \<Rightarrow> bool" where
  "lws_string w \<longleftrightarrow> w \<noteq> [] \<and> list_all (\<lambda>c. c = SPACE \<or> c = TAB) w"

section \<open>Header fields\<close>

text \<open>
  A header field: its name, the text on its first line, and the folded lines after it, each with its
  leading white space. The value the parser stores is the texts of the lines, joined.
\<close>

type_synonym field = "string \<times> string \<times> (string \<times> string) list"

fun fold_ok :: "string \<times> string \<Rightarrow> bool" where
  "fold_ok (w, s) = (lws_string w \<and> value_string s \<and> (s = [] \<or> hd s \<noteq> SPACE))"

fun field_ok :: "field \<Rightarrow> bool" where
  "field_ok (n, v, fs) = (token_string n \<and> value_string v \<and> list_all fold_ok fs)"

fun fold_text :: "string \<times> string \<Rightarrow> string" where
  "fold_text (w, s) = w @ s @ CRLF"

fun field_text :: "field \<Rightarrow> string" where
  "field_text (n, v, fs) = n @ '': '' @ v @ CRLF @ concat (map fold_text fs)"

fun field_pair :: "field \<Rightarrow> string \<times> string" where
  "field_pair (n, v, fs) = (n, v @ concat (map snd fs))"

definition fields_text :: "field list \<Rightarrow> string" where
  "fields_text hs = concat (map field_text hs)"

lemma fields_text_simps [simp]:
  "fields_text [] = []"
  "fields_text (h # hs) = field_text h @ fields_text hs"
  "fields_text (hs @ hs') = fields_text hs @ fields_text hs'"
  by (simp_all add: fields_text_def)

section \<open>Requests\<close>

definition line_text :: "string \<Rightarrow> string \<Rightarrow> string \<Rightarrow> string" where
  "line_text m u v = m @ '' '' @ u @ '' HTTP/'' @ v @ CRLF"

definition request_text ::
  "string \<Rightarrow> string \<Rightarrow> string \<Rightarrow> string \<Rightarrow> field list \<Rightarrow> string \<Rightarrow> string" where
  "request_text m u maj mnr hs b =
     line_text m u (maj @ ''.'' @ mnr) @ fields_text hs @ CRLF @ b"

definition request_ok :: "string \<Rightarrow> string \<Rightarrow> string \<Rightarrow> string \<Rightarrow> field list \<Rightarrow> bool" where
  "request_ok m u maj mnr hs \<longleftrightarrow>
     token_string m \<and> uri_ok u \<and> digits_ok maj \<and> digits_ok mnr \<and> list_all field_ok hs"

text \<open>The handler path is the first segment of the URI, the file path what follows it.\<close>

definition parsed_request ::
  "string \<Rightarrow> string \<Rightarrow> string \<Rightarrow> string \<Rightarrow> field list \<Rightarrow> string \<Rightarrow> Request" where
  "parsed_request m u maj mnr hs b =
     \<lparr>raw_request = request_text m u maj mnr hs b, method_name = m, uri = u,
      version = maj @ ''.'' @ mnr, request_body = b, request_headers = map field_pair hs,
      request_status = None,
      handler_path = CHR ''/'' # takeWhile (\<lambda>c. c \<noteq> CHR ''/'') (tl u),
      file_path = dropWhile (\<lambda>c. c \<noteq> CHR ''/'') (tl u),
      http_version_major = foldl push_digit 0 maj, http_version_minor = foldl push_digit 0 mnr,
      parsed_status = good, state_of = body_state\<rparr>"

section \<open>Facts about the words\<close>

lemma schar_values [simp]:
  "schar SPACE = 32" "schar TAB = 9" "schar CR = 13" "schar LF = 10" "schar (CHR '':'') = 58"
  "schar (CHR ''/'') = 47" "schar (CHR ''.'') = 46" "schar (CHR ''0'') = 48" "schar (CHR ''9'') = 57"
  by (simp_all add: schar_def)

lemma not_token_char_simps [simp]:
  "not_token_char SPACE" "not_token_char TAB" "not_token_char CR" "not_token_char LF"
  "not_token_char (CHR '':'')"
  by (simp_all add: not_token_char_def is_char_def is_ctl_def is_tspecial_def)

lemma is_ctl_simps [simp]:
  "is_ctl 13" "is_ctl 10" "is_ctl 9" "\<not> is_ctl 32" "\<not> is_ctl 47"
  by (simp_all add: is_ctl_def)

lemma is_digit_simps [simp]: "\<not> is_digit 46" "\<not> is_digit 13"
  by (simp_all add: is_digit_def)

lemma token_string_snoc [simp]:
  "token_string (s @ [c]) \<longleftrightarrow> (s = [] \<or> token_string s) \<and> \<not> not_token_char c"
  by (auto simp: token_string_def)

lemma digits_ok_snoc [simp]:
  "digits_ok (s @ [c]) \<longleftrightarrow> (s = [] \<or> digits_ok s) \<and> is_digit (schar c)"
  by (auto simp: digits_ok_def)

lemma uri_ok_snoc [simp]:
  "uri_ok (s @ [c]) \<longleftrightarrow> s = [] \<and> c = CHR ''/'' \<or> uri_ok s \<and> uri_char c"
  by (cases s) (auto simp: uri_ok_def)

lemma value_string_simps [simp]:
  "value_string (c # s) \<longleftrightarrow> \<not> is_ctl (schar c) \<and> value_string s"
  "value_string (s @ t) \<longleftrightarrow> value_string s \<and> value_string t"
  by (auto simp: value_string_def)

lemma value_string_Nil [simp]: "value_string []"
  by (simp add: value_string_def)

lemma lws_string_snoc [simp]:
  "lws_string (s @ [c]) \<longleftrightarrow> (s = [] \<or> lws_string s) \<and> (c = SPACE \<or> c = TAB)"
  by (auto simp: lws_string_def)

lemma string_single [simp]:
  "token_string [c] \<longleftrightarrow> \<not> not_token_char c"
  "digits_ok [c] \<longleftrightarrow> is_digit (schar c)"
  "uri_ok [c] \<longleftrightarrow> c = CHR ''/''"
  "lws_string [c] \<longleftrightarrow> c = SPACE \<or> c = TAB"
  by (auto simp: token_string_def digits_ok_def uri_ok_def lws_string_def)

lemma string_Nil [simp]:
  "\<not> token_string []" "\<not> digits_ok []" "\<not> uri_ok []" "\<not> lws_string []"
  by (simp_all add: token_string_def digits_ok_def uri_ok_def lws_string_def)

end
