(* ===== verification/Request_Complete.thy ===== *)
theory Request_Complete
  imports Request_Grammar
begin

text \<open>
  Every request of the grammar is accepted, and the object built is \<open>parsed_request\<close>: one lemma
  per run of the parser inside one of its states, then their composition.
\<close>

abbreviation rq ::
  "string \<Rightarrow> string \<Rightarrow> string \<Rightarrow> string \<Rightarrow> string \<Rightarrow> headers \<Rightarrow> string \<Rightarrow> string \<Rightarrow> 32 word \<Rightarrow> 32 word
   \<Rightarrow> result_type \<Rightarrow> state \<Rightarrow> Request" where
  "rq raw m u v b h hp fp mj mn ps st \<equiv>
     \<lparr>raw_request = raw, method_name = m, uri = u, version = v, request_body = b, request_headers = h,
      request_status = None, handler_path = hp, file_path = fp, http_version_major = mj,
      http_version_minor = mn, parsed_status = ps, state_of = st\<rparr>"

lemmas consume_simps = consume_def fail_def stay_def go_def accept_def

lemma run_method:
  "list_all (\<lambda>c. \<not> not_token_char c) s \<Longrightarrow>
   Parse_chars (rq raw m u v b h hp fp mj mn indeterminate method_inside) (s @ t)
   = Parse_chars (rq (raw @ s) (m @ s) u v b h hp fp mj mn indeterminate method_inside) t"
proof (induction s arbitrary: raw m)
  case (Cons c s)
  then have "c \<noteq> SPACE" by auto
  with Cons show ?case by (simp add: consume_simps)
qed simp

lemma run_handler_path:
  "list_all uri_char s \<Longrightarrow> CHR ''/'' \<notin> set s \<Longrightarrow>
   Parse_chars (rq raw m u v b h hp fp mj mn indeterminate handler_path_state) (s @ t)
   = Parse_chars (rq (raw @ s) m (u @ s) v b h (hp @ s) fp mj mn indeterminate handler_path_state) t"
proof (induction s arbitrary: raw u hp)
  case (Cons c s)
  then have "c \<noteq> SPACE" "\<not> is_ctl (schar c)" "c \<noteq> CHR ''/''" by (auto simp: uri_char_def)
  with Cons show ?case by (simp add: consume_simps)
qed simp

lemma run_uri:
  "list_all uri_char s \<Longrightarrow>
   Parse_chars (rq raw m u v b h hp fp mj mn indeterminate uri_inside) (s @ t)
   = Parse_chars (rq (raw @ s) m (u @ s) v b h hp (fp @ s) mj mn indeterminate uri_inside) t"
proof (induction s arbitrary: raw u fp)
  case (Cons c s)
  then have "c \<noteq> SPACE" "\<not> is_ctl (schar c)" by (auto simp: uri_char_def)
  with Cons show ?case by (simp add: consume_simps)
qed simp

lemma digit_not_other: "is_digit (schar c) \<Longrightarrow> c \<noteq> CHR ''.'' \<and> c \<noteq> CR"
  by (auto simp: is_digit_def)

lemma run_major:
  "list_all (\<lambda>c. is_digit (schar c)) s \<Longrightarrow>
   Parse_chars (rq raw m u v b h hp fp mj mn indeterminate http_version_major_state) (s @ t)
   = Parse_chars (rq (raw @ s) m u (v @ s) b h hp fp (foldl push_digit mj s) mn indeterminate
       http_version_major_state) t"
proof (induction s arbitrary: raw v mj)
  case (Cons c s)
  then have "is_digit (schar c)" by simp
  with digit_not_other [OF this] Cons show ?case by (simp add: consume_simps)
qed simp

lemma run_minor:
  "list_all (\<lambda>c. is_digit (schar c)) s \<Longrightarrow>
   Parse_chars (rq raw m u v b h hp fp mj mn indeterminate http_version_minor_state) (s @ t)
   = Parse_chars (rq (raw @ s) m u (v @ s) b h hp fp mj (foldl push_digit mn s) indeterminate
       http_version_minor_state) t"
proof (induction s arbitrary: raw v mn)
  case (Cons c s)
  then have "is_digit (schar c)" by simp
  with digit_not_other [OF this] Cons show ?case by (simp add: consume_simps)
qed simp

lemma run_name:
  "list_all (\<lambda>c. \<not> not_token_char c) s \<Longrightarrow>
   Parse_chars (rq raw m u v b (h @ [(n, x)]) hp fp mj mn indeterminate header_name) (s @ t)
   = Parse_chars (rq (raw @ s) m u v b (h @ [(n @ s, x)]) hp fp mj mn indeterminate header_name) t"
proof (induction s arbitrary: raw n)
  case (Cons c s)
  then have "c \<noteq> CHR '':''" by auto
  with Cons show ?case by (simp add: consume_simps push_header_name_def)
qed simp

lemma run_value:
  "value_string s \<Longrightarrow>
   Parse_chars (rq raw m u v b (h @ [(n, x)]) hp fp mj mn indeterminate header_value) (s @ t)
   = Parse_chars (rq (raw @ s) m u v b (h @ [(n, x @ s)]) hp fp mj mn indeterminate header_value) t"
proof (induction s arbitrary: raw x)
  case (Cons c s)
  then have c: "\<not> is_ctl (schar c)" and s: "value_string s" by (simp_all add: value_string_def)
  from c have "c \<noteq> CR" by auto
  with c Cons.IH [OF s] show ?case by (simp add: consume_simps push_header_value_def)
qed simp

lemma run_lws:
  "list_all (\<lambda>c. c = SPACE \<or> c = TAB) w \<Longrightarrow>
   Parse_chars (rq raw m u v b h hp fp mj mn indeterminate header_lws) (w @ t)
   = Parse_chars (rq (raw @ w) m u v b h hp fp mj mn indeterminate header_lws) t"
proof (induction w arbitrary: raw)
  case (Cons c w)
  then have "c \<noteq> CR" by auto
  with Cons show ?case by (simp add: consume_simps)
qed simp

lemma run_body:
  "Parse_chars (rq raw m u v b h hp fp mj mn good body_state) s
   = Inr (rq (raw @ s) m u v (b @ s) h hp fp mj mn good body_state)"
  by (induction s arbitrary: raw b) (simp_all add: consume_simps)

text \<open>A folded line, and a whole header field.\<close>

lemma run_end_of_line:
  "Parse_chars (rq raw m u v b h hp fp mj mn indeterminate header_value) (CR # LF # t)
   = Parse_chars (rq (raw @ CRLF) m u v b h hp fp mj mn indeterminate header_line_start) t"
  by (simp add: consume_simps CRLF_def)

lemma run_fold:
  assumes "fold_ok (w, s)"
  shows "Parse_chars (rq raw m u v b (h @ [(n, x)]) hp fp mj mn indeterminate header_line_start)
           (w @ s @ CR # LF # t)
       = Parse_chars (rq (raw @ w @ s @ CRLF) m u v b (h @ [(n, x @ s)]) hp fp mj mn indeterminate
           header_line_start) t"
proof -
  obtain c w' where w: "w = c # w'" "c = SPACE \<or> c = TAB" "list_all (\<lambda>c. c = SPACE \<or> c = TAB) w'"
    using assms by (cases w) (auto simp: lws_string_def)
  then have "c \<noteq> CR" by auto
  then have start: "Parse_chars (rq raw m u v b (h @ [(n, x)]) hp fp mj mn indeterminate header_line_start)
           (w @ s @ CR # LF # t)
      = Parse_chars (rq (raw @ w) m u v b (h @ [(n, x)]) hp fp mj mn indeterminate header_lws)
           (s @ CR # LF # t)"
    using w run_lws [OF w(3), of "raw @ [c]" m u v b "h @ [(n, x)]" hp fp mj mn "s @ CR # LF # t"]
    by (simp add: consume_simps)
  show ?thesis
  proof (cases s)
    case Nil
    then show ?thesis using start by (simp add: consume_simps CRLF_def)
  next
    case (Cons d s')
    then have d: "\<not> is_ctl (schar d)" "d \<noteq> SPACE" and s': "value_string s'"
      using assms by (simp_all add: value_string_def)
    from d(1) have "d \<noteq> CR" "d \<noteq> TAB" by auto
    then show ?thesis
      using d run_value [OF s', of "raw @ w @ [d]" m u v b h n "x @ [d]" hp fp mj mn "CR # LF # t"]
        start
      by (simp add: Cons run_end_of_line consume_simps push_header_value_def CRLF_def)
  qed
qed

lemma run_folds:
  "list_all fold_ok fs \<Longrightarrow>
   Parse_chars (rq raw m u v b (h @ [(n, x)]) hp fp mj mn indeterminate header_line_start)
     (concat (map fold_text fs) @ t)
   = Parse_chars (rq (raw @ concat (map fold_text fs)) m u v b
       (h @ [(n, x @ concat (map snd fs))]) hp fp mj mn indeterminate header_line_start) t"
proof (induction fs arbitrary: raw x)
  case (Cons p fs)
  obtain w s where p: "p = (w, s)" by (cases p)
  with Cons run_fold [of w s raw m u v b h n x hp fp mj mn "concat (map fold_text fs) @ t"]
  show ?case by (simp add: CRLF_def)
qed simp

lemma run_field:
  assumes "field_ok f"
  shows "Parse_chars (rq raw m u v b h hp fp mj mn indeterminate header_line_start) (field_text f @ t)
       = Parse_chars (rq (raw @ field_text f) m u v b (h @ [field_pair f]) hp fp mj mn indeterminate
           header_line_start) t"
proof -
  obtain n x fs where f: "f = (n, x, fs)" by (cases f)
  obtain c n' where n: "n = c # n'" using assms f by (cases n) auto
  have c: "\<not> not_token_char c" and n': "list_all (\<lambda>c. \<not> not_token_char c) n'"
    and x: "value_string x" and fs: "list_all fold_ok fs"
    using assms f n by (auto simp: token_string_def)
  have "c \<noteq> CR" "c \<noteq> SPACE" "c \<noteq> TAB" using c by auto
  then show ?thesis
    using c run_name [OF n', of "raw @ [c]" m u v b h "[c]" "[]" hp fp mj mn]
      run_value [OF x, of _ m u v b h n "[]" hp fp mj mn]
      run_folds [OF fs, of _ m u v b h n x hp fp mj mn t]
    by (simp add: f n run_end_of_line consume_simps CRLF_def)
qed

lemma run_fields:
  "list_all field_ok hs \<Longrightarrow>
   Parse_chars (rq raw m u v b h hp fp mj mn indeterminate header_line_start) (fields_text hs @ t)
   = Parse_chars (rq (raw @ fields_text hs) m u v b (h @ map field_pair hs) hp fp mj mn
       indeterminate header_line_start) t"
  by (induction hs arbitrary: raw h) (simp_all add: run_field del: field_text.simps field_pair.simps)

text \<open>The URI, whose second slash starts the file path.\<close>

lemma run_path:
  assumes "uri_ok u"
  shows "Parse_chars (rq raw m [] [] [] [] [] [] 0 0 indeterminate handler_path_start) (u @ SPACE # t)
       = Parse_chars (rq (raw @ u @ '' '') m u [] [] []
           (CHR ''/'' # takeWhile (\<lambda>c. c \<noteq> CHR ''/'') (tl u))
           (dropWhile (\<lambda>c. c \<noteq> CHR ''/'') (tl u)) 0 0 indeterminate http_version_h) t"
proof -
  obtain p where u: "u = CHR ''/'' # p" and p: "list_all uri_char p"
    using assms by (cases u) (auto simp: uri_ok_def)
  obtain a d where tw: "takeWhile (\<lambda>c. c \<noteq> CHR ''/'') p = a"
    and dw: "dropWhile (\<lambda>c. c \<noteq> CHR ''/'') p = d" by blast
  have pa: "p = a @ d" using takeWhile_dropWhile_id [of _ p] tw dw by metis
  have a: "list_all uri_char a" "CHR ''/'' \<notin> set a"
    using p tw by (auto simp: list_all_iff dest: set_takeWhileD)
  have d: "list_all uri_char d" using p pa by simp
  have start: "Parse_chars (rq raw m [] [] [] [] [] [] 0 0 indeterminate handler_path_start)
       (CHR ''/'' # a @ d @ SPACE # t)
     = Parse_chars (rq (raw @ CHR ''/'' # a) m (CHR ''/'' # a) [] [] [] (CHR ''/'' # a) [] 0 0
         indeterminate handler_path_state) (d @ SPACE # t)"
    using run_handler_path [OF a, of "raw @ ''/''" m "''/''" "[]" "[]" "[]" "''/''" "[]" 0 0 "d @ SPACE # t"]
    by (simp add: consume_simps)
  have "Parse_chars (rq (raw @ CHR ''/'' # a) m (CHR ''/'' # a) [] [] [] (CHR ''/'' # a) [] 0 0
         indeterminate handler_path_state) (d @ SPACE # t)
     = Parse_chars (rq (raw @ CHR ''/'' # a @ d @ '' '') m (CHR ''/'' # a @ d) [] [] []
         (CHR ''/'' # a) d 0 0 indeterminate http_version_h) t"
  proof (cases d)
    case Nil
    then show ?thesis by (simp add: consume_simps)
  next
    case (Cons c e)
    then have c: "c = CHR ''/''" using dw by (simp add: dropWhile_eq_Cons_conv)
    have e: "list_all uri_char e" using d Cons by simp
    show ?thesis
      using run_uri [OF e, of "raw @ CHR ''/'' # a @ ''/''" m "CHR ''/'' # a @ ''/''" "[]" "[]" "[]"
          "CHR ''/'' # a" "''/''" 0 0 "SPACE # t"]
      by (simp add: Cons c consume_simps)
  qed
  with start have run: "Parse_chars (rq raw m [] [] [] [] [] [] 0 0 indeterminate handler_path_start)
       (CHR ''/'' # a @ d @ SPACE # t)
     = Parse_chars (rq (raw @ CHR ''/'' # a @ d @ '' '') m (CHR ''/'' # a @ d) [] [] []
         (CHR ''/'' # a) d 0 0 indeterminate http_version_h) t" by (rule trans)
  have ua: "u = CHR ''/'' # a @ d" by (simp add: u pa)
  have "takeWhile (\<lambda>c. c \<noteq> CHR ''/'') (tl u) = a" "dropWhile (\<lambda>c. c \<noteq> CHR ''/'') (tl u) = d"
    by (simp_all add: u tw dw)
  then show ?thesis using run by (simp only: ua append_Cons append_assoc append_Nil)
qed

text \<open>The protocol version, up to the end of the request line.\<close>

lemma run_version:
  assumes "digits_ok maj" "digits_ok mnr"
  shows "Parse_chars (rq raw m u [] b h hp fp 0 0 indeterminate http_version_h)
           (''HTTP/'' @ maj @ ''.'' @ mnr @ CR # LF # t)
       = Parse_chars (rq (raw @ ''HTTP/'' @ maj @ ''.'' @ mnr @ CRLF) m u (maj @ ''.'' @ mnr) b h hp fp
           (foldl push_digit 0 maj) (foldl push_digit 0 mnr) indeterminate header_line_start) t"
proof -
  obtain c s where maj: "maj = c # s" and c: "is_digit (schar c)"
    and s: "list_all (\<lambda>c. is_digit (schar c)) s"
    using assms(1) by (cases maj) (auto simp: digits_ok_def)
  obtain d r where mnr: "mnr = d # r" and d: "is_digit (schar d)"
    and r: "list_all (\<lambda>c. is_digit (schar c)) r"
    using assms(2) by (cases mnr) (auto simp: digits_ok_def)
  have head: "Parse_chars (rq raw m u [] b h hp fp 0 0 indeterminate http_version_h)
       (''HTTP/'' @ c # s @ ''.'' @ mnr @ CR # LF # t)
     = Parse_chars (rq (raw @ ''HTTP/'' @ [c]) m u [c] b h hp fp (push_digit 0 c) 0 indeterminate
         http_version_major_state) (s @ ''.'' @ mnr @ CR # LF # t)"
    using c by (simp add: consume_simps)
  have dot: "Parse_chars (rq raw' m u v b h hp fp mj 0 indeterminate http_version_major_state)
       (CHR ''.'' # d # r @ CR # LF # t)
     = Parse_chars (rq (raw' @ ''.'' @ [d]) m u (v @ ''.'' @ [d]) b h hp fp mj (push_digit 0 d)
         indeterminate http_version_minor_state) (r @ CR # LF # t)" for raw' v mj
    using d by (simp add: consume_simps)
  have nl: "Parse_chars (rq raw' m u v b h hp fp mj mn indeterminate http_version_minor_state)
       (CR # LF # t)
     = Parse_chars (rq (raw' @ CRLF) m u v b h hp fp mj mn indeterminate header_line_start) t"
    for raw' v mj mn
    by (simp add: consume_simps CRLF_def)
  have "Parse_chars (rq raw m u [] b h hp fp 0 0 indeterminate http_version_h)
          (''HTTP/'' @ maj @ ''.'' @ mnr @ CR # LF # t)
     = Parse_chars (rq ((raw @ ''HTTP/'' @ [c]) @ s) m u maj b h hp fp (foldl push_digit 0 maj) 0
         indeterminate http_version_major_state) (CHR ''.'' # d # r @ CR # LF # t)"
    using head run_major [OF s, of "raw @ ''HTTP/'' @ [c]" m u "[c]" b h hp fp "push_digit 0 c" 0
        "''.'' @ mnr @ CR # LF # t"]
    unfolding maj mnr by (simp only: append_Cons append_assoc append_Nil foldl.simps)
  also note dot
  also note run_minor [OF r]
  also note nl
  finally show ?thesis by (simp add: maj mnr)
qed

lemma run_request:
  assumes "request_ok m u maj mnr hs"
  shows "Parse_chars new_Request (request_text m u maj mnr hs b) = Inr (parsed_request m u maj mnr hs b)"
proof -
  have ok: "uri_ok u" "digits_ok maj" "digits_ok mnr" "list_all field_ok hs"
    and "token_string m" using assms by (simp_all add: request_ok_def)
  then obtain c s where m: "m = c # s" "\<not> not_token_char c" "list_all (\<lambda>c. \<not> not_token_char c) s"
    by (cases m) (auto simp: token_string_def)
  let ?v = "maj @ ''.'' @ mnr" and ?line = "line_text m u (maj @ ''.'' @ mnr)"
  let ?hp = "CHR ''/'' # takeWhile (\<lambda>c. c \<noteq> CHR ''/'') (tl u)"
  let ?fp = "dropWhile (\<lambda>c. c \<noteq> CHR ''/'') (tl u)"
  let ?mj = "foldl push_digit 0 maj" and ?mn = "foldl push_digit 0 mnr"
  have "Parse_chars new_Request (request_text m u maj mnr hs b)
      = Parse_chars (rq (m @ '' '') m [] [] [] [] [] [] 0 0 indeterminate handler_path_start)
          (u @ SPACE # ''HTTP/'' @ maj @ ''.'' @ mnr @ CR # LF # fields_text hs @ CRLF @ b)"
    using m run_method [OF m(3), of "[c]" "[c]"]
    by (simp add: new_Request_def consume_simps request_text_def line_text_def CRLF_def)
  also have "\<dots> = Parse_chars (rq ?line m u ?v [] [] ?hp ?fp ?mj ?mn indeterminate header_line_start)
      (fields_text hs @ CRLF @ b)"
    using run_path [OF ok(1)] run_version [OF ok(2,3)] by (simp add: line_text_def)
  also have "\<dots> = Parse_chars (rq (?line @ fields_text hs) m u ?v [] (map field_pair hs) ?hp ?fp
      ?mj ?mn indeterminate header_line_start) (CRLF @ b)"
    using run_fields [OF ok(4)] by simp
  also have "\<dots> = Parse_chars (rq (?line @ fields_text hs @ CRLF) m u ?v [] (map field_pair hs) ?hp ?fp
      ?mj ?mn good body_state) b"
    by (simp add: consume_simps CRLF_def)
  also have "\<dots> = Inr (parsed_request m u maj mnr hs b)"
    by (simp add: run_body parsed_request_def request_text_def)
  finally show ?thesis .
qed

end
