(* ===== verification/Request_Sound.thy ===== *)
theory Request_Sound
  imports Request_Complete
begin

text \<open>
  The invariant of the request parser: in every state, the text read so far is the one the fields
  print, cut off at the point the state stands for. It gives the other half of correctness, that
  only requests of the grammar are accepted, and that \<open>headers_.back()\<close> is never taken of an
  empty vector.
\<close>

section \<open>The invariant\<close>

definition no_rest :: "Request \<Rightarrow> bool" where
  "no_rest r \<longleftrightarrow> version r = [] \<and> request_headers r = [] \<and> request_body r = []"

text \<open>Method and URI read, and some of \<open>HTTP/\<close>.\<close>

definition line_start :: "Request \<Rightarrow> string \<Rightarrow> bool" where
  "line_start r t \<longleftrightarrow> token_string (method_name r) \<and> uri_ok (uri r) \<and> no_rest r \<and>
     raw_request r = method_name r @ '' '' @ uri r @ '' '' @ t"

definition in_version :: "Request \<Rightarrow> bool" where
  "in_version r \<longleftrightarrow> token_string (method_name r) \<and> uri_ok (uri r) \<and>
     request_headers r = [] \<and> request_body r = [] \<and>
     raw_request r = method_name r @ '' '' @ uri r @ '' HTTP/'' @ version r"

definition minor_started :: "string \<Rightarrow> bool" where
  "minor_started v \<longleftrightarrow> (\<exists>maj. digits_ok maj \<and> v = maj @ ''.'')"

definition version_ok :: "string \<Rightarrow> bool" where
  "version_ok v \<longleftrightarrow> (\<exists>maj mnr. digits_ok maj \<and> digits_ok mnr \<and> v = maj @ ''.'' @ mnr)"

text \<open>The request line with method \<open>m\<close>, URI \<open>u\<close> and version \<open>v\<close> read, then the fields
  \<open>hs\<close> and \<open>t\<close>.\<close>

definition after_line :: "string \<Rightarrow> string \<Rightarrow> string \<Rightarrow> string \<Rightarrow> field list \<Rightarrow> string \<Rightarrow> bool" where
  "after_line m u v raw hs t \<longleftrightarrow>
     token_string m \<and> uri_ok u \<and> version_ok v \<and> list_all field_ok hs \<and>
     raw = line_text m u v @ fields_text hs @ t"

abbreviation read_so_far :: "Request \<Rightarrow> field list \<Rightarrow> string \<Rightarrow> bool" where
  "read_so_far r \<equiv> after_line (method_name r) (uri r) (version r) (raw_request r)"

lemma version_snoc [simp, intro]:
  "digits_ok v \<Longrightarrow> minor_started (v @ ''.'')"
  "minor_started v \<Longrightarrow> is_digit (schar c) \<Longrightarrow> version_ok (v @ [c])"
  "version_ok v \<Longrightarrow> is_digit (schar c) \<Longrightarrow> version_ok (v @ [c])"
proof -
  show "digits_ok v \<Longrightarrow> minor_started (v @ ''.'')" by (auto simp: minor_started_def)
  show "minor_started v \<Longrightarrow> is_digit (schar c) \<Longrightarrow> version_ok (v @ [c])"
    unfolding minor_started_def version_ok_def by (metis append.assoc string_single(2))
  show "version_ok v \<Longrightarrow> is_digit (schar c) \<Longrightarrow> version_ok (v @ [c])"
  proof -
    assume "version_ok v" "is_digit (schar c)"
    then obtain maj mnr where "digits_ok maj" "digits_ok (mnr @ [c])" "v @ [c] = maj @ ''.'' @ mnr @ [c]"
      by (auto simp: version_ok_def)
    then show "version_ok (v @ [c])" unfolding version_ok_def by blast
  qed
qed

lemma after_line_snoc [simp]:
  "after_line m u v (raw @ [c]) hs (t @ [c]) \<longleftrightarrow> after_line m u v raw hs t"
  "after_line m u v (raw @ [c]) hs [c] \<longleftrightarrow> after_line m u v raw hs []"
  using append_same_eq [of raw "[c]"] by (auto simp: after_line_def)

lemma after_line_start:
  "token_string m \<Longrightarrow> uri_ok u \<Longrightarrow> version_ok v \<Longrightarrow>
   raw = m @ '' '' @ u @ '' HTTP/'' @ v @ [CR, LF] \<Longrightarrow> after_line m u v raw [] []"
  by (simp add: after_line_def line_text_def CRLF_def)

lemma after_line_close:
  "after_line m u v raw hs t \<Longrightarrow> field_ok f \<Longrightarrow> t = field_text f \<Longrightarrow> after_line m u v raw (hs @ [f]) []"
  by (auto simp: after_line_def)

lemma after_line_open:
  "after_line m u v raw (hs @ [f]) t \<Longrightarrow> after_line m u v raw hs (field_text f @ t) \<and> field_ok f"
  by (auto simp: after_line_def)

text \<open>A field that can still grow: a folded text is not empty any more.\<close>

fun growing :: "field \<Rightarrow> bool" where
  "growing (n, v, fs) = (fs = [] \<or> snd (last fs) \<noteq> [])"

fun inv_in :: "state \<Rightarrow> Request \<Rightarrow> bool" where
  "inv_in method_start r =
     (raw_request r = [] \<and> method_name r = [] \<and> uri r = [] \<and> no_rest r)"
| "inv_in method_inside r =
     (token_string (method_name r) \<and> raw_request r = method_name r \<and> uri r = [] \<and> no_rest r)"
| "inv_in handler_path_start r =
     (token_string (method_name r) \<and> raw_request r = method_name r @ '' '' \<and> uri r = [] \<and> no_rest r)"
| "inv_in handler_path_state r =
     (token_string (method_name r) \<and> uri_ok (uri r) \<and> raw_request r = method_name r @ '' '' @ uri r \<and> no_rest r)"
| "inv_in uri_inside r =
     (token_string (method_name r) \<and> uri_ok (uri r) \<and> raw_request r = method_name r @ '' '' @ uri r \<and> no_rest r)"
| "inv_in http_version_h r =
     (line_start r [])"
| "inv_in http_version_t_1 r =
     (line_start r ''H'')"
| "inv_in http_version_t_2 r =
     (line_start r ''HT'')"
| "inv_in http_version_p r =
     (line_start r ''HTT'')"
| "inv_in http_version_slash r =
     (line_start r ''HTTP'')"
| "inv_in http_version_major_start r =
     (line_start r ''HTTP/'')"
| "inv_in http_version_major_state r = (in_version r \<and> digits_ok (version r))"
| "inv_in http_version_minor_start r = (in_version r \<and> minor_started (version r))"
| "inv_in http_version_minor_state r = (in_version r \<and> version_ok (version r))"
| "inv_in expecting_newline_1 r =
     (token_string (method_name r) \<and> uri_ok (uri r) \<and> version_ok (version r) \<and>
      request_headers r = [] \<and> request_body r = [] \<and>
      raw_request r = method_name r @ '' '' @ uri r @ '' HTTP/'' @ version r @ [CR])"
| "inv_in header_line_start r =
     (\<exists>hs. read_so_far r hs [] \<and> request_headers r = map field_pair hs \<and> request_body r = [])"
| "inv_in header_name r =
     (\<exists>hs n. read_so_far r hs n \<and> token_string n \<and>
        request_headers r = map field_pair hs @ [(n, [])] \<and> request_body r = [])"
| "inv_in space_before_header_value r =
     (\<exists>hs n. read_so_far r hs (n @ '':'') \<and> token_string n \<and>
        request_headers r = map field_pair hs @ [(n, [])] \<and> request_body r = [])"
| "inv_in header_value r =
     (\<exists>hs f t. read_so_far r hs t \<and> field_ok f \<and> growing f \<and> t @ CRLF = field_text f \<and>
        request_headers r = map field_pair hs @ [field_pair f] \<and> request_body r = [])"
| "inv_in header_lws r =
     (\<exists>hs f w. read_so_far r (hs @ [f]) w \<and> lws_string w \<and>
        request_headers r = map field_pair hs @ [field_pair f] \<and> request_body r = [])"
| "inv_in expecting_newline_2 r =
     (\<exists>hs f t. read_so_far r hs t \<and> field_ok f \<and> t @ [LF] = field_text f \<and>
        request_headers r = map field_pair hs @ [field_pair f] \<and> request_body r = [])"
| "inv_in expecting_newline_3 r =
     (\<exists>hs. read_so_far r hs [CR] \<and> request_headers r = map field_pair hs \<and> request_body r = [])"
| "inv_in body_state r =
     (\<exists>hs. read_so_far r hs (CRLF @ request_body r) \<and> request_headers r = map field_pair hs)"
| "inv_in file_path_state r = False"

definition state_inv :: "Request \<Rightarrow> bool" where
  "state_inv r \<longleftrightarrow> inv_in (state_of r) r"

text \<open>The vector is not empty where a \<open>back()\<close> can follow.\<close>

lemma state_inv_headers:
  "state_inv r \<Longrightarrow> state_of r \<in> {header_name, header_lws, header_value} \<Longrightarrow> request_headers r \<noteq> []"
  by (auto simp: state_inv_def)

lemma consume_total:
  assumes "state_inv r"
  shows "\<exists>res r'. consume c r = Inr (res, r')"
proof (cases "state_of r \<in> {header_name, header_lws, header_value}")
  case True
  then obtain hs h where "request_headers r = hs @ [h]"
    using state_inv_headers [OF assms] by (metis rev_exhaust)
  with True show ?thesis
    by (auto simp: consume_simps push_header_name_def push_header_value_def split: prod.splits)
next
  case False
  then show ?thesis by (cases "state_of r") (simp_all add: consume_simps)
qed

section \<open>Preservation\<close>

text \<open>A field that grows by a character, and one that gets a folded line.\<close>

lemma field_grow:
  assumes "field_ok f" "growing f" "t @ CRLF = field_text f" "\<not> is_ctl (schar c)"
  obtains g where "field_ok g" "growing g" "(t @ [c]) @ CRLF = field_text g"
    "field_pair g = (fst (field_pair f), snd (field_pair f) @ [c])"
proof -
  obtain n v fs where f: "f = (n, v, fs)" by (cases f)
  show thesis
  proof (cases fs rule: rev_cases)
    case Nil
    then show thesis using assms f that [of "(n, v @ [c], [])"] by (simp add: CRLF_def)
  next
    case (snoc gs p)
    obtain w s where p: "p = (w, s)" by (cases p)
    have "s \<noteq> []" using assms(2) by (simp add: f snoc p)
    moreover have "t = n @ '': '' @ v @ CRLF @ concat (map fold_text gs) @ w @ s"
      using assms(3) by (simp add: f snoc p)
    ultimately show thesis
      using assms f snoc p that [of "(n, v, gs @ [(w, s @ [c])])"] by (cases s) auto
  qed
qed

lemma field_fold:
  assumes "field_ok f" "lws_string w" "s = [] \<or> s = [c] \<and> \<not> is_ctl (schar c) \<and> c \<noteq> SPACE"
  obtains g where "field_ok g" "s \<noteq> [] \<Longrightarrow> growing g" "(field_text f @ w @ s) @ CRLF = field_text g"
    "field_pair g = (fst (field_pair f), snd (field_pair f) @ s)"
proof -
  obtain n v fs where f: "f = (n, v, fs)" by (cases f)
  show thesis
    using assms f that [of "(n, v, fs @ [(w, s)])"] by (auto simp: value_string_def)
qed

text \<open>
  The step, state by state. \<open>keeps r\<close> says that whatever character comes next, the invariant
  holds again unless it was refused.
\<close>

definition keeps :: "state \<Rightarrow> bool" where
  "keeps st \<longleftrightarrow> (\<forall>r c res r'. state_of r = st \<longrightarrow> inv_in st r \<longrightarrow> consume c r = Inr (res, r') \<longrightarrow>
     res \<noteq> bad \<longrightarrow> state_inv (r'\<lparr>parsed_status := res\<rparr>))"

lemmas keeps_simps = keeps_def consume_simps state_inv_def

lemmas inv_simps = no_rest_def line_start_def in_version_def

lemma keeps_method: "keeps method_start" "keeps method_inside" "keeps handler_path_start"
  by (simp_all add: keeps_simps inv_simps)

lemma keeps_path: "keeps handler_path_state" "keeps uri_inside"
  by (simp_all add: keeps_simps inv_simps uri_char_def)

lemma keeps_prefix:
  "keeps http_version_h" "keeps http_version_t_1" "keeps http_version_t_2" "keeps http_version_p"
  "keeps http_version_slash" "keeps http_version_major_start"
  by (simp_all add: keeps_simps inv_simps)

lemma keeps_version:
  "keeps http_version_major_state" "keeps http_version_minor_start" "keeps http_version_minor_state"
  by (auto simp: keeps_simps in_version_def)

lemma keeps_newline_1: "keeps expecting_newline_1"
  by (auto simp: keeps_simps intro!: exI [of _ "[]"] after_line_start)

text \<open>
  The header lines. The states whose invariant speaks of a field get an introduction and an
  elimination rule, which keep the field as one variable.
\<close>

lemma header_valueI:
  "state_of r = header_value \<Longrightarrow> read_so_far r hs t \<Longrightarrow> field_ok f \<Longrightarrow> growing f \<Longrightarrow>
   t @ CRLF = field_text f \<Longrightarrow> request_headers r = map field_pair hs @ [field_pair f] \<Longrightarrow>
   request_body r = [] \<Longrightarrow> state_inv r"
  by (simp only: state_inv_def inv_in.simps) blast

lemma header_valueE:
  assumes "inv_in header_value r"
  obtains hs f t where "read_so_far r hs t" "field_ok f" "growing f" "t @ CRLF = field_text f"
    "request_headers r = map field_pair hs @ [field_pair f]" "request_body r = []"
  using assms by (simp only: inv_in.simps) blast

lemma header_lwsI:
  "state_of r = header_lws \<Longrightarrow> read_so_far r (hs @ [f]) w \<Longrightarrow> lws_string w \<Longrightarrow>
   request_headers r = map field_pair hs @ [field_pair f] \<Longrightarrow> request_body r = [] \<Longrightarrow> state_inv r"
  by (simp only: state_inv_def inv_in.simps) blast

lemma header_lwsE:
  assumes "inv_in header_lws r"
  obtains hs f w where "read_so_far r (hs @ [f]) w" "lws_string w"
    "request_headers r = map field_pair hs @ [field_pair f]" "request_body r = []"
  using assms by (simp only: inv_in.simps) blast

lemma newline_2I:
  "state_of r = expecting_newline_2 \<Longrightarrow> read_so_far r hs t \<Longrightarrow> field_ok f \<Longrightarrow>
   t @ [LF] = field_text f \<Longrightarrow> request_headers r = map field_pair hs @ [field_pair f] \<Longrightarrow>
   request_body r = [] \<Longrightarrow> state_inv r"
  by (simp only: state_inv_def inv_in.simps) blast

lemma newline_2E:
  assumes "inv_in expecting_newline_2 r"
  obtains hs f t where "read_so_far r hs t" "field_ok f" "t @ [LF] = field_text f"
    "request_headers r = map field_pair hs @ [field_pair f]" "request_body r = []"
  using assms by (simp only: inv_in.simps) blast

lemma keeps_header_line_start: "keeps header_line_start"
proof (unfold keeps_def, intro allI impI)
  fix r c res r'
  assume st: "state_of r = header_line_start" and inv: "inv_in header_line_start r"
    and step: "consume c r = Inr (res, r')" "res \<noteq> bad"
  obtain hs where hs: "read_so_far r hs []" "request_headers r = map field_pair hs" "request_body r = []"
    using inv by auto
  consider "c = CR" | "c \<noteq> CR" "request_headers r \<noteq> []" "c = SPACE \<or> c = TAB"
    | "c \<noteq> CR" "\<not> (request_headers r \<noteq> [] \<and> (c = SPACE \<or> c = TAB))" "\<not> not_token_char c"
    using st step by (auto simp: consume_simps split: if_splits)
  then show "state_inv (r'\<lparr>parsed_status := res\<rparr>)"
  proof cases
    case 1
    then show ?thesis using st step hs by (auto simp: keeps_simps)
  next
    case 2
    then obtain gs f where gs: "hs = gs @ [f]" using hs(2) by (cases hs rule: rev_cases) auto
    have "lws_string [c]" using 2 by simp
    with 2 st step hs gs show ?thesis
      by (intro header_lwsI [of _ gs f "[c]"]) (auto simp: consume_simps)
  next
    case 3
    then show ?thesis
      using st step hs by (auto simp: keeps_simps simp del: de_Morgan_conj split: if_splits intro!: exI [of _ hs])
  qed
qed

lemma keeps_header_name: "keeps header_name"
proof (unfold keeps_def, intro allI impI)
  fix r c res r'
  assume st: "state_of r = header_name" and inv: "inv_in header_name r"
    and step: "consume c r = Inr (res, r')" "res \<noteq> bad"
  obtain hs n where hs: "read_so_far r hs n" "token_string n"
      "request_headers r = map field_pair hs @ [(n, [])]" "request_body r = []"
    using inv by auto
  show "state_inv (r'\<lparr>parsed_status := res\<rparr>)"
  proof (cases "c = CHR '':''")
    case True
    then show ?thesis using st step hs by (auto simp: keeps_simps intro!: exI [of _ hs])
  next
    case False
    then show ?thesis using st step hs
      by (auto simp: keeps_simps push_header_name_def split: if_splits intro!: exI [of _ hs])
  qed
qed

lemma keeps_space_before_header_value: "keeps space_before_header_value"
proof (unfold keeps_def, intro allI impI)
  fix r c res r'
  assume st: "state_of r = space_before_header_value" and inv: "inv_in space_before_header_value r"
    and step: "consume c r = Inr (res, r')" "res \<noteq> bad"
  obtain hs n where hs: "read_so_far r hs (n @ '':'')" "token_string n"
      "request_headers r = map field_pair hs @ [(n, [])]" "request_body r = []"
    using inv by auto
  have "after_line (method_name r) (uri r) (version r) (raw_request r @ [SPACE]) hs (n @ '': '')"
    using hs(1) after_line_snoc(1) [of "method_name r" "uri r" "version r" "raw_request r" SPACE hs "n @ '':''"]
    by simp
  then show "state_inv (r'\<lparr>parsed_status := res\<rparr>)"
    using st step hs
    by (intro header_valueI [of _ hs "n @ '': ''" "(n, [], [])"])
      (auto simp: consume_simps split: if_splits)
qed

lemma keeps_header_value: "keeps header_value"
proof (unfold keeps_def, intro allI impI)
  fix r c res r'
  assume st: "state_of r = header_value" and inv: "inv_in header_value r"
    and step: "consume c r = Inr (res, r')" "res \<noteq> bad"
  obtain hs f t where hs: "read_so_far r hs t" "field_ok f" "growing f" "t @ CRLF = field_text f"
      "request_headers r = map field_pair hs @ [field_pair f]" "request_body r = []"
    using inv by (rule header_valueE)
  show "state_inv (r'\<lparr>parsed_status := res\<rparr>)"
  proof (cases "c = CR")
    case True
    have "(t @ [CR]) @ [LF] = field_text f" using hs(4) by (simp add: CRLF_def)
    then show ?thesis using True st step hs
      by (intro newline_2I [of _ hs "t @ [CR]" f]) (auto simp: consume_simps)
  next
    case False
    then have c: "\<not> is_ctl (schar c)" using st step by (auto simp: consume_simps split: if_splits)
    then obtain g where g: "field_ok g" "growing g" "(t @ [c]) @ CRLF = field_text g"
        "field_pair g = (fst (field_pair f), snd (field_pair f) @ [c])"
      using field_grow [OF hs(2-4)] by blast
    then show ?thesis using False c st step hs
      by (intro header_valueI [of _ hs "t @ [c]" g])
        (auto simp: consume_simps push_header_value_def split: prod.splits)
  qed
qed

lemma keeps_header_lws: "keeps header_lws"
proof (unfold keeps_def, intro allI impI)
  fix r c res r'
  assume st: "state_of r = header_lws" and inv: "inv_in header_lws r"
    and step: "consume c r = Inr (res, r')" "res \<noteq> bad"
  obtain hs f w where hs: "read_so_far r (hs @ [f]) w" "lws_string w"
      "request_headers r = map field_pair hs @ [field_pair f]" "request_body r = []"
    using inv by (rule header_lwsE)
  have op: "read_so_far r hs (field_text f @ w)" "field_ok f"
    using after_line_open [OF hs(1)] by blast+
  have al: "after_line (method_name r) (uri r) (version r) (raw_request r @ [c]) hs (field_text f @ w @ [c])"
    using op(1) after_line_snoc(1) [of "method_name r" "uri r" "version r" "raw_request r" c hs "field_text f @ w"]
    by simp
  consider "c = CR" | "c \<noteq> CR" "c = SPACE \<or> c = TAB"
    | "c \<noteq> CR" "c \<noteq> SPACE" "c \<noteq> TAB" "\<not> is_ctl (schar c)"
    using st step by (auto simp: consume_simps split: if_splits)
  then show "state_inv (r'\<lparr>parsed_status := res\<rparr>)"
  proof cases
    case 1
    obtain g where g: "field_ok g" "(field_text f @ w @ []) @ CRLF = field_text g"
        "field_pair g = (fst (field_pair f), snd (field_pair f) @ [])"
      by (rule field_fold [OF op(2) hs(2), of "[]" c]) simp_all
    have "(field_text f @ w @ [CR]) @ [LF] = field_text g" using g(2) by (simp add: CRLF_def)
    then show ?thesis using 1 g(1,3) st step hs(3,4) al
      by (intro newline_2I [of _ hs "field_text f @ w @ [CR]" g])
        (auto simp: consume_simps simp del: after_line_snoc field_text.simps)
  next
    case 2
    then show ?thesis using st step hs
      by (intro header_lwsI [of _ hs f "w @ [c]"]) (auto simp: consume_simps)
  next
    case 3
    obtain g where g: "field_ok g" "growing g" "(field_text f @ w @ [c]) @ CRLF = field_text g"
        "field_pair g = (fst (field_pair f), snd (field_pair f) @ [c])"
      by (rule field_fold [OF op(2) hs(2), of "[c]" c]) (use 3 in simp_all)
    then show ?thesis using 3 st step hs(3,4) al
      by (intro header_valueI [of _ hs "field_text f @ w @ [c]" g])
        (auto simp: consume_simps push_header_value_def simp del: after_line_snoc field_text.simps
          split: prod.splits)
  qed
qed

lemma keeps_newline_2: "keeps expecting_newline_2"
proof (unfold keeps_def, intro allI impI)
  fix r c res r'
  assume st: "state_of r = expecting_newline_2" and inv: "inv_in expecting_newline_2 r"
    and step: "consume c r = Inr (res, r')" "res \<noteq> bad"
  obtain hs f t where hs: "read_so_far r hs t" "field_ok f" "t @ [LF] = field_text f"
      "request_headers r = map field_pair hs @ [field_pair f]" "request_body r = []"
    using inv by (rule newline_2E)
  have "after_line (method_name r) (uri r) (version r) (raw_request r @ [LF]) hs (t @ [LF])"
    using hs(1) by simp
  then have "after_line (method_name r) (uri r) (version r) (raw_request r @ [LF]) (hs @ [f]) []"
    by (rule after_line_close [OF _ hs(2,3)])
  then have "inv_in header_line_start (r\<lparr>raw_request := raw_request r @ [LF]\<rparr>)"
    using hs(4,5) by (auto intro!: exI [of _ "hs @ [f]"])
  then show "state_inv (r'\<lparr>parsed_status := res\<rparr>)"
    using st step by (auto simp: keeps_simps split: if_splits)
qed

lemma keeps_body: "keeps expecting_newline_3" "keeps body_state" "keeps file_path_state"
proof -
  have nl: "after_line m u v (raw @ [LF]) hs [CR, LF] \<longleftrightarrow> after_line m u v raw hs [CR]" for m u v raw hs
    using after_line_snoc(1) [of m u v raw LF hs "[CR]"] by simp
  show "keeps expecting_newline_3"
    by (auto simp: keeps_simps CRLF_def nl simp del: after_line_snoc)
  have b: "after_line m u v (raw @ [c]) hs (CRLF @ b @ [c]) \<longleftrightarrow> after_line m u v raw hs (CRLF @ b)"
    for m u v raw hs c b
    using after_line_snoc(1) [of m u v raw c hs "CRLF @ b"] by simp
  show "keeps body_state" by (auto simp: keeps_simps b simp del: after_line_snoc)
  show "keeps file_path_state" by (simp add: keeps_simps)
qed

lemma keeps_all: "keeps st"
  by (cases st)
     (simp_all add: keeps_method keeps_path keeps_prefix keeps_version keeps_newline_1
       keeps_header_line_start keeps_header_name keeps_space_before_header_value keeps_header_value
       keeps_header_lws keeps_newline_2
       keeps_body)

lemma state_inv_consume:
  "state_inv r \<Longrightarrow> consume c r = Inr (res, r') \<Longrightarrow> res \<noteq> bad \<Longrightarrow> state_inv (r'\<lparr>parsed_status := res\<rparr>)"
  using keeps_all [of "state_of r"] by (auto simp: keeps_def state_inv_def)

section \<open>Whole texts\<close>

lemma consume_good: "consume c r = Inr (good, r') \<Longrightarrow> state_of r' = body_state"
  by (cases "state_of r")
     (auto simp: consume_simps outcome_bind_def split: if_splits sum.splits)

lemma consume_raw: "consume c r = Inr (res, r') \<Longrightarrow> raw_request r' = raw_request r @ [c]"
  by (cases "state_of r")
     (auto simp: consume_simps outcome_bind_def split: if_splits sum.splits)

lemma consume_uri:
  "consume c r = Inr (res, r') \<Longrightarrow> uri r = handler_path r @ file_path r \<Longrightarrow> state_inv r \<Longrightarrow>
   (state_of r = handler_path_state \<longrightarrow> file_path r = []) \<Longrightarrow>
   uri r' = handler_path r' @ file_path r' \<and>
   (state_of r' = handler_path_state \<longrightarrow> file_path r' = [])"
  by (cases "state_of r")
     (auto simp: consume_simps state_inv_def outcome_bind_def split: if_splits sum.splits)

text \<open>
  Whatever the input, the parser returns an object: no \<open>back()\<close> of an empty vector. If the object is
  not refused, the whole input was read and the invariant holds.
\<close>

lemma Parse_chars_inv:
  assumes "state_inv r"
  shows "\<exists>r'. Parse_chars r s = Inr r' \<and>
    (parsed_status r' \<noteq> bad \<longrightarrow> (s \<noteq> [] \<or> parsed_status r \<noteq> bad) \<longrightarrow>
       state_inv r' \<and> raw_request r' = raw_request r @ s) \<and>
    (parsed_status r' = good \<longrightarrow> s \<noteq> [] \<longrightarrow> state_of r' = body_state)"
  using assms
proof (induction s arbitrary: r)
  case Nil
  then show ?case by simp
next
  case (Cons c s)
  obtain res r1 where step: "consume c r = Inr (res, r1)"
    using consume_total [OF Cons.prems] by blast
  show ?case
  proof (cases "res = bad")
    case True
    then show ?thesis using step by simp
  next
    case False
    let ?r = "r1\<lparr>parsed_status := res\<rparr>"
    have inv: "state_inv ?r" by (rule state_inv_consume [OF Cons.prems step False])
    have raw: "raw_request ?r = raw_request r @ [c]" using consume_raw [OF step] by simp
    have good: "res = good \<Longrightarrow> state_of ?r = body_state" using consume_good step by simp
    obtain r' where r': "Parse_chars ?r s = Inr r'"
        "parsed_status r' \<noteq> bad \<longrightarrow> state_inv r' \<and> raw_request r' = raw_request ?r @ s"
        "parsed_status r' = good \<longrightarrow> s \<noteq> [] \<longrightarrow> state_of r' = body_state"
      using Cons.IH [OF inv] False by auto
    have "parsed_status r' = good \<Longrightarrow> state_of r' = body_state"
      using r' good by (cases s) auto
    then show ?thesis using step False r' raw by auto
  qed
qed

lemma state_inv_new_Request: "state_inv new_Request"
  by (simp add: state_inv_def new_Request_def no_rest_def)

lemma Parse_chars_total: "\<exists>r. Parse_chars new_Request s = Inr r"
  using Parse_chars_inv [OF state_inv_new_Request, of s] by auto

lemma Parse_chars_sound:
  assumes "Parse_chars new_Request s = Inr r" "parsed_status r = good" "s \<noteq> []"
  shows "\<exists>m u maj mnr hs b. request_ok m u maj mnr hs \<and> s = request_text m u maj mnr hs b \<and>
    r = parsed_request m u maj mnr hs b"
proof -
  have r: "state_inv r" "raw_request r = s" "state_of r = body_state"
    using Parse_chars_inv [OF state_inv_new_Request, of s] assms
    by (auto simp: new_Request_def)
  then obtain hs where hs: "read_so_far r hs (CRLF @ request_body r)"
    by (auto simp: state_inv_def)
  then obtain maj mnr where v: "digits_ok maj" "digits_ok mnr" "version r = maj @ ''.'' @ mnr"
    by (auto simp: after_line_def version_ok_def)
  have ok: "request_ok (method_name r) (uri r) maj mnr hs"
    using hs v by (simp add: after_line_def request_ok_def)
  moreover have s: "s = request_text (method_name r) (uri r) maj mnr hs (request_body r)"
    using hs v r(2) by (simp add: after_line_def request_text_def)
  moreover have "r = parsed_request (method_name r) (uri r) maj mnr hs (request_body r)"
    using run_request [OF ok, of "request_body r"] s assms(1) by simp
  ultimately show ?thesis by blast
qed

text \<open>The URI is always the two parts of the path, refused or not.\<close>

lemma Parse_chars_uri:
  "Parse_chars r s = Inr r' \<Longrightarrow> state_inv r \<Longrightarrow> uri r = handler_path r @ file_path r \<Longrightarrow>
   (state_of r = handler_path_state \<longrightarrow> file_path r = []) \<Longrightarrow>
   uri r' = handler_path r' @ file_path r'"
proof (induction s arbitrary: r)
  case Nil
  then show ?case by simp
next
  case (Cons c s)
  obtain res r1 where step: "consume c r = Inr (res, r1)"
    using consume_total [OF Cons.prems(2)] by blast
  note u = consume_uri [OF step Cons.prems(3,2,4)]
  show ?case
  proof (cases "res = bad")
    case True
    then show ?thesis using step u Cons.prems(1) by auto
  next
    case False
    then show ?thesis
      using Cons.IH [of "r1\<lparr>parsed_status := res\<rparr>"] step u Cons.prems(1)
        state_inv_consume [OF Cons.prems(2) step] by simp
  qed
qed

end
