(* ===== verification/Response.thy ===== *)
theory Response
  imports Prelude
begin

text \<open>
  The class \<open>Response\<close> of \<open>include/response.h\<close> and \<open>src/response.cc\<close>: a
  status line, header fields and a body, and its serialisation.

  \<open>raw_status_\<close> has no initialiser and \<open>Response\<close> no constructor, so a default
  initialised response has no value there: \<open>None\<close>, and reading it is undefined behaviour.
\<close>

section \<open>Response codes\<close>

text \<open>The enumeration \<open>ResponseCode\<close> and the numbers of its members.\<close>

datatype ResponseCode = OK_200 | NOT_FOUND | INTERNAL_SERVER_ERROR | REDIRECT

fun code_number :: "ResponseCode \<Rightarrow> nat" where
  "code_number OK_200 = 200"
| "code_number NOT_FOUND = 404"
| "code_number INTERNAL_SERVER_ERROR = 500"
| "code_number REDIRECT = 302"

lemma code_number_inj [simp]: "code_number a = code_number b \<longleftrightarrow> a = b"
  by (cases a; cases b) simp_all

text \<open>Enumerators compare by their numbers.\<close>

instantiation ResponseCode :: linorder
begin

definition less_eq_ResponseCode :: "ResponseCode \<Rightarrow> ResponseCode \<Rightarrow> bool" where
  "a \<le> b \<longleftrightarrow> code_number a \<le> code_number b"

definition less_ResponseCode :: "ResponseCode \<Rightarrow> ResponseCode \<Rightarrow> bool" where
  "a < b \<longleftrightarrow> code_number a < code_number b"

instance
  by (intro_classes) (auto simp: less_eq_ResponseCode_def less_ResponseCode_def)

end

section \<open>The class\<close>

record Response =
  status :: string
  raw_status :: "ResponseCode option"
  headers :: "(string \<times> string) list"
  body :: string

definition new_Response :: Response where
  "new_Response = \<lparr>status = [], raw_status = None, headers = [], body = []\<rparr>"

fun status_line :: "ResponseCode \<Rightarrow> string" where
  "status_line OK_200 = ''HTTP/1.1 200 OK''"
| "status_line NOT_FOUND = ''HTTP/1.1 404 Not Found''"
| "status_line REDIRECT = ''HTTP/1.1 302 Found''"
| "status_line INTERNAL_SERVER_ERROR = ''HTTP/1.1 500 Internal Server Error''"

definition SetStatus :: "ResponseCode \<Rightarrow> Response \<Rightarrow> Response" where
  "SetStatus response_code r =
     r\<lparr>status := status_line response_code, raw_status := Some response_code\<rparr>"

definition GetResponseCode :: "Response \<Rightarrow> ResponseCode outcome" where
  "GetResponseCode r =
     (case raw_status r of None \<Rightarrow> Inl Undefined_behaviour | Some c \<Rightarrow> Inr c)"

definition AddHeader :: "string \<Rightarrow> string \<Rightarrow> Response \<Rightarrow> Response" where
  "AddHeader header_name header_value r = r\<lparr>headers := headers r @ [(header_name, header_value)]\<rparr>"

definition SetBody :: "string \<Rightarrow> Response \<Rightarrow> Response" where
  "SetBody b r = r\<lparr>body := b\<rparr>"

fun header_line :: "string \<times> string \<Rightarrow> string" where
  "header_line (n, v) = n @ '': '' @ v @ [CR, LF]"

definition Response_ToString :: "Response \<Rightarrow> string" where
  "Response_ToString r =
     status r @ [CR, LF] @ concat (map header_line (headers r)) @ [CR, LF] @ body r"

lemmas response_defs = SetStatus_def AddHeader_def SetBody_def

lemma SetStatus_simps [simp]:
  "raw_status (SetStatus c r) = Some c" "status (SetStatus c r) = status_line c"
  "headers (SetStatus c r) = headers r" "body (SetStatus c r) = body r"
  by (simp_all add: SetStatus_def)

lemma AddHeader_simps [simp]:
  "raw_status (AddHeader n v r) = raw_status r" "status (AddHeader n v r) = status r"
  "headers (AddHeader n v r) = headers r @ [(n, v)]" "body (AddHeader n v r) = body r"
  by (simp_all add: AddHeader_def)

lemma SetBody_simps [simp]:
  "raw_status (SetBody b r) = raw_status r" "status (SetBody b r) = status r"
  "headers (SetBody b r) = headers r" "body (SetBody b r) = b"
  by (simp_all add: SetBody_def)

lemma new_Response_simps [simp]:
  "raw_status new_Response = None" "status new_Response = []"
  "headers new_Response = []" "body new_Response = []"
  by (simp_all add: new_Response_def)

text \<open>The status line and the stored code are set together, so they agree once one is set.\<close>

definition status_ok :: "Response \<Rightarrow> bool" where
  "status_ok r \<longleftrightarrow> (case raw_status r of None \<Rightarrow> status r = [] | Some c \<Rightarrow> status r = status_line c)"

lemma status_ok_preserved [simp]:
  "status_ok new_Response"
  "status_ok (SetStatus c r)"
  "status_ok (AddHeader n v r) = status_ok r"
  "status_ok (SetBody b r) = status_ok r"
  by (simp_all add: status_ok_def split: option.split)

lemma status_line_inj [simp]: "status_line a = status_line b \<longleftrightarrow> a = b"
  by (cases a; cases b) simp_all

section \<open>What a client reads back\<close>

text \<open>
  A reference reader of the serialised form: lines end at the first CR LF, the fields end at the
  first empty line, a field is split at its first colon and space, and the rest is the body.
\<close>

fun take_line :: "string \<Rightarrow> (string \<times> string) option" where
  "take_line [] = None"
| "take_line [c] = None"
| "take_line (c # d # s) =
     (if c = CR \<and> d = LF then Some ([], s)
      else map_option (\<lambda>(l, r). (c # l, r)) (take_line (d # s)))"

fun split_field :: "string \<Rightarrow> (string \<times> string) option" where
  "split_field [] = None"
| "split_field [c] = None"
| "split_field (c # d # s) =
     (if c = CHR '':'' \<and> d = SPACE then Some ([], s)
      else map_option (\<lambda>(l, r). (c # l, r)) (split_field (d # s)))"

lemma take_line_shorter: "take_line s = Some (l, r) \<Longrightarrow> length r < length s"
  by (induction s arbitrary: l rule: take_line.induct) (auto split: if_splits)

function read_fields :: "string \<Rightarrow> ((string \<times> string) list \<times> string) option" where
  "read_fields s =
     (case take_line s of
        None \<Rightarrow> None
      | Some (l, r) \<Rightarrow>
          if l = [] then Some ([], r)
          else (case split_field l of
                  None \<Rightarrow> None
                | Some h \<Rightarrow> map_option (\<lambda>(hs, b). (h # hs, b)) (read_fields r)))"
  by pat_completeness auto
termination
  by (relation "measure length") (auto dest: take_line_shorter)

declare read_fields.simps [simp del]

definition read_response :: "string \<Rightarrow> (string \<times> (string \<times> string) list \<times> string) option" where
  "read_response s =
     (case take_line s of
        None \<Rightarrow> None
      | Some (l, r) \<Rightarrow> map_option (\<lambda>(hs, b). (l, hs, b)) (read_fields r))"

text \<open>Text without a line feed cannot end a line; a name without a colon cannot be split early.\<close>

definition plain_line :: "string \<Rightarrow> bool" where
  "plain_line s \<longleftrightarrow> LF \<notin> set s"

definition header_plain :: "string \<times> string \<Rightarrow> bool" where
  "header_plain h \<longleftrightarrow> plain_line (fst h) \<and> CHR '':'' \<notin> set (fst h) \<and> plain_line (snd h)"

lemma take_line_plain: "LF \<notin> set s \<Longrightarrow> take_line (s @ CR # LF # r) = Some (s, r)"
proof (induction s)
  case (Cons c s)
  then show ?case by (cases s) auto
qed simp

lemma split_field_plain: "CHR '':'' \<notin> set n \<Longrightarrow> split_field (n @ CHR '':'' # SPACE # v) = Some (n, v)"
proof (induction n)
  case (Cons c s)
  then show ?case by (cases s) auto
qed simp

lemma read_fields_print:
  "list_all header_plain hs \<Longrightarrow>
   read_fields (concat (map header_line hs) @ CR # LF # b) = Some (hs, b)"
proof (induction hs)
  case Nil
  then show ?case by (simp add: read_fields.simps)
next
  case (Cons h hs)
  obtain n v where h: "h = (n, v)" by (cases h)
  have nv: "LF \<notin> set n" "LF \<notin> set v" "CHR '':'' \<notin> set n"
    using Cons.prems by (auto simp: h header_plain_def plain_line_def)
  let ?rest = "concat (map header_line hs) @ CR # LF # b"
  have "take_line ((n @ CHR '':'' # SPACE # v) @ CR # LF # ?rest) = Some (n @ CHR '':'' # SPACE # v, ?rest)"
    by (rule take_line_plain) (use nv in auto)
  then have "take_line (concat (map header_line (h # hs)) @ CR # LF # b) =
      Some (n @ CHR '':'' # SPACE # v, ?rest)"
    by (simp add: h)
  then show ?case
    using Cons nv by (subst read_fields.simps) (simp add: split_field_plain h)
qed

lemma read_response_print:
  assumes "plain_line (status r)" "list_all header_plain (headers r)"
  shows "read_response (Response_ToString r) = Some (status r, headers r, body r)"
  using assms take_line_plain [of "status r"] read_fields_print
  by (simp add: read_response_def Response_ToString_def plain_line_def)

lemma plain_status_line [simp]: "plain_line (status_line c)"
  by (cases c) (simp_all add: plain_line_def)

end
