(* ===== verification/Std_Map.thy ===== *)
theory Std_Map
  imports Prelude
begin

text \<open>
  \<open>std::map\<close>: an ordered associative container. The sources use \<open>find\<close> /
  \<open>count\<close> / \<open>at\<close> (lookup), \<open>operator[]\<close> used as an assignment (insert or
  overwrite) and the range-for loop, which visits the entries in increasing order of the keys.

  The interface is the locale \<open>ordered_map\<close>: what a lookup returns after an insertion, and that
  the entries a loop visits are the lookups, sorted. What the components need of a map is proved
  once from these laws; the representation used by the model, a sorted association list, is the
  interpretation at the end of the theory.
\<close>

section \<open>The interface\<close>

locale ordered_map =
  fixes empty :: "'m"
    and get :: "'m \<Rightarrow> 'k::linorder \<Rightarrow> 'v option"
    and put :: "'k \<Rightarrow> 'v \<Rightarrow> 'm \<Rightarrow> 'm"
    and entries :: "'m \<Rightarrow> ('k \<times> 'v) list"
    and invar :: "'m \<Rightarrow> bool"
  assumes get_empty: "get empty k = None"
    and get_put: "get (put k v m) k' = (if k' = k then Some v else get m k')"
    and invar_empty: "invar empty"
    and invar_put: "invar m \<Longrightarrow> invar (put k v m)"
    and entries_get: "invar m \<Longrightarrow> map_of (entries m) = get m"
    and entries_sorted: "invar m \<Longrightarrow> sorted_wrt (<) (map fst (entries m))"
begin

lemma distinct_keys: "invar m \<Longrightarrow> distinct (map fst (entries m))"
  using entries_sorted strict_sorted_iff by blast

lemma entry_iff: "invar m \<Longrightarrow> (k, v) \<in> set (entries m) \<longleftrightarrow> get m k = Some v"
  using distinct_keys entries_get map_of_eq_Some_iff by metis

lemma dom_get: "invar m \<Longrightarrow> dom (get m) = fst ` set (entries m)"
  by (metis entries_get dom_map_of_conv_image_fst)

lemma finite_dom: "invar m \<Longrightarrow> finite (dom (get m))"
  by (simp add: dom_get)

lemma dom_put: "dom (get (put k v m)) = insert k (dom (get m))"
  by (auto simp: get_put dom_def)

lemma entries_empty: "entries empty = []"
proof -
  have "map_of (entries empty) = Map.empty"
    using entries_get [OF invar_empty] by (simp add: get_empty fun_eq_iff)
  then show ?thesis by simp
qed

lemma keys_eq: "invar m \<Longrightarrow> map fst (entries m) = sorted_list_of_set (dom (get m))"
proof -
  assume inv: "invar m"
  have sd: "sorted (map fst (entries m))" "distinct (map fst (entries m))"
    using entries_sorted [OF inv] strict_sorted_iff by blast+
  show ?thesis
    by (rule sorted_distinct_set_unique [OF sd])
       (simp_all add: dom_get [OF inv])
qed

text \<open>The loop over a map is determined by its lookups.\<close>

lemma entries_eq:
  "invar m \<Longrightarrow> entries m = map (\<lambda>k. (k, the (get m k))) (sorted_list_of_set (dom (get m)))"
proof -
  assume inv: "invar m"
  have "entries m = map (\<lambda>e. (fst e, the (get m (fst e)))) (entries m)"
    by (rule map_idI [symmetric]) (auto simp: entry_iff [OF inv])
  also have "\<dots> = map (\<lambda>k. (k, the (get m k))) (map fst (entries m))" by simp
  finally show ?thesis by (simp add: keys_eq [OF inv])
qed

lemma entries_ext:
  assumes "invar m" "invar m'" "\<And>k. get m k = get m' k"
  shows "entries m = entries m'"
proof -
  have "get m = get m'" using assms(3) by (rule ext)
  then show ?thesis by (simp add: entries_eq assms(1,2))
qed

text \<open>
  What an insertion does to a sum over the entries: the old entry of the key, if any, is replaced.
  This carries every "the totals agree" invariant of a map of counters.
\<close>

lemma sum_entries:
  fixes f :: "'k \<Rightarrow> 'v \<Rightarrow> 'n::comm_monoid_add"
  assumes "invar m"
  shows "(\<Sum>(k, v)\<leftarrow>entries m. f k v) = (\<Sum>k\<in>dom (get m). f k (the (get m k)))"
proof -
  have d: "distinct (entries m)"
    using distinct_keys [OF assms] distinct_map by blast
  have inj: "inj_on fst (set (entries m))"
    using distinct_keys [OF assms] distinct_map by blast
  have "(\<Sum>(k, v)\<leftarrow>entries m. f k v) = (\<Sum>(k, v)\<in>set (entries m). f k v)"
    by (rule sum_list_distinct_conv_sum_set [OF d])
  also have "\<dots> = (\<Sum>e\<in>set (entries m). f (fst e) (the (get m (fst e))))"
    by (rule sum.cong) (auto simp: entry_iff [OF assms])
  also have "\<dots> = (\<Sum>k\<in>fst ` set (entries m). f k (the (get m k)))"
    by (simp add: sum.reindex [OF inj])
  finally show ?thesis by (simp add: dom_get [OF assms])
qed

lemma sum_entries_put:
  fixes f :: "'k \<Rightarrow> 'v \<Rightarrow> 'n::comm_monoid_add"
  assumes "invar m"
  shows "(\<Sum>(k, v)\<leftarrow>entries (put j w m). f k v) + (case get m j of None \<Rightarrow> 0 | Some u \<Rightarrow> f j u)
         = (\<Sum>(k, v)\<leftarrow>entries m. f k v) + f j w"
proof -
  let ?g = "get m" and ?g' = "get (put j w m)" and ?D = "dom (get m) - {j}"
  have fin: "finite ?D" by (simp add: finite_dom [OF assms])
  have rest: "(\<Sum>k\<in>?D. f k (the (?g' k))) = (\<Sum>k\<in>?D. f k (the (?g k)))"
    by (rule sum.cong) (auto simp: get_put)
  have "dom ?g' = insert j ?D" by (auto simp: get_put dom_def)
  then have "(\<Sum>(k, v)\<leftarrow>entries (put j w m). f k v) = f j (the (?g' j)) + (\<Sum>k\<in>?D. f k (the (?g' k)))"
    unfolding sum_entries [OF invar_put [OF assms]] by (subst sum.insert_remove [symmetric])
      (simp_all add: finite_dom [OF assms])
  then have new: "(\<Sum>(k, v)\<leftarrow>entries (put j w m). f k v) = f j w + (\<Sum>k\<in>?D. f k (the (?g k)))"
    by (simp only: rest) (simp add: get_put)
  show ?thesis
  proof (cases "?g j")
    case None
    then have "dom ?g = ?D" by auto
    then have "(\<Sum>(k, v)\<leftarrow>entries m. f k v) = (\<Sum>k\<in>?D. f k (the (?g k)))"
      by (simp add: sum_entries [OF assms])
    with None new show ?thesis by (simp add: ac_simps)
  next
    case (Some u)
    then have "j \<in> dom ?g" by auto
    then have "(\<Sum>(k, v)\<leftarrow>entries m. f k v) = f j (the (?g j)) + (\<Sum>k\<in>?D. f k (the (?g k)))"
      by (simp add: sum_entries [OF assms] sum.remove [OF finite_dom [OF assms]])
    then have "(\<Sum>(k, v)\<leftarrow>entries m. f k v) = f j u + (\<Sum>k\<in>?D. f k (the (?g k)))"
      using Some by simp
    with Some new show ?thesis by (simp add: ac_simps)
  qed
qed

end

section \<open>The representation: a sorted association list\<close>

type_synonym ('k, 'v) std_map = "('k \<times> 'v) list"

fun map_put :: "'k::linorder \<Rightarrow> 'v \<Rightarrow> ('k, 'v) std_map \<Rightarrow> ('k, 'v) std_map" where
  "map_put k v [] = [(k, v)]"
| "map_put k v ((k', v') # m) =
     (if k = k' then (k, v) # m
      else if k < k' then (k, v) # (k', v') # m
      else (k', v') # map_put k v m)"

abbreviation map_find :: "('k, 'v) std_map \<Rightarrow> 'k \<Rightarrow> 'v option" where
  "map_find \<equiv> map_of"

definition map_ok :: "('k::linorder, 'v) std_map \<Rightarrow> bool" where
  "map_ok m \<longleftrightarrow> sorted_wrt (<) (map fst m)"

text \<open>\<open>m.at(k)\<close> throws \<open>std::out_of_range\<close> when the key is missing.\<close>

definition map_at :: "('k, 'v) std_map \<Rightarrow> 'k \<Rightarrow> 'v outcome" where
  "map_at m k = (case map_find m k of None \<Rightarrow> Inl Out_of_range | Some v \<Rightarrow> Inr v)"

lemma map_find_put: "map_find (map_put k v m) k' = (if k' = k then Some v else map_find m k')"
  by (induction k v m rule: map_put.induct) auto

lemma keys_map_put: "fst ` set (map_put k v m) = insert k (fst ` set m)"
  by (induction k v m rule: map_put.induct) auto

lemma map_ok_put: "map_ok m \<Longrightarrow> map_ok (map_put k v m)"
proof (induction k v m rule: map_put.induct)
  case (2 k v k' v' m)
  have "set (map fst (map_put k v m)) = insert k (set (map fst m))"
    using keys_map_put [of k v m] by simp
  with 2 show ?case by (auto simp: map_ok_def)
qed (simp add: map_ok_def)

interpretation sm: ordered_map "[]" map_find map_put "\<lambda>m. m" map_ok
  by unfold_locales (simp_all add: map_find_put map_ok_put, simp_all add: map_ok_def)

lemma map_at_simps [cxx_simps]:
  "map_at m k = Inr v \<longleftrightarrow> map_find m k = Some v"
  "map_at m k = Inl e \<longleftrightarrow> map_find m k = None \<and> e = Out_of_range"
  by (auto simp: map_at_def split: option.splits)

end
