(* ===== verification/Std_Number.thy ===== *)
theory Std_Number
  imports Prelude "HOL-Library.Word"
begin

text \<open>
  Numbers as text: \<open>std::to_string(unsigned)\<close>, used by the status page, and
  \<open>std::stoi\<close>, used for the port. An \<open>int\<close> has 32 bits and a \<open>long\<close> 64.
\<close>

section \<open>Digits\<close>

text \<open>\<open>c >= '0' && c <= '9'\<close>.\<close>

definition is_digit_char :: "char \<Rightarrow> bool" where
  "is_digit_char c \<longleftrightarrow> schar (CHR ''0'') \<le> schar c \<and> schar c \<le> schar (CHR ''9'')"

definition digit_val :: "char \<Rightarrow> nat" where
  "digit_val c = of_char c - 48"

definition digit_char :: "nat \<Rightarrow> char" where
  "digit_char n = ''0123456789'' ! n"

definition decimal_value :: "string \<Rightarrow> nat" where
  "decimal_value s = foldl (\<lambda>n c. n * 10 + digit_val c) 0 s"

text \<open>\<open>isspace\<close> in the C locale.\<close>

definition is_space :: "char \<Rightarrow> bool" where
  "is_space c \<longleftrightarrow> c \<in> {SPACE, TAB, LF, CHR 0x0B, CHR 0x0C, CR}"

section \<open>std::to_string and std::stoi\<close>

fun nat_to_string :: "nat \<Rightarrow> string" where
  "nat_to_string n =
     (if n < 10 then [digit_char n] else nat_to_string (n div 10) @ [digit_char (n mod 10)])"

declare nat_to_string.simps [simp del]

definition to_string :: "32 word \<Rightarrow> string" where
  "to_string w = nat_to_string (unat w)"

text \<open>
  \<open>std::stoi(s)\<close>: leading white space, an optional sign, then the longest run of digits; what
  follows the digits is ignored. No digit at all is \<open>std::invalid_argument\<close>, a value outside
  \<open>int\<close> is \<open>std::out_of_range\<close>.
\<close>

definition stoi :: "string \<Rightarrow> int outcome" where
  "stoi s =
     (let s1 = dropWhile is_space s;
          neg = (s1 \<noteq> [] \<and> hd s1 = CHR ''-'');
          s2 = (if s1 \<noteq> [] \<and> (hd s1 = CHR ''-'' \<or> hd s1 = CHR ''+'') then tl s1 else s1);
          ds = takeWhile is_digit_char s2;
          v = (if neg then - int (decimal_value ds) else int (decimal_value ds))
      in if ds = [] then Inl Invalid_argument
         else if - (2 ^ 31) \<le> v \<and> v < 2 ^ 31 then Inr v
         else Inl Out_of_range)"

section \<open>Round trip\<close>

lemma less_10_cases: "n < (10::nat) \<Longrightarrow> n \<in> {0, 1, 2, 3, 4, 5, 6, 7, 8, 9}"
  by (simp add: less_Suc_eq numeral_eq_Suc)

lemma digit_val_digit_char [simp]: "n < 10 \<Longrightarrow> digit_val (digit_char n) = n"
  by (drule less_10_cases) (auto simp: digit_val_def digit_char_def)

lemma is_digit_digit_char [simp]: "n < 10 \<Longrightarrow> is_digit_char (digit_char n)"
  by (drule less_10_cases) (auto simp: is_digit_char_def digit_char_def schar_def)

lemma decimal_value_snoc: "decimal_value (s @ [c]) = decimal_value s * 10 + digit_val c"
  by (simp add: decimal_value_def)

lemma nat_to_string_digits: "set (nat_to_string n) \<subseteq> Collect is_digit_char"
proof (induction n rule: nat_to_string.induct)
  case (1 n)
  then show ?case by (subst nat_to_string.simps) auto
qed

lemma nat_to_string_nonempty [simp]: "nat_to_string n \<noteq> []"
  by (subst nat_to_string.simps) simp

lemma decimal_value_nat_to_string [simp]: "decimal_value (nat_to_string n) = n"
proof (induction n rule: nat_to_string.induct)
  case (1 n)
  show ?case
  proof (cases "n < 10")
    case True
    then show ?thesis by (subst nat_to_string.simps) (simp add: decimal_value_def)
  next
    case False
    then have "decimal_value (nat_to_string n) = (n div 10) * 10 + n mod 10"
      using 1 by (subst nat_to_string.simps) (simp add: decimal_value_snoc)
    then show ?thesis by simp
  qed
qed

lemma nat_to_string_inj [simp]: "nat_to_string m = nat_to_string n \<longleftrightarrow> m = n"
  by (metis decimal_value_nat_to_string)

lemma to_string_inj [simp]: "to_string v = to_string w \<longleftrightarrow> v = w"
  by (simp add: to_string_def) (metis word_unat_eq_iff)

lemma digit_not_space: "is_digit_char c \<Longrightarrow> \<not> is_space c"
  by (auto simp: is_digit_char_def is_space_def schar_def)

lemma digit_not_sign: "is_digit_char c \<Longrightarrow> c \<noteq> CHR ''-'' \<and> c \<noteq> CHR ''+''"
  by (auto simp: is_digit_char_def schar_def)

lemma stoi_digits:
  assumes "set ds \<subseteq> Collect is_digit_char" "ds \<noteq> []" "r = [] \<or> \<not> is_digit_char (hd r)"
  shows "stoi (ds @ r) =
    (if decimal_value ds < 2 ^ 31 then Inr (int (decimal_value ds)) else Inl Out_of_range)"
proof -
  obtain d ds' where ds: "ds = d # ds'" using assms(2) by (cases ds) auto
  with assms(1) have d: "is_digit_char d" by simp
  have "takeWhile is_digit_char (ds @ r) = ds"
    using assms(1,3) by (subst takeWhile_append2) (auto simp: takeWhile_eq_Nil_iff)
  then have "takeWhile is_digit_char (d # ds' @ r) = d # ds'" by (simp add: ds)
  moreover have "int (decimal_value ds) < 2 ^ 31 \<longleftrightarrow> decimal_value ds < 2 ^ 31"
    by (metis of_nat_less_numeral_power_cancel_iff)
  ultimately show ?thesis
    using d digit_not_space [OF d] digit_not_sign [OF d] by (simp add: stoi_def ds Let_def)
qed

lemma stoi_nat_to_string: "n < 2 ^ 31 \<Longrightarrow> stoi (nat_to_string n) = Inr (int n)"
  using stoi_digits [of "nat_to_string n" "[]"] nat_to_string_digits by simp

lemma stoi_range: "stoi s = Inr v \<Longrightarrow> - (2 ^ 31) \<le> v \<and> v < 2 ^ 31"
  by (auto simp: stoi_def Let_def split: if_splits)

end
