(* ===== verification/Server_Status.thy ===== *)
theory Server_Status
  imports Response Std_Map Std_Number
begin

text \<open>
  The class \<open>ServerStatus\<close> of \<open>src/server_status.cc\<close>: a counter for each URI prefix
  and response code, the total, and the page that shows them. An \<open>unsigned\<close> is a 32-bit word.

  The specification is a log, the list of the calls of \<open>UpdateStatus\<close>: the counters are the
  numbers of occurrences in it, modulo \<open>2 ^ 32\<close>.
\<close>

section \<open>State\<close>

type_synonym counters = "(int, 32 word) std_map"

record ServerStatus =
  server_status :: "(string, counters) std_map"
  handler_name_to_prefixes :: "(string, string list) std_map"
  num_requests :: "32 word"

definition new_ServerStatus :: ServerStatus where
  "new_ServerStatus = \<lparr>server_status = [], handler_name_to_prefixes = [], num_requests = 0\<rparr>"

section \<open>Operations\<close>

fun ResponseCodeToString :: "ResponseCode \<Rightarrow> 32 word" where
  "ResponseCodeToString OK_200 = 200"
| "ResponseCodeToString NOT_FOUND = 404"
| "ResponseCodeToString INTERNAL_SERVER_ERROR = 500"
| "ResponseCodeToString REDIRECT = 500"

text \<open>\<open>server_status_[p]\<close> makes an empty map for a new prefix. The key is converted to \<open>int\<close>.\<close>

definition counters_of :: "string \<Rightarrow> ServerStatus \<Rightarrow> counters" where
  "counters_of p s = (case map_find (server_status s) p of None \<Rightarrow> [] | Some m \<Rightarrow> m)"

definition UpdateStatus :: "string \<Rightarrow> ResponseCode \<Rightarrow> ServerStatus \<Rightarrow> ServerStatus" where
  "UpdateStatus uri_prefix code s =
     (let ustatus = sint (ResponseCodeToString code);
          m = counters_of uri_prefix s;
          n = (if map_find (server_status s) uri_prefix = None \<or> map_find m ustatus = None then 1
               else the (map_find m ustatus) + 1)
      in s\<lparr>server_status := map_put uri_prefix (map_put ustatus n m) (server_status s),
           num_requests := num_requests s + 1\<rparr>)"

definition AddHandlerInfo :: "(string, string list) std_map \<Rightarrow> ServerStatus \<Rightarrow> ServerStatus" where
  "AddHandlerInfo info s = s\<lparr>handler_name_to_prefixes := info\<rparr>"

text \<open>\<open>std::to_string(int)\<close>.\<close>

definition int_to_string :: "int \<Rightarrow> string" where
  "int_to_string i =
     (if i < 0 then ''-'' @ nat_to_string (nat (- i)) else nat_to_string (nat i))"

definition handler_html :: "string \<times> string list \<Rightarrow> string" where
  "handler_html e =
     ''<h5>URI prefixes for '' @ fst e @ ''</h5>'' @
     ''<ul style=\"list-style-type:none\">'' @
     concat (map (\<lambda>p. ''<li>'' @ p @ ''</li>'') (snd e)) @
     ''</ul></br>''"

definition counters_html :: "string \<times> counters \<Rightarrow> string" where
  "counters_html e =
     ''<h5>Number of requests for \"'' @ fst e @ ''\"</h5>'' @
     ''<ul style=\"list-style-type:none\">'' @
     concat (map (\<lambda>(c, n). ''<li>'' @ int_to_string c @ '': '' @ to_string n @ ''</li>'') (snd e)) @
     ''</ul>''"

definition ToHtml :: "ServerStatus \<Rightarrow> string" where
  "ToHtml s =
     ''<!doctype html><html><body>'' @
     ''<h1>Server Status</h1>'' @
     ''<h3>Handler Info</h3>'' @
     concat (map handler_html (handler_name_to_prefixes s)) @
     ''</br>'' @
     ''<h2>Total Requests: '' @ to_string (num_requests s) @ ''</h2>'' @
     concat (map counters_html (server_status s)) @
     ''</body></html>''"

definition ServerStatus_ToString :: "ServerStatus \<Rightarrow> string" where
  "ServerStatus_ToString s =
     ''Total Requests: '' @ to_string (num_requests s) @ [LF] @
     concat (map (\<lambda>(p, m). ''Prefix: '' @ p @ [LF] @
       concat (map (\<lambda>(c, n). [TAB] @ int_to_string c @ '' '' @ to_string n @ [LF]) m))
       (server_status s))"

section \<open>The invariant\<close>

definition status_inv :: "ServerStatus \<Rightarrow> bool" where
  "status_inv s \<longleftrightarrow> map_ok (server_status s) \<and>
     (\<forall>(p, m) \<in> set (server_status s). map_ok m) \<and>
     (\<Sum>(p, m)\<leftarrow>server_status s. \<Sum>(c, n)\<leftarrow>m. n) = num_requests s"

definition lookup :: "string \<Rightarrow> int \<Rightarrow> ServerStatus \<Rightarrow> 32 word option" where
  "lookup p c s = map_find (counters_of p s) c"

lemma status_inv_new [simp]: "status_inv new_ServerStatus"
  by (simp add: status_inv_def new_ServerStatus_def map_ok_def)

lemma status_inv_AddHandlerInfo [simp]: "status_inv (AddHandlerInfo i s) = status_inv s"
  by (simp add: status_inv_def AddHandlerInfo_def)

lemma counters_of_ok:
  assumes "status_inv s"
  shows "map_ok (counters_of p s)"
proof (cases "map_find (server_status s) p")
  case None
  then show ?thesis by (simp add: counters_of_def map_ok_def)
next
  case (Some m)
  then have "(p, m) \<in> set (server_status s)" by (rule map_of_SomeD)
  with assms Some show ?thesis by (auto simp: status_inv_def counters_of_def)
qed

text \<open>The new counter, in one formula: an absent entry counts as zero.\<close>

definition bumped :: "counters \<Rightarrow> int \<Rightarrow> counters" where
  "bumped m c = map_put c ((case map_find m c of None \<Rightarrow> 0 | Some n \<Rightarrow> n) + 1) m"

lemma UpdateStatus_eq:
  "UpdateStatus p code s =
     s\<lparr>server_status :=
         map_put p (bumped (counters_of p s) (sint (ResponseCodeToString code))) (server_status s),
       num_requests := num_requests s + 1\<rparr>"
  by (auto simp: UpdateStatus_def Let_def bumped_def counters_of_def split: option.splits)

lemma sum_bumped: "map_ok m \<Longrightarrow> (\<Sum>(c, n)\<leftarrow>bumped m k. n) = (\<Sum>(c, n)\<leftarrow>m. n) + 1"
  using sm.sum_entries_put [of m "\<lambda>c n. n" k "(case map_find m k of None \<Rightarrow> 0 | Some n \<Rightarrow> n) + 1"]
  by (auto simp: bumped_def algebra_simps split: option.splits)

lemma map_ok_bumped: "map_ok m \<Longrightarrow> map_ok (bumped m k)"
  by (simp add: bumped_def map_ok_put)

lemma set_map_put: "e \<in> set (map_put k v m) \<Longrightarrow> e = (k, v) \<or> e \<in> set m"
  by (induction k v m rule: map_put.induct) (auto split: if_splits)

lemma status_inv_UpdateStatus:
  assumes "status_inv s"
  shows "status_inv (UpdateStatus p code s)"
proof -
  let ?m = "counters_of p s" and ?k = "sint (ResponseCodeToString code)"
  have m: "map_ok ?m" by (rule counters_of_ok [OF assms])
  have ok: "map_ok (server_status s)" and inner: "\<forall>(p, m) \<in> set (server_status s). map_ok m"
    and sum: "(\<Sum>(p, m)\<leftarrow>server_status s. \<Sum>(c, n)\<leftarrow>m. n) = num_requests s"
    using assms by (auto simp: status_inv_def)
  have old: "(case map_find (server_status s) p of None \<Rightarrow> 0 | Some u \<Rightarrow> (\<Sum>(c, n)\<leftarrow>u. n)) =
      (\<Sum>(c, n)\<leftarrow>?m. n)"
    by (simp add: counters_of_def split: option.split)
  have "(\<Sum>(p, m)\<leftarrow>map_put p (bumped ?m ?k) (server_status s). \<Sum>(c, n)\<leftarrow>m. n) +
      (\<Sum>(c, n)\<leftarrow>?m. n) = num_requests s + ((\<Sum>(c, n)\<leftarrow>?m. n) + 1)"
    using sm.sum_entries_put [OF ok, of "\<lambda>p m. \<Sum>(c, n)\<leftarrow>m. n" p "bumped ?m ?k"]
    unfolding old sum sum_bumped [OF m] .
  then have "(\<Sum>(p, m)\<leftarrow>map_put p (bumped ?m ?k) (server_status s). \<Sum>(c, n)\<leftarrow>m. n) = num_requests s + 1"
    by (simp add: algebra_simps)
  moreover have "\<forall>(q, m') \<in> set (map_put p (bumped ?m ?k) (server_status s)). map_ok m'"
    using inner map_ok_bumped [OF m] by (auto dest!: set_map_put)
  ultimately show ?thesis
    using map_ok_put [OF ok] by (simp add: status_inv_def UpdateStatus_eq)
qed

section \<open>The log\<close>

type_synonym log = "(string \<times> ResponseCode) list"

text \<open>The state after the calls of a log.\<close>

definition run_log :: "log \<Rightarrow> ServerStatus \<Rightarrow> ServerStatus" where
  "run_log l s = foldl (\<lambda>s (p, c). UpdateStatus p c s) s l"

text \<open>How often a prefix occurs with a code that the page shows as \<open>k\<close>; the numbers are written out here.\<close>

fun shown_number :: "ResponseCode \<Rightarrow> int" where
  "shown_number OK_200 = 200"
| "shown_number NOT_FOUND = 404"
| "shown_number INTERNAL_SERVER_ERROR = 500"
| "shown_number REDIRECT = 500"

definition count_log :: "string \<Rightarrow> int \<Rightarrow> log \<Rightarrow> nat" where
  "count_log p k l = length (filter (\<lambda>(q, c). q = p \<and> shown_number c = k) l)"

lemma key_is_shown: "sint (ResponseCodeToString c) = shown_number c"
  by (cases c) simp_all

lemma run_log_simps [simp]:
  "run_log [] s = s"
  "run_log (l @ [(p, c)]) s = UpdateStatus p c (run_log l s)"
  by (simp_all add: run_log_def)

lemma status_inv_run_log: "status_inv s \<Longrightarrow> status_inv (run_log l s)"
  by (induction l rule: rev_induct) (auto simp: status_inv_UpdateStatus)

lemma counters_of_UpdateStatus:
  "counters_of q (UpdateStatus p c s) =
     (if q = p then bumped (counters_of p s) (sint (ResponseCodeToString c)) else counters_of q s)"
  by (simp add: counters_of_def UpdateStatus_eq map_find_put)

lemma lookup_UpdateStatus:
  "lookup q k (UpdateStatus p c s) =
     (if q = p \<and> k = sint (ResponseCodeToString c)
      then Some ((case lookup q k s of None \<Rightarrow> 0 | Some n \<Rightarrow> n) + 1) else lookup q k s)"
  by (auto simp: lookup_def counters_of_UpdateStatus bumped_def map_find_put)

lemma lookup_new [simp]: "lookup q k new_ServerStatus = None"
  by (simp add: lookup_def counters_of_def new_ServerStatus_def)

lemma count_log_simps [simp]:
  "count_log p k [] = 0"
  "count_log p k (l @ [(q, c)]) =
     count_log p k l + (if q = p \<and> sint (ResponseCodeToString c) = k then 1 else 0)"
  by (simp_all add: count_log_def key_is_shown)

lemma lookup_run_log:
  "lookup p k (run_log l new_ServerStatus) =
     (if count_log p k l = 0 then None else Some (of_nat (count_log p k l)))"
proof (induction l rule: rev_induct)
  case (snoc e l)
  obtain q c where e: "e = (q, c)" by (cases e)
  from snoc show ?case by (auto simp: e lookup_UpdateStatus algebra_simps)
qed simp

lemma num_requests_run_log: "num_requests (run_log l s) = num_requests s + of_nat (length l)"
proof (induction l rule: rev_induct)
  case (snoc e l)
  then show ?case by (cases e) (simp add: UpdateStatus_eq)
qed simp

text \<open>
  Maps with the same lookups are the same list, so a state is determined by the counters and the
  total: the pages depend on the log only through how often each entry occurs in it.
\<close>

lemma map_ok_ext:
  assumes "map_ok m" "map_ok m'" "\<And>k. map_find m k = map_find m' k"
  shows "m = m'"
  by (rule sm.entries_ext [OF assms])

lemma map_find_run_log:
  "map_find (server_status (run_log l s)) p \<noteq> None \<longleftrightarrow>
     map_find (server_status s) p \<noteq> None \<or> p \<in> fst ` set l"
proof (induction l rule: rev_induct)
  case (snoc e l)
  then show ?case by (cases e) (auto simp: UpdateStatus_eq map_find_put)
qed simp

lemma handlers_run_log: "handler_name_to_prefixes (run_log l s) = handler_name_to_prefixes s"
proof (induction l rule: rev_induct)
  case (snoc e l)
  then show ?case by (cases e) (simp add: UpdateStatus_eq)
qed simp

lemma run_log_ext:
  assumes "length l = length l'" "fst ` set l = fst ` set l'" "\<And>p k. count_log p k l = count_log p k l'"
  shows "run_log l new_ServerStatus = run_log l' new_ServerStatus"
proof -
  let ?s = "run_log l new_ServerStatus" and ?t = "run_log l' new_ServerStatus"
  have inv: "status_inv ?s" "status_inv ?t" by (simp_all add: status_inv_run_log)
  have cs: "counters_of p ?s = counters_of p ?t" for p
  proof (rule map_ok_ext)
    show "map_ok (counters_of p ?s)" "map_ok (counters_of p ?t)"
      using inv counters_of_ok by blast+
    show "map_find (counters_of p ?s) k = map_find (counters_of p ?t) k" for k
      using assms(3) lookup_run_log [of p k l] lookup_run_log [of p k l'] by (simp add: lookup_def)
  qed
  have "server_status ?s = server_status ?t"
  proof (rule map_ok_ext)
    show "map_ok (server_status ?s)" "map_ok (server_status ?t)"
      using inv by (auto simp: status_inv_def)
    show "map_find (server_status ?s) p = map_find (server_status ?t) p" for p
      using cs [of p] map_find_run_log [of l new_ServerStatus p] map_find_run_log [of l' new_ServerStatus p]
      by (auto simp: assms(2) counters_of_def split: option.splits)
  qed
  moreover have "num_requests ?s = num_requests ?t"
    by (simp add: num_requests_run_log assms(1))
  moreover have "handler_name_to_prefixes ?s = handler_name_to_prefixes ?t"
    by (simp add: handlers_run_log)
  ultimately show ?thesis by simp
qed

end
