(* ===== verification/Regex.thy ===== *)
theory Regex
  imports Prelude
begin

text \<open>
  Boost.Regex as an argument: \<open>rx_match\<close> (\<open>boost::regex_match\<close>) and \<open>rx_search\<close>
  (\<open>boost::regex_search\<close>) get the source of the expression and the subject, and give the
  captures, the whole match first; a search also says where the match starts. The errors of the
  library (an expression that is too costly) are left out.
\<close>

record regex =
  rx_match :: "string \<Rightarrow> string \<Rightarrow> string option list option"
  rx_search :: "string \<Rightarrow> string \<Rightarrow> (nat \<times> string option list) option"

text \<open>The source of an expression: there is no literal for a backslash, so a tilde stands for it.\<close>

definition backslashed :: "string \<Rightarrow> string" where
  "backslashed s = map (\<lambda>c. if c = CHR ''~'' then BACKSLASH else c) s"

text \<open>A captured group, and its text, which is empty when the group is not matched.\<close>

definition capture :: "string option list \<Rightarrow> nat \<Rightarrow> string option" where
  "capture m i = (if i < length m then m ! i else None)"

definition cap :: "string option list \<Rightarrow> nat \<Rightarrow> string" where
  "cap m i = (case capture m i of None \<Rightarrow> [] | Some s \<Rightarrow> s)"

end
