(* ===== verification/Handler.thy ===== *)
theory Handler
  imports Request Response Server_Status Nginx_Config Regex
begin

text \<open>
  The base class \<open>RequestHandler\<close> of \<open>include/request_handler.h\<close> and
  \<open>src/request_handler.cc\<close>, what the handlers see of the machine they run on, and the
  contract between a handler and the connection that calls it.
\<close>

section \<open>The machine\<close>

text \<open>
  What the handlers get from outside the program is an argument of the model. \<open>fs_\<close> fields are
  the calls of Boost.Filesystem: the first three may throw, \<open>fs_open\<close> opens a file and reads
  it, \<open>None\<close> for a stream that is not good, and \<open>fs_filename\<close> and
  \<open>fs_extension\<close> are those of a path. \<open>regex_engine\<close> is Boost.Regex, which the bundled Markdown library is
  built on;
  \<open>popen_output\<close> is what a shell command prints, \<open>None\<close> when it cannot be started.
\<close>

record machine =
  fs_exists :: "string \<Rightarrow> bool outcome"
  fs_is_regular_file :: "string \<Rightarrow> bool outcome"
  fs_canonical :: "string \<Rightarrow> string outcome"
  fs_filename :: "string \<Rightarrow> string"
  fs_extension :: "string \<Rightarrow> string"
  fs_open :: "string \<Rightarrow> string option"
  regex_engine :: regex
  popen_output :: "string \<Rightarrow> string option"

text \<open>
  A connection of the proxy: resolving the host and the service, connecting and sending the request
  can throw; after that each read of the socket takes one event, some bytes or an error, and when
  there is no event left the peer has closed. The first argument counts the connections made while
  one request is handled.
\<close>

datatype socket_event = Bytes string | Eof | Socket_error

type_synonym network = "nat \<Rightarrow> string \<Rightarrow> string \<Rightarrow> string \<Rightarrow> socket_event list outcome"

text \<open>The \<open>ServerStatus\<close> objects, by address.\<close>

type_synonym heap = "nat \<Rightarrow> ServerStatus option"

record environment = machine +
  network_of :: network
  heap_of :: heap

section \<open>The base class\<close>

datatype Status = OK | ERROR

type_synonym ConfigMap = "(string, string) std_map"

record RequestHandler =
  config_map :: ConfigMap

definition new_RequestHandler :: RequestHandler where
  "new_RequestHandler = \<lparr>config_map = []\<rparr>"

text \<open>\<open>config_map_[key]\<close>: an absent key has the empty string.\<close>

definition config_value :: "ConfigMap \<Rightarrow> string \<Rightarrow> string" where
  "config_value m key = (case map_find m key of None \<Rightarrow> [] | Some v \<Rightarrow> v)"

fun ParseConfig_statements :: "NginxConfigStatement list \<Rightarrow> ConfigMap \<Rightarrow> ConfigMap outcome" where
  "ParseConfig_statements [] m = Inr m"
| "ParseConfig_statements (s # ss) m =
     outcome_bind (vec_at (tokens s) 0) (\<lambda>key.
       outcome_bind (vec_at (tokens s) 1) (\<lambda>v.
         ParseConfig_statements ss (map_put key v m)))"

definition ParseConfig :: "NginxConfig \<Rightarrow> ConfigMap \<Rightarrow> ConfigMap outcome" where
  "ParseConfig config m = ParseConfig_statements (statements config) m"

text \<open>It is defined exactly when every statement has two tokens, and the last one of a key wins.\<close>

lemma ParseConfig_statements_iff:
  "(\<exists>m'. ParseConfig_statements ss m = Inr m') \<longleftrightarrow> list_all (\<lambda>s. 2 \<le> length (tokens s)) ss"
proof (induction ss arbitrary: m)
  case (Cons s ss)
  then show ?case by (cases "tokens s"; cases "tl (tokens s)") auto
qed simp

lemma ParseConfig_statements_fault:
  "ParseConfig_statements ss m = Inl e \<Longrightarrow> e = Undefined_behaviour"
  by (induction ss arbitrary: m) auto

lemma ParseConfig_statements_append:
  "ParseConfig_statements (ss @ ts) m =
     outcome_bind (ParseConfig_statements ss m) (ParseConfig_statements ts)"
proof (induction ss arbitrary: m)
  case (Cons s ss)
  then show ?case by (cases "vec_at (tokens s) 0"; cases "vec_at (tokens s) 1") auto
qed simp

lemma ParseConfig_statements_find:
  "ParseConfig_statements ss m = Inr m' \<Longrightarrow>
   map_find m' k =
     (case find (\<lambda>s. tokens s ! 0 = k) (rev ss) of
        None \<Rightarrow> map_find m k | Some s \<Rightarrow> Some (tokens s ! 1))"
proof (induction ss arbitrary: m' rule: rev_induct)
  case (snoc s ss)
  then obtain m1 where "ParseConfig_statements ss m = Inr m1"
      "m' = map_put (tokens s ! 0) (tokens s ! 1) m1"
    by (auto simp: ParseConfig_statements_append)
  with snoc show ?case by (simp add: map_find_put)
qed simp

section \<open>Shared by the handlers\<close>

text \<open>
  The test of the handlers that strip their prefix, \<open>uri != p && uri.size() > p.size() &&
  uri.substr(0, p.size()) == p\<close>.
\<close>

definition under_prefix :: "string \<Rightarrow> string \<Rightarrow> bool" where
  "under_prefix p u \<longleftrightarrow> u \<noteq> p \<and> length u > length p \<and> take (length p) u = p"

lemma under_prefix_iff [cxx_simps]: "under_prefix p u \<longleftrightarrow> (\<exists>t. t \<noteq> [] \<and> u = p @ t)"
proof
  assume u: "under_prefix p u"
  then have "u = p @ drop (length p) u" by (metis append_take_drop_id under_prefix_def)
  moreover have "drop (length p) u \<noteq> []" using u by (simp add: under_prefix_def)
  ultimately show "\<exists>t. t \<noteq> [] \<and> u = p @ t" by blast
qed (auto simp: under_prefix_def)

text \<open>What a C function sees of a \<open>std::string\<close>: it ends at the first NUL.\<close>

definition c_str :: "string \<Rightarrow> string" where
  "c_str s = takeWhile (\<lambda>c. c \<noteq> CHR 0x00) s"

definition CONTENT_TYPE :: string where
  "CONTENT_TYPE = ''Content-Type''"

text \<open>
  A handler is called with a pointer to the response, \<open>None\<close> for the null pointer; it returns
  its status, what is behind the pointer, and itself (the proxy changes its own fields). It may not
  return: \<open>None\<close>.
\<close>

type_synonym 'h handling = "(Status \<times> Response option \<times> 'h) outcome option"

text \<open>\<open>p->f()\<close>, undefined on the null pointer.\<close>

definition on_response :: "Response option \<Rightarrow> (Response \<Rightarrow> 'a outcome) \<Rightarrow> 'a outcome" where
  "on_response p f = (case p of None \<Rightarrow> Inl Undefined_behaviour | Some r \<Rightarrow> f r)"

lemma on_response_simps [simp]:
  "on_response None f = Inl Undefined_behaviour"
  "on_response (Some r) f = f r"
  by (simp_all add: on_response_def)

section \<open>The contract of a handler\<close>

text \<open>
  What a connection relies on: a handler that returns \<open>OK\<close> has set the status of the response
  it was given, the status line and the code agree if they did before, and the header fields it was
  given are still there, in front. Of a handler that returns \<open>ERROR\<close> only the last two are
  promised.
\<close>

definition response_grows :: "Response \<Rightarrow> Response \<Rightarrow> bool" where
  "response_grows r r' \<longleftrightarrow> (status_ok r \<longrightarrow> status_ok r') \<and> (\<exists>hs. headers r' = headers r @ hs)"

lemma response_grows_refl [simp]: "response_grows r r"
  by (simp add: response_grows_def)

lemma response_grows_trans:
  "response_grows r s \<Longrightarrow> response_grows s t \<Longrightarrow> response_grows r t"
  by (auto simp: response_grows_def)

lemma response_grows_ops [simp]:
  "response_grows r (SetStatus c r)" "response_grows r (AddHeader n v r)"
  "response_grows r (SetBody b r)"
  by (simp_all add: response_grows_def)

lemma response_grows_into [simp, intro]:
  "response_grows r s \<Longrightarrow> response_grows r (SetStatus c s)"
  "response_grows r s \<Longrightarrow> response_grows r (AddHeader n v s)"
  "response_grows r s \<Longrightarrow> response_grows r (SetBody b s)"
  using response_grows_trans response_grows_ops by blast+

locale request_handler =
  fixes handle :: "environment \<Rightarrow> 'h \<Rightarrow> Request \<Rightarrow> Response option \<Rightarrow> 'h handling"
  assumes keeps_pointer:
      "handle e h q (Some r) = Some (Inr (s, p, h')) \<Longrightarrow> \<exists>r'. p = Some r' \<and> response_grows r r'"
    and sets_status:
      "handle e h q (Some r) = Some (Inr (OK, Some r', h')) \<Longrightarrow> raw_status r' \<noteq> None"
begin

text \<open>What the connection gets from a call with a fresh response.\<close>

lemma fresh_ok:
  assumes "handle e h q (Some new_Response) = Some (Inr (OK, p, h'))"
  shows "\<exists>r' c. p = Some r' \<and> GetResponseCode r' = Inr c \<and> status r' = status_line c"
proof -
  obtain r' where r': "p = Some r'" "response_grows new_Response r'"
    using keeps_pointer [OF assms] by blast
  have "raw_status r' \<noteq> None" using sets_status assms r'(1) by blast
  then obtain c where "raw_status r' = Some c" by blast
  with r' show ?thesis by (auto simp: GetResponseCode_def response_grows_def status_ok_def)
qed

text \<open>The code of a fresh response can be read exactly when the handler has set it.\<close>

lemma fresh_fault:
  assumes "handle e h q (Some new_Response) = Some (Inr (s, p, h'))"
  shows "\<exists>r'. p = Some r' \<and>
    (GetResponseCode r' = Inl Undefined_behaviour \<longleftrightarrow> status r' = [])"
proof -
  obtain r' where r': "p = Some r'" "response_grows new_Response r'"
    using keeps_pointer [OF assms] by blast
  have "status_line c \<noteq> []" for c by (cases c) simp_all
  with r' show ?thesis
    by (auto simp: GetResponseCode_def response_grows_def status_ok_def split: option.splits)
qed

end

end
