(* ===== verification/Istream.thy ===== *)
theory Istream
  imports Std_Number
begin

text \<open>
  The parts of \<open>std::istream\<close> over a stream buffer that the proxy uses: formatted extraction of
  a word and of an \<open>unsigned\<close>, and \<open>std::getline\<close>, with the two error bits. The stream
  buffer is the string of the characters not yet extracted; it can get more of them later, while the
  bits stay.
\<close>

record istream =
  chars :: string
  failbit :: bool
  eofbit :: bool

definition stream_good :: "istream \<Rightarrow> bool" where
  "stream_good s \<longleftrightarrow> \<not> failbit s \<and> \<not> eofbit s"

definition on_buffer :: "string \<Rightarrow> istream" where
  "on_buffer b = \<lparr>chars = b, failbit = False, eofbit = False\<rparr>"

text \<open>The sentry of a formatted extraction skips white space; reaching the end there is a failure.\<close>

definition sentry :: "istream \<Rightarrow> bool \<times> istream" where
  "sentry s =
     (if \<not> stream_good s then (False, s\<lparr>failbit := True\<rparr>)
      else let cs = dropWhile is_space (chars s) in
        if cs = [] then (False, s\<lparr>chars := [], failbit := True, eofbit := True\<rparr>)
        else (True, s\<lparr>chars := cs\<rparr>))"

definition extract_string :: "istream \<Rightarrow> string \<times> istream" where
  "extract_string s =
     (case sentry s of (ok, s1) \<Rightarrow>
        if \<not> ok then ([], s1)
        else let rest = dropWhile (\<lambda>c. \<not> is_space c) (chars s1) in
          (takeWhile (\<lambda>c. \<not> is_space c) (chars s1),
           s1\<lparr>chars := rest, eofbit := (rest = [])\<rparr>))"

text \<open>
  An \<open>unsigned\<close>: \<open>None\<close> when the sentry fails and the variable keeps its old value. No
  digit stores zero, a value beyond 32 bits the largest one, both with the fail bit; a minus sign
  negates modulo \<open>2 ^ 32\<close>.
\<close>

definition extract_unsigned :: "istream \<Rightarrow> 32 word option \<times> istream" where
  "extract_unsigned s =
     (case sentry s of (ok, s1) \<Rightarrow>
        if \<not> ok then (None, s1)
        else
          let neg = (hd (chars s1) = CHR ''-'');
              cs = (if neg \<or> hd (chars s1) = CHR ''+'' then tl (chars s1) else chars s1);
              ds = takeWhile is_digit_char cs;
              rest = dropWhile is_digit_char cs;
              s2 = s1\<lparr>chars := rest, eofbit := (rest = [])\<rparr>;
              v = decimal_value ds
          in if ds = [] then (Some 0, s2\<lparr>failbit := True\<rparr>)
             else if v \<ge> 2 ^ 32 then (Some (- 1), s2\<lparr>failbit := True\<rparr>)
             else (Some (if neg then - of_nat v else of_nat v), s2))"

text \<open>\<open>std::getline\<close>: the line without its line feed, and the stream.\<close>

definition getline :: "istream \<Rightarrow> string \<times> istream" where
  "getline s =
     (if \<not> stream_good s then ([], s\<lparr>failbit := True\<rparr>)
      else case find_char LF (chars s) of
        Some i \<Rightarrow> (take i (chars s), s\<lparr>chars := drop (Suc i) (chars s)\<rparr>)
      | None \<Rightarrow> (chars s, s\<lparr>chars := [], eofbit := True, failbit := (chars s = [])\<rparr>))"

lemma on_buffer_simps [simp]:
  "chars (on_buffer b) = b" "failbit (on_buffer b) = False" "eofbit (on_buffer b) = False"
  "stream_good (on_buffer b)" "(on_buffer b)\<lparr>chars := b'\<rparr> = on_buffer b'"
  by (simp_all add: on_buffer_def stream_good_def)

text \<open>A line that is read takes at least a character away.\<close>

lemma getline_shorter:
  "getline s = (l, s') \<Longrightarrow> \<not> failbit s' \<Longrightarrow> length (chars s') < length (chars s)"
  by (auto simp: getline_def stream_good_def split: if_splits option.splits dest: find_char_SomeD)

lemma getline_line [simp]:
  "LF \<notin> set l \<Longrightarrow> getline (on_buffer (l @ LF # r)) = (l, on_buffer r)"
  by (simp add: getline_def find_char_append)

lemma sentry_word:
  "c # cs = s \<Longrightarrow> \<not> is_space c \<Longrightarrow> sentry (on_buffer s) = (True, on_buffer s)"
  by (auto simp: sentry_def)

lemma extract_string_word:
  assumes "w \<noteq> []" "list_all (\<lambda>c. \<not> is_space c) w" "is_space d"
  shows "extract_string (on_buffer (w @ d # r)) = (w, on_buffer (d # r))"
proof -
  obtain c cs where w: "w = c # cs" using assms(1) by (cases w) auto
  have t: "takeWhile (\<lambda>c. \<not> is_space c) (w @ d # r) = w"
      "dropWhile (\<lambda>c. \<not> is_space c) (w @ d # r) = d # r"
    using assms(2,3) by (auto simp: takeWhile_append dropWhile_append list_all_iff)
  have "sentry (on_buffer (w @ d # r)) = (True, on_buffer (w @ d # r))"
    by (rule sentry_word [of c "cs @ d # r"]) (use assms(2) w in auto)
  then show ?thesis using assms(3)
    by (simp add: extract_string_def t on_buffer_def)
qed

lemma extract_unsigned_digits:
  assumes "ds \<noteq> []" "list_all is_digit_char ds" "\<not> is_digit_char d" "decimal_value ds < 2 ^ 32"
  shows "extract_unsigned (on_buffer (SPACE # ds @ d # r)) =
    (Some (of_nat (decimal_value ds)), on_buffer (d # r))"
proof -
  obtain c cs where ds: "ds = c # cs" using assms(1) by (cases ds) auto
  have c: "is_digit_char c" using assms(2) ds by simp
  have t: "takeWhile is_digit_char (ds @ d # r) = ds" "dropWhile is_digit_char (ds @ d # r) = d # r"
    using assms(2,3) by (auto simp: takeWhile_append dropWhile_append list_all_iff)
  have "is_space SPACE" by (simp add: is_space_def)
  then have s: "sentry (on_buffer (SPACE # ds @ d # r)) = (True, on_buffer (ds @ d # r))"
    using digit_not_space [OF c] by (simp add: sentry_def ds)
  have "hd (ds @ d # r) \<noteq> CHR ''-'' \<and> hd (ds @ d # r) \<noteq> CHR ''+''"
    using digit_not_sign [OF c] by (simp add: ds)
  then show ?thesis
    using s assms(1,4) by (simp add: extract_unsigned_def t Let_def)
qed

end
