(* ===== verification/Proxy_Handler.thy ===== *)
theory Proxy_Handler
  imports Handler Istream Request_Grammar
begin

text \<open>
  \<open>ProxyHandler\<close> of \<open>src/proxy_handler.cc\<close>: asks another server and relays its answer.
  The network is an argument; \<open>read_until\<close> and \<open>read_all\<close> are what the two read
  functions of Boost.Asio do with the events of a socket. A response code 302 starts the whole
  exchange again with the host of the \<open>Location\<close> field, without a bound, so the call may not
  return.
\<close>

record ProxyHandler = RequestHandler +
  proxy_uri_prefix :: string
  host :: string
  portno :: string

definition new_ProxyHandler :: ProxyHandler where
  "new_ProxyHandler = \<lparr>config_map = [], proxy_uri_prefix = [], host = [], portno = []\<rparr>"

definition ProxyHandler_Init ::
  "string \<Rightarrow> NginxConfig \<Rightarrow> ProxyHandler \<Rightarrow> (Status \<times> ProxyHandler) outcome" where
  "ProxyHandler_Init uri_prefix config h =
     outcome_bind (ParseConfig config (config_map h)) (\<lambda>m.
       Inr (OK, h\<lparr>proxy_uri_prefix := uri_prefix, config_map := m,
                  host := config_value m ''host'', portno := config_value m ''portno''\<rparr>))"

section \<open>The socket\<close>

text \<open>
  \<open>read_until(socket, resp, d)\<close> reads until the buffer holds \<open>d\<close>, and throws when the
  peer closes before. \<open>read(socket, resp, error)\<close> reads until an error: the bytes, and whether
  the error is the end of the stream.
\<close>

fun read_until :: "string \<Rightarrow> string \<Rightarrow> socket_event list \<Rightarrow> (string \<times> socket_event list) outcome" where
  "read_until d buf [] =
     (if find_string d buf \<noteq> None then Inr (buf, []) else Inl System_error)"
| "read_until d buf (ev # evs) =
     (if find_string d buf \<noteq> None then Inr (buf, ev # evs)
      else case ev of Bytes b \<Rightarrow> read_until d (buf @ b) evs | _ \<Rightarrow> Inl System_error)"

fun read_all :: "socket_event list \<Rightarrow> string \<times> bool \<times> socket_event list" where
  "read_all [] = ([], True, [])"
| "read_all (Bytes b # evs) = (case read_all evs of (bs, eof, rest) \<Rightarrow> (b @ bs, eof, rest))"
| "read_all (Eof # evs) = ([], True, evs)"
| "read_all (Socket_error # evs) = ([], False, evs)"

lemma read_all_length: "read_all evs = (b, eof, rest) \<Longrightarrow> length rest \<le> length evs"
  by (induction evs arbitrary: b rule: read_all.induct) (auto split: prod.splits)

lemma read_all_shorter: "read_all evs = (b, eof, rest) \<Longrightarrow> b \<noteq> [] \<Longrightarrow> length rest < length evs"
  by (cases evs rule: read_all.cases) (auto split: prod.splits dest: read_all_length)

section \<open>The steps of an exchange\<close>

definition proxy_uri :: "ProxyHandler \<Rightarrow> Request \<Rightarrow> string" where
  "proxy_uri h request =
     (let u = (if uri request = proxy_uri_prefix h then ''/'' else uri request) in
      if under_prefix (proxy_uri_prefix h) u then drop (length (proxy_uri_prefix h)) u else u)"

definition proxy_request :: "ProxyHandler \<Rightarrow> Request \<Rightarrow> string" where
  "proxy_request h request =
     ''GET '' @ proxy_uri h request @ '' HTTP/1.1'' @ [CR, LF] @
     ''Host: '' @ host h @ [CR, LF] @
     ''Accept: */*'' @ [CR, LF] @
     ''Connection: close'' @ [CR, LF, CR, LF]"

text \<open>
  One header line. \<open>int pos\<close> is \<open>-1\<close> when there is no colon: then the name is the whole
  line and the value starts at position 1.
\<close>

definition split_header :: "string \<Rightarrow> (string \<times> string) outcome" where
  "split_header currheader =
     (case find_char (CHR '':'') currheader of
        None \<Rightarrow> outcome_bind (substr_from currheader (Some 1)) (\<lambda>v. Inr (currheader, v))
      | Some pos \<Rightarrow>
          outcome_bind (substr_from currheader (Some (pos + 2))) (\<lambda>v. Inr (take pos currheader, v)))"

text \<open>
  The host of a \<open>Location\<close>: what follows the first colon and two more characters (from position
  2 when there is no colon, where the addition wraps), without the last two characters
  (\<open>length() - 2\<close> wraps when there are fewer, and the whole text is kept).
\<close>

definition location_host :: "string \<Rightarrow> string outcome" where
  "location_host v =
     outcome_bind (substr_from v (Some (case find_char (CHR '':'') v of None \<Rightarrow> 2 | Some i \<Rightarrow> i + 3)))
       (\<lambda>s. Inr (if length s < 2 then s else take (length s - 2) s))"

function read_headers ::
  "bool \<Rightarrow> istream \<Rightarrow> string \<Rightarrow> Response \<Rightarrow> (istream \<times> string \<times> Response) outcome" where
  "read_headers redirect s hst r =
     (case getline s of (currheader, s') \<Rightarrow>
        if failbit s' \<or> currheader = [CR] then Inr (s', hst, r)
        else outcome_bind (split_header currheader) (\<lambda>(name, v).
          outcome_bind (if redirect \<and> name = ''Location'' then location_host v else Inr hst)
            (\<lambda>hst'. read_headers redirect s' hst' (AddHeader name v r))))"
  by pat_completeness auto
termination
  by (relation "measure (\<lambda>(_, s, _). length (chars s))")
     (auto dest: getline_shorter [OF sym])

declare read_headers.simps [simp del]

text \<open>
  The loop over \<open>boost::asio::read\<close>, which runs as long as bytes arrive. Each round replaces
  the body by all of the buffer. The result says whether the last error was the end of the stream.
\<close>

function read_content :: "string \<Rightarrow> socket_event list \<Rightarrow> Response \<Rightarrow> bool \<times> Response" where
  "read_content buf evs r =
     (case read_all evs of (b, eof, rest) \<Rightarrow>
        if b = [] then (eof, r)
        else if eof then (True, SetBody (buf @ b) r)
        else read_content [] rest (SetBody (buf @ b) r))"
  by pat_completeness auto
termination
  by (relation "measure (\<lambda>(_, evs, _). length evs)")
     (auto dest: read_all_shorter [OF sym])

declare read_content.simps [simp del]

definition relayed_code :: "32 word \<Rightarrow> ResponseCode" where
  "relayed_code status_code = (if status_code = 200 then OK_200 else NOT_FOUND)"

text \<open>
  One turn of \<open>while (true)\<close>: \<open>Some s\<close> when the function returns \<open>s\<close>,
  \<open>None\<close> to go round again. The service is always \<open>"80"\<close>.
\<close>

definition proxy_turn ::
  "environment \<Rightarrow> nat \<Rightarrow> ProxyHandler \<Rightarrow> Request \<Rightarrow> Response option \<Rightarrow>
   (Status option \<times> Response \<times> ProxyHandler) outcome" where
  "proxy_turn e n h request response =
     outcome_bind (network_of e n (host h) ''80'' (proxy_request h request)) (\<lambda>evs.
     outcome_bind (read_until CRLF [] evs) (\<lambda>(resp, evs1).
       case extract_string (on_buffer resp) of (http_version, s1) \<Rightarrow>
       case extract_unsigned s1 of (code, s2) \<Rightarrow>
       case getline s2 of (status_message, s3) \<Rightarrow>
       case code of
         None \<Rightarrow> Inl Undefined_behaviour
       | Some status_code \<Rightarrow>
           on_response response (\<lambda>r0.
             let r1 = SetStatus (relayed_code status_code) r0 in
             if failbit s3 \<or> take 5 http_version \<noteq> ''HTTP/''
             then Inr (Some ERROR, SetStatus INTERNAL_SERVER_ERROR r1, h)
             else
               outcome_bind (read_until (CRLF @ CRLF) (chars s3) evs1) (\<lambda>(resp2, evs2).
               outcome_bind (read_headers (status_code = 302) (s3\<lparr>chars := resp2\<rparr>) (host h) r1)
                 (\<lambda>(s4, hst, r2).
                 case read_content (chars s4) evs2 r2 of (eof, r3) \<Rightarrow>
                   if \<not> eof then Inl System_error
                   else Inr (if status_code \<noteq> 302 then Some OK else None, r3, h\<lparr>host := hst\<rparr>))))))"

partial_function (option) proxy_loop ::
  "environment \<Rightarrow> nat \<Rightarrow> ProxyHandler \<Rightarrow> Request \<Rightarrow> Response option \<Rightarrow> ProxyHandler handling" where
  "proxy_loop e n h request response =
     (case proxy_turn e n h request response of
        Inl ft \<Rightarrow> Some (Inl ft)
      | Inr (res, r, h') \<Rightarrow>
          (case res of
             Some s \<Rightarrow> Some (Inr (s, Some r, h'))
           | None \<Rightarrow> proxy_loop e (Suc n) h' request (Some r)))"

definition ProxyHandler_HandleRequest ::
  "environment \<Rightarrow> ProxyHandler \<Rightarrow> Request \<Rightarrow> Response option \<Rightarrow> ProxyHandler handling" where
  "ProxyHandler_HandleRequest e h request response = proxy_loop e 0 h request response"

section \<open>The contract\<close>

lemma read_headers_grows:
  "read_headers redirect s hst r = Inr (s', hst', r') \<Longrightarrow>
   response_grows r r' \<and> raw_status r' = raw_status r \<and> body r' = body r"
proof (induction redirect s hst r arbitrary: s' hst' r' rule: read_headers.induct)
  case (1 redirect s hst r)
  obtain l s1 where g: "getline s = (l, s1)" by (cases "getline s")
  show ?case
  proof (cases "failbit s1 \<or> l = [CR]")
    case True
    then show ?thesis using "1.prems" g by (subst (asm) read_headers.simps) auto
  next
    case False
    then obtain n v hst1 where
        "split_header l = Inr (n, v)"
        "(if redirect \<and> n = ''Location'' then location_host v else Inr hst) = Inr hst1"
        "read_headers redirect s1 hst1 (AddHeader n v r) = Inr (s', hst', r')"
      using "1.prems" g by (subst (asm) read_headers.simps) (auto split: prod.splits)
    moreover from this(3) have "response_grows (AddHeader n v r) r' \<and>
        raw_status r' = raw_status (AddHeader n v r) \<and> body r' = body (AddHeader n v r)"
      using "1.IH" [OF g [symmetric]] False by blast
    ultimately show ?thesis
      using response_grows_trans [OF response_grows_ops(2)] by auto
  qed
qed

lemma read_content_grows:
  "read_content buf evs r = (eof, r') \<Longrightarrow>
   response_grows r r' \<and> raw_status r' = raw_status r \<and> headers r' = headers r"
proof (induction buf evs r rule: read_content.induct)
  case (1 buf evs r)
  obtain b e rest where b: "read_all evs = (b, e, rest)" by (cases "read_all evs")
  show ?case
  proof (cases "b = [] \<or> e")
    case True
    then show ?thesis using "1.prems" b by (subst (asm) read_content.simps) (auto split: if_splits)
  next
    case False
    then have r': "read_content [] rest (SetBody (buf @ b) r) = (eof, r')"
      using "1.prems" b by (subst (asm) read_content.simps) simp
    show ?thesis
      using "1.IH" [OF b [symmetric]] r' False
        response_grows_trans [OF response_grows_ops(3)] by auto
  qed
qed

lemma proxy_turn_grows:
  assumes "proxy_turn e n h q (Some r) = Inr (res, r', h')"
  shows "response_grows r r' \<and> raw_status r' \<noteq> None"
proof -
  obtain evs resp evs1 where 1: "network_of e n (host h) ''80'' (proxy_request h q) = Inr evs"
      "read_until CRLF [] evs = Inr (resp, evs1)"
    using assms by (auto simp: proxy_turn_def)
  obtain v s1 code s2 m s3 where 2: "extract_string (on_buffer resp) = (v, s1)"
      "extract_unsigned s1 = (code, s2)" "getline s2 = (m, s3)"
    by (metis surj_pair)
  obtain status_code where 3: "code = Some status_code"
    using assms 1 2 by (cases code) (simp_all add: proxy_turn_def)
  let ?r1 = "SetStatus (relayed_code status_code) r"
  show ?thesis
  proof (cases "failbit s3 \<or> take 5 v \<noteq> ''HTTP/''")
    case True
    then have "r' = SetStatus INTERNAL_SERVER_ERROR ?r1"
      using assms 1 2 3 by (auto simp: proxy_turn_def)
    then show ?thesis by (auto intro: response_grows_into)
  next
    case False
    then obtain resp2 evs2 s4 hst r2 where
        4: "read_headers (status_code = 302) (s3\<lparr>chars := resp2\<rparr>) (host h) ?r1 = Inr (s4, hst, r2)"
        and out: "(case read_content (chars s4) evs2 r2 of (eof, r3) \<Rightarrow>
          if \<not> eof then Inl System_error
          else Inr (if status_code \<noteq> 302 then Some OK else None, r3, h\<lparr>host := hst\<rparr>)) = Inr (res, r', h')"
      using assms by (auto simp: proxy_turn_def Let_def 1 2 3)
    obtain eof where 5: "read_content (chars s4) evs2 r2 = (eof, r')"
      using out by (cases "read_content (chars s4) evs2 r2") (auto split: if_splits)
    have "response_grows r r2" "raw_status r2 = Some (relayed_code status_code)"
      using read_headers_grows [OF 4] response_grows_trans [OF response_grows_ops(1)] by auto
    then show ?thesis
      using read_content_grows [OF 5] response_grows_trans by auto
  qed
qed

lemma proxy_loop_grows:
  assumes "proxy_loop e n h q (Some r) = Some (Inr (s, p', h'))"
  shows "\<exists>r'. p' = Some r' \<and> response_grows r r' \<and> raw_status r' \<noteq> None"
proof -
  have "\<forall>r. p = Some r \<longrightarrow> y = Inr (s, p', h') \<longrightarrow>
      (\<exists>r'. p' = Some r' \<and> response_grows r r' \<and> raw_status r' \<noteq> None)"
    if "proxy_loop e n h q p = Some y" for p y
  proof (rule proxy_loop.raw_induct
      [of "\<lambda>e n h q p y. \<forall>r. p = Some r \<longrightarrow> y = Inr (s, p', h') \<longrightarrow>
        (\<exists>r'. p' = Some r' \<and> response_grows r r' \<and> raw_status r' \<noteq> None)", OF _ that])
    fix f e n h q p and y :: "(Status \<times> Response option \<times> ProxyHandler) outcome"
    assume IH: "\<And>e n h q p y. f e n h q p = Some y \<Longrightarrow> \<forall>r. p = Some r \<longrightarrow> y = Inr (s, p', h') \<longrightarrow>
        (\<exists>r'. p' = Some r' \<and> response_grows r r' \<and> raw_status r' \<noteq> None)"
      and step: "(case proxy_turn e n h q p of Inl ft \<Rightarrow> Some (Inl ft)
        | Inr (res, r, h') \<Rightarrow> (case res of Some s \<Rightarrow> Some (Inr (s, Some r, h'))
            | None \<Rightarrow> f e (Suc n) h' q (Some r))) = Some y"
    show "\<forall>r. p = Some r \<longrightarrow> y = Inr (s, p', h') \<longrightarrow>
        (\<exists>r'. p' = Some r' \<and> response_grows r r' \<and> raw_status r' \<noteq> None)"
    proof (intro allI impI)
      fix r
      assume p: "p = Some r" and y: "y = Inr (s, p', h')"
      obtain res r1 h1 where t: "proxy_turn e n h q p = Inr (res, r1, h1)"
        using step y by (cases "proxy_turn e n h q p") auto
      have g: "response_grows r r1 \<and> raw_status r1 \<noteq> None"
        using proxy_turn_grows t p by blast
      show "\<exists>r'. p' = Some r' \<and> response_grows r r' \<and> raw_status r' \<noteq> None"
      proof (cases res)
        case None
        then have "f e (Suc n) h1 q (Some r1) = Some y" using step t by simp
        from IH [OF this] obtain r' where "p' = Some r'" "response_grows r1 r'" "raw_status r' \<noteq> None"
          using y by blast
        then show ?thesis using g response_grows_trans by blast
      next
        case (Some st)
        then show ?thesis using step t g y by auto
      qed
    qed
  qed
  with assms show ?thesis by blast
qed

interpretation proxy: request_handler ProxyHandler_HandleRequest
proof
  fix e h q r s p h'
  assume "ProxyHandler_HandleRequest e h q (Some r) = Some (Inr (s, p, h'))"
  then show "\<exists>r'. p = Some r' \<and> response_grows r r'"
    using proxy_loop_grows [of e 0 h q r s p h']
    by (auto simp: ProxyHandler_HandleRequest_def)
next
  fix e h q r r' h'
  assume "ProxyHandler_HandleRequest e h q (Some r) = Some (Inr (OK, Some r', h'))"
  then show "raw_status r' \<noteq> None"
    using proxy_loop_grows [of e 0 h q r OK "Some r'" h']
    by (auto simp: ProxyHandler_HandleRequest_def)
qed

end
