(* ===== verification/Proxy_Correct.thy ===== *)
theory Proxy_Correct
  imports Proxy_Handler
begin

text \<open>
  What the proxy makes of an answer that another server of this program has printed with
  \<open>Response::ToString\<close>: the code is reduced to 200 or 404, every header value gets the carriage
  return of its line, and the body is kept only when some of it arrives after the header fields. A
  redirect that leads to itself is followed for ever.
\<close>

section \<open>Reading the head of a printed response\<close>

text \<open>A status line as any server of the program prints it, with the bytes after it.\<close>

lemma read_status_line:
  assumes "(a, b) \<in> {(''200'', ''OK''), (''404'', ''Not Found''), (''302'', ''Found''),
      (''500'', ''Internal Server Error'')}"
  shows "extract_string (on_buffer (''HTTP/1.1 '' @ a @ '' '' @ b @ CR # LF # t)) =
      (''HTTP/1.1'', on_buffer (CHR '' '' # a @ '' '' @ b @ CR # LF # t))"
    and "extract_unsigned (on_buffer (CHR '' '' # a @ '' '' @ b @ CR # LF # t)) =
      (Some (of_nat (decimal_value a)), on_buffer ('' '' @ b @ CR # LF # t))"
    and "getline (on_buffer ('' '' @ b @ CR # LF # t)) = ('' '' @ b @ [CR], on_buffer t)"
proof -
  have w: "list_all (\<lambda>c. \<not> is_space c) ''HTTP/1.1''" "is_space SPACE"
    by (simp_all add: is_space_def)
  show "extract_string (on_buffer (''HTTP/1.1 '' @ a @ '' '' @ b @ CR # LF # t)) =
      (''HTTP/1.1'', on_buffer (CHR '' '' # a @ '' '' @ b @ CR # LF # t))"
    using extract_string_word [of "''HTTP/1.1''" SPACE "a @ '' '' @ b @ CR # LF # t"] w by simp
  have d: "a \<noteq> []" "list_all is_digit_char a" "\<not> is_digit_char SPACE" "decimal_value a < 2 ^ 32"
    using assms by (auto simp: is_digit_char_def schar_def decimal_value_def digit_val_def)
  show "extract_unsigned (on_buffer (CHR '' '' # a @ '' '' @ b @ CR # LF # t)) =
      (Some (of_nat (decimal_value a)), on_buffer ('' '' @ b @ CR # LF # t))"
    using extract_unsigned_digits [OF d, of "b @ CR # LF # t"] by simp
  have "LF \<notin> set ('' '' @ b @ [CR])" using assms by auto
  then show "getline (on_buffer ('' '' @ b @ CR # LF # t)) = ('' '' @ b @ [CR], on_buffer t)"
    using getline_line [of "'' '' @ b @ [CR]" t] by simp
qed

definition code_text :: "ResponseCode \<Rightarrow> string" where
  "code_text c = (case c of OK_200 \<Rightarrow> ''200'' | NOT_FOUND \<Rightarrow> ''404'' | REDIRECT \<Rightarrow> ''302''
     | INTERNAL_SERVER_ERROR \<Rightarrow> ''500'')"

definition reason_text :: "ResponseCode \<Rightarrow> string" where
  "reason_text c = (case c of OK_200 \<Rightarrow> ''OK'' | NOT_FOUND \<Rightarrow> ''Not Found'' | REDIRECT \<Rightarrow> ''Found''
     | INTERNAL_SERVER_ERROR \<Rightarrow> ''Internal Server Error'')"

lemma status_line_text: "status_line c = ''HTTP/1.1 '' @ code_text c @ '' '' @ reason_text c"
  by (cases c) (simp_all add: code_text_def reason_text_def)

lemma code_reason: "(code_text c, reason_text c) \<in> {(''200'', ''OK''), (''404'', ''Not Found''),
    (''302'', ''Found''), (''500'', ''Internal Server Error'')}"
  by (cases c) (simp_all add: code_text_def reason_text_def)

lemma decimal_code_text: "decimal_value (code_text c) = code_number c"
  by (cases c) (simp_all add: code_text_def decimal_value_def digit_val_def)

text \<open>A header line comes back with its carriage return.\<close>

definition with_CR :: "string \<times> string \<Rightarrow> string \<times> string" where
  "with_CR h = (fst h, snd h @ [CR])"

lemma with_CR_pair [simp]: "with_CR (n, v) = (n, v @ [CR])"
  by (simp add: with_CR_def)

lemma split_header_print:
  "CHR '':'' \<notin> set n \<Longrightarrow> split_header (n @ '': '' @ v @ [CR]) = Inr (n, v @ [CR])"
  by (simp add: split_header_def find_char_append substr_from_def)

definition add_headers :: "(string \<times> string) list \<Rightarrow> Response \<Rightarrow> Response" where
  "add_headers hs r = r\<lparr>headers := headers r @ hs\<rparr>"

text \<open>The fields are read in order; with a redirect the last \<open>Location\<close> gives the host.\<close>

fun next_host :: "bool \<Rightarrow> string \<Rightarrow> (string \<times> string) list \<Rightarrow> string outcome" where
  "next_host redirect hst [] = Inr hst"
| "next_host redirect hst (h # hs) =
     outcome_bind (if redirect \<and> fst h = ''Location'' then location_host (snd h) else Inr hst)
       (\<lambda>hst'. next_host redirect hst' hs)"

lemma read_headers_print:
  "list_all header_plain hs \<Longrightarrow>
   read_headers redirect (on_buffer (concat (map header_line hs) @ CR # LF # b)) hst r =
     outcome_bind (next_host redirect hst (map with_CR hs))
       (\<lambda>hst'. Inr (on_buffer b, hst', add_headers (map with_CR hs) r))"
proof (induction hs arbitrary: hst r)
  case Nil
  then show ?case
    using getline_line [of "[CR]" b] by (subst read_headers.simps) (simp add: add_headers_def)
next
  case (Cons h hs)
  obtain n v where h: "h = (n, v)" by (cases h)
  have nv: "LF \<notin> set n" "LF \<notin> set v" "CHR '':'' \<notin> set n"
    using Cons.prems by (auto simp: h header_plain_def plain_line_def)
  let ?rest = "concat (map header_line hs) @ CR # LF # b"
  have "LF \<notin> set (n @ '': '' @ v @ [CR])" using nv by simp
  from getline_line [OF this, of ?rest]
  have g: "getline (on_buffer (concat (map header_line (h # hs)) @ CR # LF # b)) =
      (n @ '': '' @ v @ [CR], on_buffer ?rest)"
    by (simp add: h)
  have l: "n @ '': '' @ v @ [CR] \<noteq> [CR]" by (cases n) auto
  have a: "AddHeader n (v @ [CR]) r = r\<lparr>headers := headers r @ [(n, v @ [CR])]\<rparr>"
    by (simp add: AddHeader_def)
  have sp: "split_header (n @ '': '' @ v @ [CR]) = Inr (n, v @ [CR])"
    by (rule split_header_print [OF nv(3)])
  let ?next = "if redirect \<and> n = ''Location'' then location_host (v @ [CR]) else Inr hst"
  show ?case
  proof (cases ?next)
    case (Inl e)
    then have nh: "next_host redirect hst (map with_CR (h # hs)) = Inl e"
      by (simp only: h list.map with_CR_pair next_host.simps fst_conv snd_conv outcome_bind_simps)
    show ?thesis
      unfolding nh using Inl l by (subst read_headers.simps, subst g) (simp add: sp [simplified] h)
  next
    case (Inr hst')
    then have nh: "next_host redirect hst (map with_CR (h # hs)) = next_host redirect hst' (map with_CR hs)"
      by (simp only: h list.map with_CR_pair next_host.simps fst_conv snd_conv outcome_bind_simps)
    have plain: "list_all header_plain hs" using Cons.prems by simp
    have fin: "add_headers (map with_CR hs) (AddHeader n (v @ [CR]) r) = add_headers (map with_CR (h # hs)) r"
      by (simp add: a add_headers_def h)
    show ?thesis
      unfolding nh using Inr l
      by (subst read_headers.simps, subst g) (simp add: sp [simplified] Cons.IH [OF plain] fin)
  qed
qed

text \<open>The end of the fields is in the buffer, so the second \<open>read_until\<close> returns at once.\<close>

lemma read_until_found: "find_string d buf \<noteq> None \<Longrightarrow> read_until d buf evs = Inr (buf, evs)"
  by (cases evs) simp_all

lemma find_string_there: "find_string d (a @ d @ b) \<noteq> None"
  unfolding find_string_None by blast

lemma fields_end:
  assumes "hs \<noteq> []"
  shows "find_string (CRLF @ CRLF) (concat (map header_line hs) @ CR # LF # b) \<noteq> None"
proof -
  obtain gs n v where hs: "hs = gs @ [(n, v)]" using assms by (cases hs rule: rev_cases) auto
  have "concat (map header_line hs) @ CR # LF # b =
      (concat (map header_line gs) @ n @ '': '' @ v) @ (CRLF @ CRLF) @ b"
    by (simp add: hs CRLF_def)
  then show ?thesis using find_string_there by metis
qed

section \<open>One turn\<close>

text \<open>
  The answer of the peer: the first read gets the status line, the header fields, and a first part
  \<open>b\<close> of the body; the reads after it get \<open>cs\<close>, and then the peer closes.
\<close>

definition answer_events ::
  "ResponseCode \<Rightarrow> (string \<times> string) list \<Rightarrow> string \<Rightarrow> string list \<Rightarrow> socket_event list" where
  "answer_events c hs b cs =
     Bytes (status_line c @ CRLF @ concat (map header_line hs) @ CRLF @ b) # map Bytes cs @ [Eof]"

lemma read_all_chunks: "read_all (map Bytes cs @ [Eof]) = (concat cs, True, [])"
  by (induction cs) simp_all

lemma read_content_chunks:
  "read_content b (map Bytes cs @ [Eof]) r =
     (True, if concat cs = [] then r else SetBody (b @ concat cs) r)"
  by (subst read_content.simps, simp only: read_all_chunks prod.case if_True) simp

lemma proxy_turn_answer:
  assumes "network_of e n (host h) ''80'' (proxy_request h q) = Inr (answer_events c hs b cs)"
    and "list_all header_plain hs" "hs \<noteq> []"
  shows "proxy_turn e n h q (Some r) =
    outcome_bind (next_host (c = REDIRECT) (host h) (map with_CR hs)) (\<lambda>hst.
      let r1 = add_headers (map with_CR hs) (SetStatus (if c = OK_200 then OK_200 else NOT_FOUND) r) in
      Inr (if c = REDIRECT then None else Some OK,
           if concat cs = [] then r1 else SetBody (b @ concat cs) r1, h\<lparr>host := hst\<rparr>))"
proof -
  let ?fields = "concat (map header_line hs) @ CR # LF # b"
  let ?head = "''HTTP/1.1 '' @ code_text c @ '' '' @ reason_text c @ CR # LF # ?fields"
  have ev: "answer_events c hs b cs = Bytes ?head # map Bytes cs @ [Eof]"
    by (simp add: answer_events_def status_line_text CRLF_def)
  have "?head = (''HTTP/1.1 '' @ code_text c @ '' '' @ reason_text c) @ CRLF @ ?fields"
    by (simp add: CRLF_def)
  then have "find_string CRLF ?head \<noteq> None" using find_string_there by metis
  then have 1: "read_until CRLF [] (answer_events c hs b cs) = Inr (?head, map Bytes cs @ [Eof])"
    unfolding ev by (simp add: CRLF_def read_until_found)
  have 2: "read_until (CRLF @ CRLF) ?fields (map Bytes cs @ [Eof]) = Inr (?fields, map Bytes cs @ [Eof])"
    by (rule read_until_found [OF fields_end [OF assms(3)]])
  have code: "(of_nat (decimal_value (code_text c)) :: 32 word) = 200 \<longleftrightarrow> c = OK_200"
      "(of_nat (decimal_value (code_text c)) :: 32 word) = 302 \<longleftrightarrow> c = REDIRECT"
    by (cases c; simp add: decimal_code_text)+
  note line = read_status_line [OF code_reason, of c ?fields]
  have "proxy_turn e n h q (Some r) =
    outcome_bind (next_host (c = REDIRECT) (host h) (map with_CR hs)) (\<lambda>hst.
      case read_content b (map Bytes cs @ [Eof])
        (add_headers (map with_CR hs) (SetStatus (relayed_code (of_nat (decimal_value (code_text c)))) r))
      of (eof, r3) \<Rightarrow> if \<not> eof then Inl System_error
        else Inr (if c \<noteq> REDIRECT then Some OK else None, r3, h\<lparr>host := hst\<rparr>))"
    unfolding proxy_turn_def assms(1) outcome_bind_simps 1 prod.case line option.case on_response_simps
      Let_def on_buffer_simps 2 read_headers_print [OF assms(2)] code
    by (simp add: read_headers_print [OF assms(2)] outcome_bind_def split: sum.split)
  then show ?thesis
    by (simp add: read_content_chunks relayed_code_def code Let_def outcome_bind_def split: sum.split)
qed

section \<open>The whole call\<close>

lemma next_host_False [simp]: "next_host False hst hs = Inr hst"
  by (induction hs) simp_all

text \<open>An answer that is not a redirect is relayed in one turn.\<close>

lemma proxy_relays:
  assumes "network_of e 0 (host h) ''80'' (proxy_request h q) = Inr (answer_events c hs b cs)"
    and "list_all header_plain hs" "hs \<noteq> []" "c \<noteq> REDIRECT"
  shows "ProxyHandler_HandleRequest e h q (Some r) =
    (let r1 = add_headers (map with_CR hs) (SetStatus (if c = OK_200 then OK_200 else NOT_FOUND) r) in
     Some (Inr (OK, Some (if concat cs = [] then r1 else SetBody (b @ concat cs) r1), h)))"
  using proxy_turn_answer [OF assms(1-3)] assms(4)
  by (simp add: ProxyHandler_HandleRequest_def proxy_loop.simps Let_def)

text \<open>A host name, between \<open>http://\<close> and the slash the code takes off with the carriage return.\<close>

lemma location_host_slash:
  "location_host (''http://'' @ d @ ''/'' @ [CR]) = Inr d"
proof -
  have "find_char (CHR '':'') (''http://'' @ d @ ''/'' @ [CR]) = Some 4" by simp
  then show ?thesis by (simp add: location_host_def substr_from_def)
qed

text \<open>
  A redirect to another host that answers: its fields come first in the response, and the host stays with
  the handler.
\<close>

lemma proxy_follows:
  assumes "network_of e 0 (host h) ''80'' (proxy_request h q) =
      Inr (answer_events REDIRECT [(''Location'', ''http://'' @ d @ ''/'')] b0 [])"
    and "network_of e 1 d ''80'' (proxy_request (h\<lparr>host := d\<rparr>) q) = Inr (answer_events c hs b cs)"
    and "LF \<notin> set d" "list_all header_plain hs" "hs \<noteq> []" "c \<noteq> REDIRECT"
  shows "ProxyHandler_HandleRequest e h q (Some r) =
    (let r1 = add_headers (map with_CR ((''Location'', ''http://'' @ d @ ''/'') # hs))
         (SetStatus (if c = OK_200 then OK_200 else NOT_FOUND) r) in
     Some (Inr (OK, Some (if concat cs = [] then r1 else SetBody (b @ concat cs) r1), h\<lparr>host := d\<rparr>)))"
proof -
  let ?l = "[(''Location'', ''http://'' @ d @ ''/'')]"
  let ?r = "add_headers (map with_CR ?l) (SetStatus NOT_FOUND r)"
  have 1: "proxy_turn e 0 h q (Some r) = Inr (None, ?r, h\<lparr>host := d\<rparr>)"
    using proxy_turn_answer [OF assms(1), of r] assms(3) location_host_slash [of d]
    by (simp add: header_plain_def plain_line_def)
  have 2: "proxy_turn e 1 (h\<lparr>host := d\<rparr>) q (Some ?r) =
      (let r1 = add_headers (map with_CR hs) (SetStatus (if c = OK_200 then OK_200 else NOT_FOUND) ?r) in
       Inr (Some OK, if concat cs = [] then r1 else SetBody (b @ concat cs) r1, h\<lparr>host := d\<rparr>))"
    using proxy_turn_answer [of e 1 "h\<lparr>host := d\<rparr>" q c hs b cs ?r] assms(2,4-6) by simp
  have 3: "add_headers (map with_CR hs) (SetStatus k ?r) = add_headers (map with_CR (?l @ hs)) (SetStatus k r)" for k
    by (cases r) (simp add: add_headers_def SetStatus_def)
  show ?thesis
    unfolding ProxyHandler_HandleRequest_def
    by (subst proxy_loop.simps, subst proxy_loop.simps) (use 1 2 3 in \<open>simp add: Let_def\<close>)
qed

text \<open>A host that redirects to itself is asked again and again.\<close>

lemma proxy_redirect_forever:
  assumes ask: "\<And>n h. host h = d \<Longrightarrow>
      network_of e n d ''80'' (proxy_request h q) = Inr (answer_events REDIRECT hs (b n) (cs n))"
    and "list_all header_plain hs" "hs \<noteq> []" "next_host True d (map with_CR hs) = Inr d" "host h = d"
  shows "ProxyHandler_HandleRequest e h q (Some r) = None"
proof -
  have turn: "\<exists>r' h'. proxy_turn e n h q (Some r) = Inr (None, r', h') \<and> host h' = d"
    if "host h = d" for n h r
    using proxy_turn_answer [of e n h q REDIRECT hs "b n" "cs n" r] ask [OF that] assms(2-4) that
    by (simp add: Let_def)
  have "\<forall>r. e' = e \<longrightarrow> q' = q \<longrightarrow> host h = d \<longrightarrow> p = Some r \<longrightarrow> False"
    if "proxy_loop e' n h q' p = Some y" for e' n h q' p y
  proof (rule proxy_loop.raw_induct
      [of "\<lambda>e' n h q' p y. \<forall>r. e' = e \<longrightarrow> q' = q \<longrightarrow> host h = d \<longrightarrow> p = Some r \<longrightarrow> False", OF _ that])
    fix f e' n h q' p and y :: "(Status \<times> Response option \<times> ProxyHandler) outcome"
    assume IH: "\<And>e' n h q' p y. f e' n h q' p = Some y \<Longrightarrow>
        \<forall>r. e' = e \<longrightarrow> q' = q \<longrightarrow> host h = d \<longrightarrow> p = Some r \<longrightarrow> False"
      and step: "(case proxy_turn e' n h q' p of Inl ft \<Rightarrow> Some (Inl ft)
        | Inr (res, r, h') \<Rightarrow> (case res of Some s \<Rightarrow> Some (Inr (s, Some r, h'))
            | None \<Rightarrow> f e' (Suc n) h' q' (Some r))) = Some y"
    show "\<forall>r. e' = e \<longrightarrow> q' = q \<longrightarrow> host h = d \<longrightarrow> p = Some r \<longrightarrow> False"
    proof (intro allI impI)
      fix r
      assume eq: "e' = e" "q' = q" "host h = d" "p = Some r"
      obtain r' h' where t: "proxy_turn e n h q (Some r) = Inr (None, r', h')" "host h' = d"
        using turn [OF eq(3)] by blast
      then have "f e (Suc n) h' q (Some r') = Some y" using step eq by simp
      from IH [OF this] t(2) show False by blast
    qed
  qed
  then have "proxy_loop e 0 h q (Some r) \<noteq> Some y" for y using assms(5) by blast
  then show ?thesis
    by (cases "proxy_loop e 0 h q (Some r)") (auto simp: ProxyHandler_HandleRequest_def)
qed

text \<open>
  An answer without header fields: the line feed of the status line is taken before the search for
  the empty line, which is not found, and the second read throws when the peer closes.
\<close>

lemma read_until_eof:
  "find_string d (buf @ concat cs) = None \<Longrightarrow> read_until d buf (map Bytes cs @ [Eof]) = Inl System_error"
proof (induction cs arbitrary: buf)
  case (Cons c cs)
  have "find_string d buf = None"
    using Cons.prems unfolding find_string_None by (metis append.assoc)
  with Cons show ?case by simp
qed (simp add: find_string_None)

lemma proxy_no_fields:
  assumes "network_of e 0 (host h) ''80'' (proxy_request h q) = Inr (answer_events c [] b cs)"
    and "find_string (CRLF @ CRLF) (CRLF @ b @ concat cs) = None"
  shows "ProxyHandler_HandleRequest e h q (Some r) = Some (Inl System_error)"
proof -
  let ?head = "''HTTP/1.1 '' @ code_text c @ '' '' @ reason_text c @ CR # LF # CRLF @ b"
  have ev: "answer_events c [] b cs = Bytes ?head # map Bytes cs @ [Eof]"
    by (simp add: answer_events_def status_line_text CRLF_def)
  have "?head = (''HTTP/1.1 '' @ code_text c @ '' '' @ reason_text c) @ CRLF @ CRLF @ b"
    by (simp add: CRLF_def)
  then have "find_string CRLF ?head \<noteq> None" using find_string_there by metis
  then have 1: "read_until CRLF [] (answer_events c [] b cs) = Inr (?head, map Bytes cs @ [Eof])"
    unfolding ev by (simp add: CRLF_def read_until_found)
  have 2: "read_until (CRLF @ CRLF) (CRLF @ b) (map Bytes cs @ [Eof]) = Inl System_error"
    by (rule read_until_eof) (use assms(2) in simp)
  have "proxy_turn e 0 h q (Some r) = Inl System_error"
    unfolding proxy_turn_def assms(1) outcome_bind_simps 1 prod.case
      read_status_line [OF code_reason, of c "CRLF @ b"] option.case on_response_simps
      Let_def on_buffer_simps 2
    by simp
  then show ?thesis by (simp add: ProxyHandler_HandleRequest_def proxy_loop.simps)
qed

end
