(* ===== verification/Markdown_Text.thy ===== *)
theory Markdown_Text
  imports Std_Map Std_Number Regex
begin

text \<open>
  The bundled Markdown library, \<open>src/markdown\<close>: the functions on text of
  \<open>markdown-tokens.cpp\<close> and \<open>markdown.cpp\<close>, the table of link definitions and the reading
  of a document's lines.
\<close>

section \<open>Encoding for HTML\<close>

text \<open>\<open>EncodingFlags\<close>, the bits of an \<open>int\<close>.\<close>

definition cAmps :: "32 word" where "cAmps = 1"
definition cDoubleAmps :: "32 word" where "cDoubleAmps = 2"
definition cAngles :: "32 word" where "cAngles = 4"
definition cQuotes :: "32 word" where "cQuotes = 8"

definition has_flag :: "32 word \<Rightarrow> 32 word \<Rightarrow> bool" where
  "has_flag flags f \<longleftrightarrow> and flags f \<noteq> 0"

definition cIgnore :: string where
  "cIgnore = ''^(&amp;)|(&#[0-9]{1,3};)|(&#[xX][0-9a-fA-F]{1,2};)''"

fun encodeString :: "regex \<Rightarrow> 32 word \<Rightarrow> string \<Rightarrow> string" where
  "encodeString rx flags [] = []"
| "encodeString rx flags (c # src) =
     (if c = CHR ''&'' \<and> has_flag flags cAmps
      then (if rx_search rx cIgnore (c # src) \<noteq> None then [c] else ''&amp;'')
      else if c = CHR ''&'' \<and> has_flag flags cDoubleAmps then ''&amp;''
      else if c = CHR ''<'' \<and> has_flag flags cAngles then ''&lt;''
      else if c = CHR ''>'' \<and> has_flag flags cAngles then ''&gt;''
      else if c = DQUOTE \<and> has_flag flags cQuotes then ''&quot;''
      else [c]) @ encodeString rx flags src"

text \<open>With \<open>cAngles\<close> no text can open or close a tag, with \<open>cQuotes\<close> none ends an attribute.\<close>

lemma encodeString_angles:
  "has_flag flags cAngles \<Longrightarrow> CHR ''<'' \<notin> set (encodeString rx flags s) \<and> CHR ''>'' \<notin> set (encodeString rx flags s)"
  by (induction s) auto

lemma encodeString_quotes: "has_flag flags cQuotes \<Longrightarrow> DQUOTE \<notin> set (encodeString rx flags s)"
  by (induction s) auto

text \<open>
  What a browser shows: the four entities are replaced by their characters. The flags of code blocks
  and code spans encode every text so that it is shown as it is.
\<close>

definition entities :: "(string \<times> char) list" where
  "entities = [(''&amp;'', CHR ''&''), (''&lt;'', CHR ''<''), (''&gt;'', CHR ''>''), (''&quot;'', DQUOTE)]"

fun shown_loop :: "nat \<Rightarrow> string \<Rightarrow> string" where
  "shown_loop 0 s = []"
| "shown_loop (Suc n) [] = []"
| "shown_loop (Suc n) (c # s) =
     (case find (\<lambda>(e, _). starts_with e (c # s)) entities of
        Some (e, d) \<Rightarrow> d # shown_loop n (drop (length e) (c # s))
      | None \<Rightarrow> c # shown_loop n s)"

definition shown :: "string \<Rightarrow> string" where
  "shown s = shown_loop (length s) s"

definition code_flags :: "32 word" where
  "code_flags = or cDoubleAmps (or cAngles cQuotes)"

lemma code_flags_simps [simp]:
  "\<not> has_flag code_flags cAmps" "has_flag code_flags cDoubleAmps" "has_flag code_flags cAngles"
  "has_flag code_flags cQuotes"
  by (simp_all add: has_flag_def code_flags_def cAmps_def cDoubleAmps_def cAngles_def cQuotes_def)

lemma starts_with_Cons: "starts_with (a # p) (b # s) \<longleftrightarrow> a = b \<and> starts_with p s"
  by (auto simp: starts_with_def)

lemma starts_with_Nil [simp]: "starts_with [] s"
  by (simp add: starts_with_def)

lemma shown_entity:
  "(e, d) \<in> set entities \<Longrightarrow> shown_loop (Suc n) (e @ s) = d # shown_loop n s"
  by (auto simp: entities_def starts_with_Cons)

lemma shown_other:
  "c \<noteq> CHR ''&'' \<Longrightarrow> shown_loop (Suc n) (c # s) = c # shown_loop n s"
  by (simp add: entities_def starts_with_Cons)

lemma shown_encode:
  "length s \<le> n \<Longrightarrow> shown_loop n (encodeString rx code_flags s) = s"
proof (induction s arbitrary: n)
  case Nil
  then show ?case by (cases n) simp_all
next
  case (Cons c s)
  then obtain m where n: "n = Suc m" "length s \<le> m" by (cases n) auto
  have IH: "shown_loop m (encodeString rx code_flags s) = s" by (rule Cons.IH [OF n(2)])
  consider e where "(e, c) \<in> set entities" "encodeString rx code_flags (c # s) = e @ encodeString rx code_flags s"
    | "c \<noteq> CHR ''&''" "encodeString rx code_flags (c # s) = c # encodeString rx code_flags s"
  proof (cases "c \<in> {CHR ''&'', CHR ''<'', CHR ''>'', DQUOTE}")
    case True
    then show thesis using that(1) [of "''&amp;''"] that(1) [of "''&lt;''"] that(1) [of "''&gt;''"]
        that(1) [of "''&quot;''"]
      by (auto simp: entities_def)
  next
    case False
    then show thesis using that(2) by simp
  qed
  then show ?case
  proof cases
    case 1
    show ?thesis unfolding 1(2) n(1) using shown_entity [OF 1(1), of m] IH by simp
  next
    case 2
    show ?thesis unfolding 2(2) n(1) using shown_other [OF 2(1), of m] IH by simp
  qed
qed

lemma encodeString_length: "length s \<le> length (encodeString rx flags s)"
  by (induction s) auto

lemma shown_encodeString: "shown (encodeString rx code_flags s) = s"
  unfolding shown_def by (rule shown_encode [OF encodeString_length])

section \<open>Classifying text\<close>

definition cEscapedCharacters :: string where
  "cEscapedCharacters = BACKSLASH # ''`*_{}[]()#+-.!>''"

definition isEscapedCharacter :: "char \<Rightarrow> nat option" where
  "isEscapedCharacter c = find_char c cEscapedCharacters"

text \<open>\<open>cEscapedCharacters[index]\<close>: the character at the end of a \<open>std::string\<close> is NUL.\<close>

definition escapedCharacter :: "nat \<Rightarrow> char outcome" where
  "escapedCharacter index =
     (if index < length cEscapedCharacters then Inr (cEscapedCharacters ! index)
      else if index = length cEscapedCharacters then Inr (CHR 0x00)
      else Inl Undefined_behaviour)"

lemma escapedCharacter_isEscaped: "isEscapedCharacter c = Some i \<Longrightarrow> escapedCharacter i = Inr c"
  unfolding isEscapedCharacter_def escapedCharacter_def
  by (drule find_char_SomeD) (auto, metis nth_append_length length_take min.absorb4)

definition url_schemes :: "string list" where
  "url_schemes = [''http://'', ''https://'', ''ftp://'', ''ftps://'', ''file://'', ''www.'', ''ftp.'']"

text \<open>The comparison stops at a NUL of the string.\<close>

definition looksLikeUrl :: "string \<Rightarrow> bool" where
  "looksLikeUrl str \<longleftrightarrow>
     list_ex (\<lambda>t. starts_with t (takeWhile (\<lambda>c. c \<noteq> CHR 0x00) str)) url_schemes"

definition is_alpha :: "char \<Rightarrow> bool" where
  "is_alpha c \<longleftrightarrow> (CHR ''a'' \<le> c \<and> c \<le> CHR ''z'') \<or> (CHR ''A'' \<le> c \<and> c \<le> CHR ''Z'')"

definition is_alnum :: "char \<Rightarrow> bool" where
  "is_alnum c \<longleftrightarrow> is_alpha c \<or> (CHR ''0'' \<le> c \<and> c \<le> CHR ''9'')"

definition notValidNameCharacter :: "char \<Rightarrow> bool" where
  "notValidNameCharacter c \<longleftrightarrow> \<not> (is_alnum c \<or> c \<in> {CHR ''.'', CHR ''_'', CHR ''%'', CHR ''-'', CHR ''+''})"

definition notValidSiteCharacter :: "char \<Rightarrow> bool" where
  "notValidSiteCharacter c \<longleftrightarrow>
     \<not> (is_alnum c \<or> c \<in> {CHR ''.'', CHR ''_'', CHR ''%'', CHR ''-''} \<or> schar c < 0)"

text \<open>
  The name before the at sign, the site after it, and the last part, which is alphabetic and follows a
  dot. \<open>ri.base()\<close> is the position after that dot.
\<close>

definition looksLikeEmailAddress :: "string \<Rightarrow> bool" where
  "looksLikeEmailAddress str =
     (let name = takeWhile (\<lambda>c. \<not> notValidNameCharacter c) str;
          rest = dropWhile (\<lambda>c. \<not> notValidNameCharacter c) str in
      rest \<noteq> [] \<and> hd rest = CHR ''@'' \<and> name \<noteq> [] \<and>
      list_all (\<lambda>c. \<not> notValidSiteCharacter c) (tl rest) \<and>
      (let tail = takeWhile is_alpha (rev str); before = dropWhile is_alpha (rev str) in
       before \<noteq> [] \<and> hd before = CHR ''.'' \<and> 2 \<le> length tail \<and> length tail \<le> 4))"

text \<open>Characters as entities, decimal and hexadecimal in turn; a byte of UTF-8 is left alone.\<close>

fun hex_digits :: "nat \<Rightarrow> string" where
  "hex_digits n =
     (if n < 16 then [''0123456789abcdef'' ! n] else hex_digits (n div 16) @ [''0123456789abcdef'' ! (n mod 16)])"

declare hex_digits.simps [simp del]

fun emailEncode_loop :: "bool \<Rightarrow> string \<Rightarrow> string" where
  "emailEncode_loop inHex [] = []"
| "emailEncode_loop inHex (c # src) =
     (if schar c < 0 then [c]
      else if inHex then ''&#x'' @ hex_digits (of_char c) @ '';''
      else ''&#'' @ nat_to_string (of_char c) @ '';'') @ emailEncode_loop (\<not> inHex) src"

definition emailEncode :: "string \<Rightarrow> string" where
  "emailEncode src = emailEncode_loop False src"

text \<open>The HTML elements: a slash at the end says that there is a closing tag.\<close>

definition cOtherTagInit :: "string list" where
  "cOtherTagInit =
   [''title/'', ''base'', ''link'', ''basefont'', ''script/'', ''style/'', ''object/'', ''meta'',
    ''em/'', ''strong/'', ''q/'', ''cite/'', ''dfn/'', ''abbr/'', ''acronym/'', ''code/'',
    ''samp/'', ''kbd/'', ''var/'', ''sub/'', ''sup/'', ''del/'', ''ins/'', ''isindex'', ''a/'',
    ''img'', ''br'', ''map/'', ''area'', ''object/'', ''param'', ''applet/'', ''span/'']"

definition cBlockTagInit :: "string list" where
  "cBlockTagInit =
   [''p/'', ''blockquote/'', ''hr'', ''h1/'', ''h2/'', ''h3/'', ''h4/'', ''h5/'', ''h6/'',
    ''dl/'', ''dt/'', ''dd/'', ''ol/'', ''ul/'', ''li/'', ''dir/'', ''menu/'', ''table/'',
    ''tr/'', ''th/'', ''td/'', ''col'', ''colgroup/'', ''caption/'', ''thead/'', ''tbody/'',
    ''tfoot/'', ''form/'', ''select/'', ''option'', ''input'', ''label/'', ''textarea/'',
    ''div/'', ''pre/'', ''address/'', ''iframe/'', ''frame/'', ''frameset/'', ''noframes/'',
    ''center/'', ''b/'', ''i/'', ''big/'', ''small/'', ''strike/'', ''tt/'', ''u/'', ''font/'',
    ''ins/'', ''del/'']"

definition initTag :: "string list \<Rightarrow> string list" where
  "initTag init = map (\<lambda>str. if last str = CHR ''/'' then butlast str else str) init"

text \<open>
  The two global sets are empty at first and are filled by the first call. No lock guards that:
  \<open>Server_Threads\<close> counts it among the accesses of a callback. Here a call is by itself.
\<close>

record tag_tables =
  otherTags :: "string list"
  blockTags :: "string list"

definition no_tables :: tag_tables where
  "no_tables = \<lparr>otherTags = [], blockTags = []\<rparr>"

definition filled_tables :: tag_tables where
  "filled_tables = \<lparr>otherTags = initTag cOtherTagInit, blockTags = initTag cBlockTagInit\<rparr>"

definition find_tag :: "tag_tables \<Rightarrow> string \<Rightarrow> bool \<Rightarrow> nat" where
  "find_tag t tag nonBlockFirst =
     (if nonBlockFirst then
        (if tag \<in> set (otherTags t) then 1 else if tag \<in> set (blockTags t) then 2 else 0)
      else
        (if tag \<in> set (blockTags t) then 2 else if tag \<in> set (otherTags t) then 1 else 0))"

definition isValidTag_in :: "tag_tables \<Rightarrow> string \<Rightarrow> bool \<Rightarrow> nat \<times> tag_tables" where
  "isValidTag_in t tag nonBlockFirst =
     (let t' = (if blockTags t = [] then filled_tables else t) in (find_tag t' tag nonBlockFirst, t'))"

text \<open>The value of the first call, which is that of every call.\<close>

definition isValidTag :: "string \<Rightarrow> bool \<Rightarrow> nat" where
  "isValidTag tag nonBlockFirst = fst (isValidTag_in no_tables tag nonBlockFirst)"

lemma filled_not_empty: "blockTags filled_tables \<noteq> []"
  by (simp add: filled_tables_def initTag_def cBlockTagInit_def)

lemma isValidTag_every_call:
  "t \<in> {no_tables, filled_tables} \<Longrightarrow> isValidTag_in t tag b = (isValidTag tag b, filled_tables)"
  using filled_not_empty by (auto simp: isValidTag_def isValidTag_in_def no_tables_def Let_def)

fun cleanTextLinkRef_loop :: "string \<Rightarrow> string \<Rightarrow> string" where
  "cleanTextLinkRef_loop r [] = r"
| "cleanTextLinkRef_loop r (c # ref) =
     (if c = SPACE then
        (if r = [] \<or> last r \<noteq> SPACE then cleanTextLinkRef_loop (r @ [SPACE]) ref
         else cleanTextLinkRef_loop r ref)
      else cleanTextLinkRef_loop (r @ [c]) ref)"

definition cleanTextLinkRef :: "string \<Rightarrow> string" where
  "cleanTextLinkRef ref = cleanTextLinkRef_loop [] ref"

definition countQuoteLevel :: "string \<Rightarrow> nat" where
  "countQuoteLevel prefixString = length (filter (\<lambda>c. c = CHR ''>'') prefixString)"

section \<open>Link definitions\<close>

text \<open>The table of a document: an identifier is a key whatever its case, and its first definition stays.\<close>

type_synonym LinkIds = "(string, string \<times> string) std_map"

definition to_lower :: "char \<Rightarrow> char" where
  "to_lower c = (if CHR ''A'' \<le> c \<and> c \<le> CHR ''Z'' then char_of (of_char c + 32 :: nat) else c)"

definition scrubKey :: "string \<Rightarrow> string" where
  "scrubKey str = map to_lower str"

definition LinkIds_find :: "string \<Rightarrow> LinkIds \<Rightarrow> (string \<times> string) option" where
  "LinkIds_find key table = map_find table (scrubKey key)"

definition LinkIds_add :: "string \<Rightarrow> string \<Rightarrow> string \<Rightarrow> LinkIds \<Rightarrow> LinkIds" where
  "LinkIds_add key url title table =
     (if map_find table (scrubKey key) = None then map_put (scrubKey key) (url, title) table else table)"

lemma LinkIds_find_add:
  "LinkIds_find k (LinkIds_add key url title table) =
     (if scrubKey k = scrubKey key \<and> LinkIds_find key table = None then Some (url, title)
      else LinkIds_find k table)"
  by (auto simp: LinkIds_find_def LinkIds_add_def map_find_put)

lemma LinkIds_find_fold:
  "LinkIds_find key (fold (\<lambda>(k, url, title). LinkIds_add k url title) defs table) =
     (case LinkIds_find key table of
        Some target \<Rightarrow> Some target
      | None \<Rightarrow> map_option snd (find (\<lambda>(k, _). scrubKey k = scrubKey key) defs))"
proof (induction defs arbitrary: table)
  case (Cons d defs)
  obtain k url title where d: "d = (k, url, title)" by (cases d)
  have "LinkIds_find key table = LinkIds_find k table" if "scrubKey key = scrubKey k"
    using that by (simp add: LinkIds_find_def)
  then show ?case
    by (cases "scrubKey key = scrubKey k"; cases "LinkIds_find key table") (auto simp: Cons.IH d LinkIds_find_add)
qed (simp split: option.split)

lemma LinkIds_fold:
  "LinkIds_find key (fold (\<lambda>(k, url, title). LinkIds_add k url title) defs []) =
     map_option snd (find (\<lambda>(k, _). scrubKey k = scrubKey key) defs)"
  by (simp add: LinkIds_find_fold) (simp add: LinkIds_find_def)

section \<open>Reading lines\<close>

definition cSpacesPerInitialTab :: nat where
  "cSpacesPerInitialTab = 4"

text \<open>
  \<open>_getline\<close>: the flag it returns, the line, and what is left. A carriage return or a line feed ends
  the line, and the other one after it belongs to it. A tab is filled up with spaces.
\<close>

fun getline_loop :: "nat \<Rightarrow> bool \<Rightarrow> string \<Rightarrow> string \<Rightarrow> bool \<times> string \<times> string" where
  "getline_loop tab initial line [] = (line \<noteq> [], line, [])"
| "getline_loop tab initial line (c # s) =
     (if c = CR then (True, line, if s \<noteq> [] \<and> hd s = LF then tl s else s)
      else if c = LF then (True, line, if s \<noteq> [] \<and> hd s = CR then tl s else s)
      else if c = TAB then
        (let convert = (if initial then cSpacesPerInitialTab else tab) in
         getline_loop tab initial (line @ replicate (convert - length line mod convert) SPACE) s)
      else getline_loop tab (initial \<and> c = SPACE) (line @ [c]) s)"

lemma getline_loop_shorter:
  "getline_loop tab initial line s = (True, l, r) \<Longrightarrow> s \<noteq> [] \<or> line = [] \<Longrightarrow> length r < length s"
proof (induction tab initial line s rule: getline_loop.induct)
  case (2 tab initial line c s)
  have rest: "length r \<le> length s" if "getline_loop t i k s = (True, l, r)" for t i k s
    using that by (induction t i k s rule: getline_loop.induct) (auto simp: Let_def split: if_splits)
  show ?case using "2.prems" by (auto simp: Let_def less_Suc_eq_le dest: rest split: if_splits)
qed simp

function read_lines :: "nat \<Rightarrow> string \<Rightarrow> string list" where
  "read_lines tab s =
     (case getline_loop tab True [] s of (ok, line, rest) \<Rightarrow>
        if ok then line # read_lines tab rest else [])"
  by pat_completeness auto
termination
  by (relation "measure (\<lambda>(_, s). length s)") (auto dest: getline_loop_shorter [OF sym])

declare read_lines.simps [simp del]

text \<open>Lines have no line ends and no tabs, whatever the input.\<close>

definition line_char :: "char \<Rightarrow> bool" where
  "line_char c \<longleftrightarrow> c \<noteq> CR \<and> c \<noteq> LF \<and> c \<noteq> TAB"

lemma line_char_SPACE [simp]: "line_char SPACE"
  by (simp add: line_char_def)

lemma getline_loop_chars:
  "getline_loop tab initial line s = (ok, l, r) \<Longrightarrow> list_all line_char line \<Longrightarrow> list_all line_char l"
proof (induction tab initial line s rule: getline_loop.induct)
  case (2 tab initial line c s)
  let ?tabbed = "line @ replicate ((if initial then cSpacesPerInitialTab else tab) -
      length line mod (if initial then cSpacesPerInitialTab else tab)) SPACE"
  have "list_all line_char ?tabbed" using "2.prems"(2) by (auto simp: list_all_iff)
  moreover have "c \<noteq> CR \<Longrightarrow> c \<noteq> LF \<Longrightarrow> c \<noteq> TAB \<Longrightarrow> list_all line_char (line @ [c])"
    using "2.prems"(2) by (simp add: line_char_def [of c])
  ultimately show ?case using 2 by (auto simp: Let_def split: if_splits)
qed simp

lemma read_lines_chars: "l \<in> set (read_lines tab s) \<Longrightarrow> list_all line_char l"
proof (induction tab s rule: read_lines.induct)
  case (1 tab s)
  obtain ok line rest where g: "getline_loop tab True [] s = (ok, line, rest)"
    by (cases "getline_loop tab True [] s")
  have "list_all line_char line" using getline_loop_chars [OF g] by simp
  with "1.IH" [OF g [symmetric] refl] "1.prems" g show ?case
    by (subst (asm) read_lines.simps) (auto split: if_splits)
qed

text \<open>A text of whole lines is split at its line ends, of each of the three usual kinds.\<close>

lemma getline_loop_line:
  "list_all line_char l \<Longrightarrow>
   \<exists>i. getline_loop tab initial k (l @ s) = getline_loop tab i (k @ l) s"
proof (induction l arbitrary: k initial)
  case (Cons c l)
  have c: "c \<noteq> CR" "c \<noteq> LF" "c \<noteq> TAB" and l: "list_all line_char l"
    using Cons.prems by (simp_all add: line_char_def [of c])
  from Cons.IH [OF l, of "initial \<and> c = SPACE" "k @ [c]"] c show ?case by simp
qed auto

lemma read_lines_joined:
  assumes "eol \<in> {[LF], [CR, LF], [CR]}" "\<forall>l \<in> set ls. list_all line_char l"
  shows "read_lines tab (concat (map (\<lambda>l. l @ eol) ls)) = ls"
  using assms(2)
proof (induction ls)
  case Nil
  then show ?case by (simp add: read_lines.simps)
next
  case (Cons l ls)
  let ?rest = "concat (map (\<lambda>l. l @ eol) ls)"
  have first: "?rest = [] \<or> hd ?rest \<noteq> (if eol = [LF] then CR else LF) \<or> eol = [CR, LF]"
  proof (cases ls)
    case (Cons k ks)
    then show ?thesis using Cons.prems assms(1)
      by (cases k) (auto simp: line_char_def \<open>ls = k # ks\<close>)
  qed simp
  obtain i where "getline_loop tab True [] (l @ eol @ ?rest) = getline_loop tab i l (eol @ ?rest)"
    using getline_loop_line [of l tab True "[]" "eol @ ?rest"] Cons.prems by auto
  also have "\<dots> = (True, l, ?rest)" using assms(1) first by auto
  finally show ?case using Cons by (subst read_lines.simps) simp
qed

end
