(* ===== verification/Markdown_Tokens.thy ===== *)
theory Markdown_Tokens
  imports Markdown_Text
begin

text \<open>
  \<open>markdown-tokens.h\<close> and \<open>markdown-tokens.cpp\<close>: the tokens of a document and how they are
  written as HTML. A class is a constructor with its members; the members that a base class gets from
  its constructor's arguments are read off the constructor (\<open>holder\<close>, \<open>pre_post\<close>).

  \<open>mParagraphMode\<close>, which is never read, is left out.
\<close>

section \<open>Markers of emphasis\<close>

text \<open>
  \<open>BoldOrItalicMarker\<close>. The pointer \<open>mMatch\<close> is the partner's address, and \<open>this_marker\<close> a
  marker's own.
\<close>

record Marker =
  this_marker :: nat
  mOpenMarker :: bool
  mTokenCharacter :: char
  mSize :: nat
  mMatch :: "nat option"
  mCannotMatch :: bool
  mDisabled :: bool
  mId :: int

definition new_Marker :: "nat \<Rightarrow> bool \<Rightarrow> char \<Rightarrow> nat \<Rightarrow> Marker" where
  "new_Marker addr is_open c n =
     \<lparr>this_marker = addr, mOpenMarker = is_open, mTokenCharacter = c, mSize = n, mMatch = None,
      mCannotMatch = False, mDisabled = False, mId = -1\<rparr>"

definition matched :: "nat option \<Rightarrow> int \<Rightarrow> Marker \<Rightarrow> Marker" where
  "matched mtch n m = m\<lparr>mMatch := mtch, mId := n\<rparr>"

definition disable :: "Marker \<Rightarrow> Marker" where
  "disable m = m\<lparr>mCannotMatch := True, mDisabled := True\<rparr>"

text \<open>The assertion on the size of a matched marker is \<open>markers_sized\<close> below, checked by \<open>Document_write\<close>.\<close>

definition Marker_writeAsHtml :: "Marker \<Rightarrow> string" where
  "Marker_writeAsHtml m =
     (if mDisabled m then []
      else if mMatch m \<noteq> None then
        (if mOpenMarker m
         then (if mSize m = 1 then ''<em>'' else if mSize m = 2 then ''<strong>'' else ''<strong><em>'')
         else (if mSize m = 1 then ''</em>'' else if mSize m = 2 then ''</strong>'' else ''</em></strong>''))
      else replicate (mSize m) (mTokenCharacter m))"

section \<open>Tokens\<close>

datatype Token =
    TextHolder string bool "32 word"
  | RawText string bool
  | HtmlTag string
  | HtmlAnchorTag string
  | InlineHtmlContents string
  | InlineHtmlComment string
  | CodeBlock string
  | CodeSpan string
  | Header nat string
  | BlankLine string
  | EscapedCharacter char
  | Container "Token list"
  | InlineHtmlBlock "Token list" bool
  | ListItem "Token list" bool
  | UnorderedList "Token list"
  | OrderedList "Token list"
  | BlockQuote "Token list"
  | Paragraph "Token list"
  | BoldOrItalicMarker Marker
  | Image string string string

text \<open>The anchor's text, made when it is constructed.\<close>

definition new_HtmlAnchorTag :: "regex \<Rightarrow> string \<Rightarrow> string \<Rightarrow> Token" where
  "new_HtmlAnchorTag rx url title =
     HtmlAnchorTag (''<a href='' @ [DQUOTE] @ encodeString rx (or cQuotes cAmps) url @ [DQUOTE] @
       (if title = [] then []
        else '' title='' @ [DQUOTE] @ encodeString rx (or cQuotes cAmps) title @ [DQUOTE]) @ ''>'')"

text \<open>The members of \<open>TextHolder\<close>: text, whether it can contain markup, flags.\<close>

fun holder :: "Token \<Rightarrow> (string \<times> bool \<times> 32 word) option" where
  "holder (TextHolder s markup flags) = Some (s, markup, flags)"
| "holder (RawText s markup) = Some (s, markup, or cAmps (or cAngles cQuotes))"
| "holder (HtmlTag s) = Some (s, False, or cAmps cAngles)"
| "holder (HtmlAnchorTag s) = Some (s, False, 0)"
| "holder (InlineHtmlContents s) = Some (s, False, or cAmps cAngles)"
| "holder (InlineHtmlComment s) = Some (s, False, 0)"
| "holder (CodeBlock s) = Some (s, False, code_flags)"
| "holder (CodeSpan s) = Some (s, False, code_flags)"
| "holder (Header n s) = Some (s, True, or cAmps (or cAngles cQuotes))"
| "holder (BlankLine s) = Some (s, False, 0)"
| "holder t = None"

definition Token_text :: "Token \<Rightarrow> string option" where
  "Token_text t = map_option fst (holder t)"

definition canContainMarkup :: "Token \<Rightarrow> bool" where
  "canContainMarkup t = (case holder t of Some (_, markup, _) \<Rightarrow> markup | None \<Rightarrow> False)"

fun Token_isBlankLine :: "Token \<Rightarrow> bool" where
  "Token_isBlankLine (BlankLine _) = True"
| "Token_isBlankLine (InlineHtmlBlock _ _) = True"
| "Token_isBlankLine _ = False"

fun inhibitParagraphs :: "Token \<Rightarrow> bool" where
  "inhibitParagraphs (Header _ _) = True"
| "inhibitParagraphs (InlineHtmlBlock _ block) = (\<not> block)"
| "inhibitParagraphs (ListItem _ inhibit) = inhibit"
| "inhibitParagraphs _ = False"

fun subTokens :: "Token \<Rightarrow> Token list option" where
  "subTokens (Container ts) = Some ts"
| "subTokens (InlineHtmlBlock ts _) = Some ts"
| "subTokens (ListItem ts _) = Some ts"
| "subTokens (UnorderedList ts) = Some ts"
| "subTokens (OrderedList ts) = Some ts"
| "subTokens (BlockQuote ts) = Some ts"
| "subTokens (Paragraph ts) = Some ts"
| "subTokens _ = None"

definition isContainer :: "Token \<Rightarrow> bool" where
  "isContainer t \<longleftrightarrow> subTokens t \<noteq> None"

text \<open>\<open>clone\<close>: the copy of an \<open>InlineHtmlBlock\<close> and of a \<open>ListItem\<close> has the flag's default.\<close>

fun clone :: "Token \<Rightarrow> Token list \<Rightarrow> Token" where
  "clone (InlineHtmlBlock _ _) ts = InlineHtmlBlock ts False"
| "clone (ListItem _ _) ts = ListItem ts True"
| "clone (UnorderedList _) ts = UnorderedList ts"
| "clone (OrderedList _) ts = OrderedList ts"
| "clone (BlockQuote _) ts = BlockQuote ts"
| "clone (Paragraph _) ts = Paragraph ts"
| "clone _ ts = Container ts"

text \<open>\<open>preWrite\<close> and \<open>postWrite\<close>, with what \<open>CodeBlock\<close> and \<open>CodeSpan\<close> write themselves.\<close>

fun pre_post :: "Token \<Rightarrow> string \<times> string" where
  "pre_post (HtmlTag _) = (''<'', ''>'')"
| "pre_post (CodeBlock _) = (''<pre><code>'', ''</code></pre>'' @ [LF, LF])"
| "pre_post (CodeSpan _) = (''<code>'', ''</code>'')"
| "pre_post (Header n _) = (''<h'' @ nat_to_string n @ ''>'', ''</h'' @ nat_to_string n @ ''>'' @ [LF])"
| "pre_post (ListItem _ _) = (''<li>'', ''</li>'' @ [LF])"
| "pre_post (UnorderedList _) = ([LF] @ ''<ul>'' @ [LF], ''</ul>'' @ [LF, LF])"
| "pre_post (OrderedList _) = (''<ol>'' @ [LF], ''</ol>'' @ [LF, LF])"
| "pre_post (BlockQuote _) = (''<blockquote>'' @ [LF], [LF] @ ''</blockquote>'' @ [LF])"
| "pre_post (Paragraph _) = (''<p>'', ''</p>'' @ [LF, LF])"
| "pre_post _ = ([], [])"

definition Image_writeAsHtml :: "string \<Rightarrow> string \<Rightarrow> string \<Rightarrow> string" where
  "Image_writeAsHtml alt url title =
     ''<img src='' @ [DQUOTE] @ url @ [DQUOTE] @ '' alt='' @ [DQUOTE] @ alt @ [DQUOTE] @
     (if title = [] then [] else '' title='' @ [DQUOTE] @ title @ [DQUOTE]) @ ''/>''"

definition TextHolder_writeAsHtml :: "regex \<Rightarrow> Token \<Rightarrow> string" where
  "TextHolder_writeAsHtml rx t =
     (case holder t of
        Some (s, _, flags) \<Rightarrow> (if flags \<noteq> 0 then encodeString rx flags s else s)
      | None \<Rightarrow> [])"

fun writeAsHtml :: "regex \<Rightarrow> Token \<Rightarrow> string" where
  "writeAsHtml rx (EscapedCharacter c) = [c]"
| "writeAsHtml rx (BoldOrItalicMarker m) = Marker_writeAsHtml m"
| "writeAsHtml rx (Image alt url title) = Image_writeAsHtml alt url title"
| "writeAsHtml rx (Container ts) = concat (map (writeAsHtml rx) ts)"
| "writeAsHtml rx (InlineHtmlBlock ts block) = concat (map (writeAsHtml rx) ts)"
| "writeAsHtml rx (ListItem ts inhibit) =
     fst (pre_post (ListItem ts inhibit)) @ concat (map (writeAsHtml rx) ts) @
     snd (pre_post (ListItem ts inhibit))"
| "writeAsHtml rx (UnorderedList ts) =
     fst (pre_post (UnorderedList ts)) @ concat (map (writeAsHtml rx) ts) @ snd (pre_post (UnorderedList ts))"
| "writeAsHtml rx (OrderedList ts) =
     fst (pre_post (OrderedList ts)) @ concat (map (writeAsHtml rx) ts) @ snd (pre_post (OrderedList ts))"
| "writeAsHtml rx (BlockQuote ts) =
     fst (pre_post (BlockQuote ts)) @ concat (map (writeAsHtml rx) ts) @ snd (pre_post (BlockQuote ts))"
| "writeAsHtml rx (Paragraph ts) =
     fst (pre_post (Paragraph ts)) @ concat (map (writeAsHtml rx) ts) @ snd (pre_post (Paragraph ts))"
| "writeAsHtml rx t = fst (pre_post t) @ TextHolder_writeAsHtml rx t @ snd (pre_post t)"

text \<open>The assertion that writing a tree makes: a matched marker has one to three characters.\<close>

fun markers_sized :: "Token \<Rightarrow> bool" where
  "markers_sized (BoldOrItalicMarker m) \<longleftrightarrow>
     mDisabled m \<or> mMatch m = None \<or> 1 \<le> mSize m \<and> mSize m \<le> 3"
| "markers_sized (Container ts) \<longleftrightarrow> list_all markers_sized ts"
| "markers_sized (InlineHtmlBlock ts _) \<longleftrightarrow> list_all markers_sized ts"
| "markers_sized (ListItem ts _) \<longleftrightarrow> list_all markers_sized ts"
| "markers_sized (UnorderedList ts) \<longleftrightarrow> list_all markers_sized ts"
| "markers_sized (OrderedList ts) \<longleftrightarrow> list_all markers_sized ts"
| "markers_sized (BlockQuote ts) \<longleftrightarrow> list_all markers_sized ts"
| "markers_sized (Paragraph ts) \<longleftrightarrow> list_all markers_sized ts"
| "markers_sized t \<longleftrightarrow> True"

fun writeAsOriginal :: "regex \<Rightarrow> Token \<Rightarrow> string" where
  "writeAsOriginal rx (EscapedCharacter c) = [BACKSLASH, c]"
| "writeAsOriginal rx (CodeSpan s) = ''`'' @ s @ ''`''"
| "writeAsOriginal rx t = writeAsHtml rx t"

text \<open>Code is shown as it is written and cannot open a tag.\<close>

lemma code_flags_nonzero [simp]: "code_flags \<noteq> 0"
  by (simp add: code_flags_def cDoubleAmps_def cAngles_def cQuotes_def)

lemma writeAsHtml_code:
  "writeAsHtml rx (CodeSpan s) = ''<code>'' @ encodeString rx code_flags s @ ''</code>''"
  "writeAsHtml rx (CodeBlock s) = ''<pre><code>'' @ encodeString rx code_flags s @ ''</code></pre>'' @ [LF, LF]"
  by (simp_all add: TextHolder_writeAsHtml_def)

end
