(* ===== verification/Markdown_Emphasis.thy ===== *)
theory Markdown_Emphasis
  imports Markdown_Tokens
begin

text \<open>
  The second half of \<open>RawText::_processBoldAndItalicSpans\<close>: matching the markers of emphasis with
  each other and undoing the matches that do not nest. A pointer to a marker is the marker's address,
  an iterator a split of the list of tokens; the loop over the close markers inserts new markers behind
  itself and may not end, so the matching is a \<open>partial_function\<close>.
\<close>

section \<open>Matching\<close>

fun isUnmatchedOpenMarker :: "Token \<Rightarrow> bool" where
  "isUnmatchedOpenMarker (BoldOrItalicMarker m) \<longleftrightarrow> mOpenMarker m \<and> mMatch m = None \<and> \<not> mCannotMatch m"
| "isUnmatchedOpenMarker _ \<longleftrightarrow> False"

fun isUnmatchedCloseMarker :: "Token \<Rightarrow> bool" where
  "isUnmatchedCloseMarker (BoldOrItalicMarker m) \<longleftrightarrow> \<not> mOpenMarker m \<and> mMatch m = None \<and> \<not> mCannotMatch m"
| "isUnmatchedCloseMarker _ \<longleftrightarrow> False"

fun isMatchedOpenMarker :: "Token \<Rightarrow> bool" where
  "isMatchedOpenMarker (BoldOrItalicMarker m) \<longleftrightarrow> mOpenMarker m \<and> mMatch m \<noteq> None"
| "isMatchedOpenMarker _ \<longleftrightarrow> False"

fun isMatchedCloseMarker :: "Token \<Rightarrow> bool" where
  "isMatchedCloseMarker (BoldOrItalicMarker m) \<longleftrightarrow> \<not> mOpenMarker m \<and> mMatch m \<noteq> None"
| "isMatchedCloseMarker _ \<longleftrightarrow> False"

fun marker_of :: "Token \<Rightarrow> Marker option" where
  "marker_of (BoldOrItalicMarker m) = Some m"
| "marker_of _ = None"

text \<open>
  The search for the close marker of one open marker: \<open>addr\<close> is the next free address, \<open>n\<close> the next
  id, \<open>passed\<close> the tokens between the open marker and the iterator. The result has the open marker
  and all that follows it.
\<close>

partial_function (option) find_close ::
  "Token list \<Rightarrow> Token list \<Rightarrow> Marker \<Rightarrow> nat \<Rightarrow> int \<Rightarrow> (Marker \<times> Token list \<times> nat \<times> int) option" where
  "find_close rest passed op addr n =
     (case rest of
        [] \<Rightarrow> Some (op, passed, addr, n)
      | t # rest' \<Rightarrow>
          if isUnmatchedCloseMarker t then
            (let cl = the (marker_of t) in
             if mSize cl = 3 \<and> mSize op \<noteq> 3 then
               find_close
                 (BoldOrItalicMarker (new_Marker addr False (mTokenCharacter cl) (mSize cl - mSize op)) #
                  BoldOrItalicMarker (new_Marker (addr + 1) False (mTokenCharacter cl) (mSize op)) # rest')
                 (passed @ [BoldOrItalicMarker (disable cl)]) op (addr + 2) n
             else if mTokenCharacter cl = mTokenCharacter op \<and> mSize cl = mSize op then
               Some (matched (Some (this_marker cl)) n op,
                 passed @ BoldOrItalicMarker (matched (Some (this_marker op)) n cl) # rest', addr, n + 1)
             else if mSize op = 3 then
               Some (disable op,
                 BoldOrItalicMarker (new_Marker addr True (mTokenCharacter op) (mSize op - mSize cl)) #
                 BoldOrItalicMarker (new_Marker (addr + 1) True (mTokenCharacter op) (mSize cl)) #
                 passed @ t # rest', addr + 2, n)
             else find_close rest' (passed @ [t]) op addr n)
          else find_close rest' (passed @ [t]) op addr n)"

partial_function (option) match_markers :: "Token list \<Rightarrow> Token list \<Rightarrow> nat \<Rightarrow> int \<Rightarrow> Token list option" where
  "match_markers rest passed addr n =
     (case rest of
        [] \<Rightarrow> Some passed
      | t # rest' \<Rightarrow>
          if isUnmatchedOpenMarker t then
            (case find_close rest' [] (the (marker_of t)) addr n of
               None \<Rightarrow> None
             | Some (op, rest'', addr', n') \<Rightarrow>
                 match_markers rest'' (passed @ [BoldOrItalicMarker op]) addr' n')
          else match_markers rest' (passed @ [t]) addr n)"

text \<open>The branches of the loops, one equation each.\<close>

lemma find_close_Nil: "find_close [] passed op addr n = Some (op, passed, addr, n)"
  by (subst find_close.simps) simp

lemma find_close_skip:
  "\<not> isUnmatchedCloseMarker t \<Longrightarrow> find_close (t # rest) passed op addr n = find_close rest (passed @ [t]) op addr n"
  by (subst find_close.simps) simp

lemma find_close_split_close:
  "isUnmatchedCloseMarker (BoldOrItalicMarker cl) \<Longrightarrow> mSize cl = 3 \<Longrightarrow> mSize op \<noteq> 3 \<Longrightarrow>
   find_close (BoldOrItalicMarker cl # rest) passed op addr n =
   find_close
     (BoldOrItalicMarker (new_Marker addr False (mTokenCharacter cl) (3 - mSize op)) #
      BoldOrItalicMarker (new_Marker (Suc addr) False (mTokenCharacter cl) (mSize op)) # rest)
     (passed @ [BoldOrItalicMarker (disable cl)]) op (addr + 2) n"
  by (subst find_close.simps) (simp add: Let_def del: isUnmatchedCloseMarker.simps)

lemma find_close_match:
  "isUnmatchedCloseMarker (BoldOrItalicMarker cl) \<Longrightarrow> mTokenCharacter cl = mTokenCharacter op \<Longrightarrow>
   mSize cl = mSize op \<Longrightarrow>
   find_close (BoldOrItalicMarker cl # rest) passed op addr n =
     Some (matched (Some (this_marker cl)) n op,
       passed @ BoldOrItalicMarker (matched (Some (this_marker op)) n cl) # rest, addr, n + 1)"
  by (subst find_close.simps) (simp add: Let_def del: isUnmatchedCloseMarker.simps)

lemma find_close_split_open:
  "isUnmatchedCloseMarker (BoldOrItalicMarker cl) \<Longrightarrow> mSize op = 3 \<Longrightarrow>
   \<not> (mTokenCharacter cl = mTokenCharacter op \<and> mSize cl = mSize op) \<Longrightarrow>
   find_close (BoldOrItalicMarker cl # rest) passed op addr n =
     Some (disable op,
       BoldOrItalicMarker (new_Marker addr True (mTokenCharacter op) (3 - mSize cl)) #
       BoldOrItalicMarker (new_Marker (Suc addr) True (mTokenCharacter op) (mSize cl)) #
       passed @ BoldOrItalicMarker cl # rest, addr + 2, n)"
  by (subst find_close.simps) (simp add: Let_def del: isUnmatchedCloseMarker.simps)

lemma find_close_other:
  "isUnmatchedCloseMarker (BoldOrItalicMarker cl) \<Longrightarrow> mSize op \<noteq> 3 \<Longrightarrow> mSize cl \<noteq> 3 \<Longrightarrow>
   \<not> (mTokenCharacter cl = mTokenCharacter op \<and> mSize cl = mSize op) \<Longrightarrow>
   find_close (BoldOrItalicMarker cl # rest) passed op addr n =
   find_close rest (passed @ [BoldOrItalicMarker cl]) op addr n"
  by (subst find_close.simps) (auto simp: Let_def simp del: isUnmatchedCloseMarker.simps)

lemma match_markers_Nil: "match_markers [] passed addr n = Some passed"
  by (subst match_markers.simps) simp

lemma match_markers_skip:
  "\<not> isUnmatchedOpenMarker t \<Longrightarrow> match_markers (t # rest) passed addr n = match_markers rest (passed @ [t]) addr n"
  by (subst match_markers.simps) simp

lemma match_markers_open:
  "isUnmatchedOpenMarker (BoldOrItalicMarker m) \<Longrightarrow> find_close rest [] m addr n = Some (op, ts, addr', n') \<Longrightarrow>
   match_markers (BoldOrItalicMarker m # rest) passed addr n =
   match_markers ts (passed @ [BoldOrItalicMarker op]) addr' n'"
  by (subst match_markers.simps) (simp del: isUnmatchedOpenMarker.simps)

lemma match_markers_None:
  "isUnmatchedOpenMarker (BoldOrItalicMarker m) \<Longrightarrow> find_close rest [] m addr n = None \<Longrightarrow>
   match_markers (BoldOrItalicMarker m # rest) passed addr n = None"
  by (subst match_markers.simps) (simp del: isUnmatchedOpenMarker.simps)

section \<open>Undoing the matches that do not nest\<close>

definition marker_at :: "nat \<Rightarrow> Token list \<Rightarrow> Marker option" where
  "marker_at a ts = find (\<lambda>m. this_marker m = a) (List.map_filter marker_of ts)"

definition update_marker :: "nat \<Rightarrow> (Marker \<Rightarrow> Marker) \<Rightarrow> Token list \<Rightarrow> Token list" where
  "update_marker a f ts =
     map (\<lambda>t. case t of
         BoldOrItalicMarker m \<Rightarrow> BoldOrItalicMarker (if this_marker m = a then f m else m)
       | _ \<Rightarrow> t) ts"

text \<open>One turn, at the token of index \<open>k\<close>; the stack has addresses, the top first.\<close>

definition unmatch_step :: "nat list \<times> Token list \<Rightarrow> nat \<Rightarrow> (nat list \<times> Token list) outcome" where
  "unmatch_step st k =
     (case st of (openMatches, ts) \<Rightarrow>
        if isMatchedOpenMarker (ts ! k) then
          Inr (this_marker (the (marker_of (ts ! k))) # openMatches, ts)
        else if isMatchedCloseMarker (ts ! k) then
          (let cl = the (marker_of (ts ! k)) in
           case openMatches of
             [] \<Rightarrow> Inl Undefined_behaviour
           | addr # below \<Rightarrow>
               if mId cl \<noteq> mId (the (marker_at addr ts)) then
                 Inr (openMatches, update_marker (this_marker cl) (matched None (-1))
                   (update_marker (the (mMatch cl)) (matched None (-1)) ts))
               else
                 Inr (dropWhile (\<lambda>a. mMatch (the (marker_at a ts)) = None) below, ts))
        else Inr (openMatches, ts))"

fun unmatch_loop :: "nat list \<times> Token list \<Rightarrow> nat list \<Rightarrow> (nat list \<times> Token list) outcome" where
  "unmatch_loop st [] = Inr st"
| "unmatch_loop st (k # ks) =
     (case unmatch_step st k of Inl e \<Rightarrow> Inl e | Inr st' \<Rightarrow> unmatch_loop st' ks)"

definition unmatch :: "Token list \<Rightarrow> Token list outcome" where
  "unmatch ts = map_sum id snd (unmatch_loop ([], ts) [0..<length ts])"

end
