(* ===== verification/Run.thy ===== *)
theory Run
  imports Prelude
begin

text \<open>
  Calls that may fail and may not return: \<open>None\<close> does not return, \<open>Some (Inl e)\<close> fails,
  \<open>Some (Inr x)\<close> returns. Sequencing is monotone, so it can be used in a \<open>partial_function\<close>.
\<close>

type_synonym 'a run = "'a outcome option"

definition ret :: "'a \<Rightarrow> 'a run" where
  "ret x = Some (Inr x)"

definition fail :: "fault \<Rightarrow> 'a run" where
  "fail e = Some (Inl e)"

definition run_bind :: "'a run \<Rightarrow> ('a \<Rightarrow> 'b run) \<Rightarrow> 'b run" where
  "run_bind m f = (case m of None \<Rightarrow> None | Some (Inl e) \<Rightarrow> Some (Inl e) | Some (Inr x) \<Rightarrow> f x)"

lemma run_bind_simps [simp]:
  "run_bind (ret x) f = f x" "run_bind (fail e) f = fail e" "run_bind None f = None"
  "run_bind (Some (Inr x)) f = f x" "run_bind (Some (Inl e)) f = Some (Inl e)"
  by (simp_all add: run_bind_def ret_def fail_def)

lemma ret_neq_None [simp]: "ret x \<noteq> None" "fail e \<noteq> None" "ret x \<noteq> fail e" "fail e \<noteq> ret x"
  "Some (Inl e) \<noteq> ret x" "ret x \<noteq> Some (Inl e)"
  by (simp_all add: ret_def fail_def)

lemma ret_eq [simp]: "ret x = ret y \<longleftrightarrow> x = y" "fail e = fail e' \<longleftrightarrow> e = e'"
  by (simp_all add: ret_def fail_def)

lemma run_bind_eq_None: "run_bind m f = None \<longleftrightarrow> m = None \<or> (\<exists>x. m = ret x \<and> f x = None)"
  by (auto simp: run_bind_def ret_def split: option.splits sum.splits)

lemma run_bind_eq_ret: "run_bind m f = ret y \<longleftrightarrow> (\<exists>x. m = ret x \<and> f x = ret y)"
  by (auto simp: run_bind_def ret_def split: option.splits sum.splits)

lemma run_bind_assoc: "run_bind (run_bind m f) g = run_bind m (\<lambda>x. run_bind (f x) g)"
  by (simp add: run_bind_def split: option.split sum.split)

lemma run_bind_conv:
  "run_bind m f = Option.bind m (\<lambda>r. case r of Inl e \<Rightarrow> Some (Inl e) | Inr x \<Rightarrow> f x)"
  by (simp add: run_bind_def split: option.split sum.split)

lemma run_bind_mono [partial_function_mono]:
  assumes "monotone option.le_fun option_ord B" "\<And>y. monotone option.le_fun option_ord (\<lambda>f. C y f)"
  shows "monotone option.le_fun option_ord (\<lambda>f. run_bind (B f) (\<lambda>y. C y f))"
proof -
  have "monotone option.le_fun option_ord
      (\<lambda>f. Option.bind (B f) (\<lambda>r. case r of Inl e \<Rightarrow> Some (Inl e) | Inr x \<Rightarrow> C x f))"
  proof (rule bind_mono [OF assms(1)])
    show "monotone option.le_fun option_ord (\<lambda>f. case r of Inl e \<Rightarrow> Some (Inl e) | Inr x \<Rightarrow> C x f)" for r
      using assms(2) by (cases r) (simp_all add: monotone_def option.leq_refl)
  qed
  then show ?thesis unfolding run_bind_conv .
qed

text \<open>A call for each element of a list, from left to right.\<close>

fun run_map :: "('a \<Rightarrow> 'b run) \<Rightarrow> 'a list \<Rightarrow> 'b list run" where
  "run_map f [] = ret []"
| "run_map f (x # xs) = run_bind (f x) (\<lambda>y. run_bind (run_map f xs) (\<lambda>ys. ret (y # ys)))"

lemma run_map_cong [fundef_cong]:
  "xs = ys \<Longrightarrow> (\<And>x. x \<in> set ys \<Longrightarrow> f x = g x) \<Longrightarrow> run_map f xs = run_map g ys"
  by (induction xs arbitrary: ys) auto

text \<open>A call that returns or fails.\<close>

definition ends :: "'a run \<Rightarrow> bool" where
  "ends m \<longleftrightarrow> m \<noteq> None"

lemma ends_simps [simp]: "ends (ret x)" "ends (fail e)" "ends (Some r)" "\<not> ends None"
  by (simp_all add: ends_def ret_def fail_def)

lemma ends_bind [simp]: "ends (run_bind m f) \<longleftrightarrow> ends m \<and> (\<forall>x. m = ret x \<longrightarrow> ends (f x))"
  unfolding ends_def by (auto simp: run_bind_eq_None)

lemma ends_run_map: "(\<And>x. x \<in> set xs \<Longrightarrow> ends (f x)) \<Longrightarrow> ends (run_map f xs)"
  by (induction xs) auto

end
