(* ===== verification/Markdown_Spans.thy ===== *)
theory Markdown_Spans
  imports Markdown_Emphasis Run
begin

text \<open>
  \<open>RawText::processSpanElements\<close>: the text of a paragraph becomes a list of tokens. Each stage
  searches for an expression from where the last match ended, and puts a mark with an index into the
  table of replacements where the match was; the last stage puts the replacements in.

  The stages are one loop, \<open>scan\<close>, over different expressions: it ends when there is no match left,
  so whether it ends rests on the matches being non-empty.
\<close>

section \<open>The loop over the matches\<close>

text \<open>
  \<open>turn\<close> gets the text before the match and the captures, and gives the state and how much of the
  text from the match's start on is done. The result has the state and the text after the last match.
\<close>

partial_function (option) scan ::
  "string \<Rightarrow> (string \<Rightarrow> (nat \<times> string option list) option) \<Rightarrow>
   ('s \<Rightarrow> string \<Rightarrow> string option list \<Rightarrow> ('s \<times> nat) run) \<Rightarrow> 's \<Rightarrow> ('s \<times> string) run" where
  "scan s search turn st =
     (case search s of
        None \<Rightarrow> ret (st, s)
      | Some (pos, m) \<Rightarrow>
          run_bind (turn st (take pos s) m) (\<lambda>(st', n). scan (drop (pos + n) s) search turn st'))"

text \<open>A turn that only appends to a text, and a loop that ends with the text after the last match.\<close>

definition scan_text ::
  "(string \<Rightarrow> (nat \<times> string option list) option) \<Rightarrow>
   ('s \<times> string \<Rightarrow> string \<Rightarrow> string option list \<Rightarrow> (('s \<times> string) \<times> nat) run) \<Rightarrow> 's \<Rightarrow> string \<Rightarrow> ('s \<times> string) run" where
  "scan_text search turn st src =
     run_bind (scan src search turn (st, [])) (\<lambda>((st', tgt), rest). ret (st', tgt @ rest))"

text \<open>The marks in the text.\<close>

definition SOH :: char where "SOH = CHR 0x01"

definition mark :: "string \<Rightarrow> string \<Rightarrow> string" where
  "mark index name = [SOH] @ ''@'' @ index @ ''@'' @ name @ [SOH]"

type_synonym ReplacementTable = "Token list"

section \<open>Putting the replacements in\<close>

definition cReplaced :: string where
  "cReplaced = [SOH] @ ''@(#?[0-9]*)@.+?'' @ [SOH]"

text \<open>\<open>boost::lexical_cast<size_t>\<close> of digits: no digits, or a number of more than 64 bits, throws.\<close>

definition lexical_cast :: "string \<Rightarrow> nat outcome" where
  "lexical_cast s =
     (if s \<noteq> [] \<and> list_all is_digit_char s \<and> decimal_value s < 2 ^ 64 then Inr (decimal_value s)
      else Inl Bad_lexical_cast)"

text \<open>What a mark stands for: a character, a replacement, or nothing.\<close>

datatype reference = Ref_escaped char | Ref_token Token | Ref_nothing

definition reference :: "string \<Rightarrow> ReplacementTable \<Rightarrow> reference run" where
  "reference ref replacements =
     (if ref \<noteq> [] \<and> hd ref = CHR ''#'' then
        Some (outcome_bind (lexical_cast (tl ref)) (\<lambda>n. map_sum (\<lambda>e. e) Ref_escaped (escapedCharacter n)))
      else if ref \<noteq> [] then
        Some (outcome_bind (lexical_cast ref) (\<lambda>n.
          if n < length replacements then Inr (Ref_token (replacements ! n)) else Inl Assertion_failed))
      else ret Ref_nothing)"

definition raw_text :: "string \<Rightarrow> Token list" where
  "raw_text pre = (if pre = [] then [] else [RawText pre True])"

definition encodeProcessedItems :: "regex \<Rightarrow> string \<Rightarrow> ReplacementTable \<Rightarrow> Token list run" where
  "encodeProcessedItems rx src replacements =
     run_bind
       (scan src (rx_search rx cReplaced)
         (\<lambda>r pre m. run_bind (reference (cap m 1) replacements) (\<lambda>what. ret
            (r @ raw_text pre @
              (case what of Ref_escaped c \<Rightarrow> [EscapedCharacter c] | Ref_token t \<Rightarrow> [t] | Ref_nothing \<Rightarrow> []),
             length (cap m 0)))) [])
       (\<lambda>(r, rest). ret (r @ raw_text rest))"

definition restoreProcessedItems :: "regex \<Rightarrow> string \<Rightarrow> ReplacementTable \<Rightarrow> string run" where
  "restoreProcessedItems rx src replacements =
     run_bind
       (scan src (rx_search rx cReplaced)
         (\<lambda>r pre m. run_bind (reference (cap m 1) replacements) (\<lambda>what. ret
            (r @ pre @
              (case what of
                 Ref_escaped c \<Rightarrow> [BACKSLASH, c] | Ref_token t \<Rightarrow> writeAsOriginal rx t | Ref_nothing \<Rightarrow> []),
             length (cap m 0)))) [])
       (\<lambda>(r, rest). ret (r @ rest))"

section \<open>Attributes, code spans, escapes\<close>

definition cHtmlToken :: string where
  "cHtmlToken = backslashed ''<((/?)([a-zA-Z0-9]+)(?:( +[a-zA-Z0-9]+?(?: ?= ?(\"|').*?~5))+? */? *))>''"

definition cAttributeStrings :: string where
  "cAttributeStrings = backslashed ''= ?(\"|').*?~1''"

text \<open>One tag: its attributes become marks.\<close>

definition processAttributes :: "regex \<Rightarrow> string \<Rightarrow> ReplacementTable \<Rightarrow> (ReplacementTable \<times> string) run" where
  "processAttributes rx fulltag replacements =
     scan_text (rx_search rx cAttributeStrings)
       (\<lambda>(replacements, tgttag) pre m. ret
          ((replacements @ [TextHolder (cap m 0) False (or cAmps cAngles)],
            tgttag @ pre @ mark (nat_to_string (length replacements)) ''htmlTagAttr''),
           length (cap m 0)))
       replacements fulltag"

definition processHtmlTagAttributes :: "regex \<Rightarrow> string \<Rightarrow> ReplacementTable \<Rightarrow> (ReplacementTable \<times> string) run" where
  "processHtmlTagAttributes rx src replacements =
     scan_text (rx_search rx cHtmlToken)
       (\<lambda>(replacements, tgt) pre m.
          if isValidTag (cap m 3) False \<noteq> 0 then
            run_bind (processAttributes rx (cap m 0) replacements) (\<lambda>(replacements', tgttag).
              ret ((replacements', tgt @ pre @ tgttag), length (cap m 0)))
          else ret ((replacements, tgt @ pre @ cap m 0), length (cap m 0)))
       replacements src"

definition cCodeSpan :: "string list" where
  "cCodeSpan = map backslashed [''(?:^|(?<=[^~~]))`` (.+?) ``'', ''(?:^|(?<=[^~~]))`(.+?)`'']"

definition processCodeSpans_pass ::
  "regex \<Rightarrow> string \<Rightarrow> string \<Rightarrow> ReplacementTable \<Rightarrow> (ReplacementTable \<times> string) run" where
  "processCodeSpans_pass rx expression src replacements =
     scan_text (rx_search rx expression)
       (\<lambda>(replacements, tgt) pre m.
          run_bind (restoreProcessedItems rx (cap m 1) replacements) (\<lambda>code. ret
            ((replacements @ [CodeSpan code],
              tgt @ pre @ mark (nat_to_string (length replacements)) ''codeSpan''),
             length (cap m 0))))
       replacements src"

definition processCodeSpans :: "regex \<Rightarrow> string \<Rightarrow> ReplacementTable \<Rightarrow> (ReplacementTable \<times> string) run" where
  "processCodeSpans rx src replacements =
     run_bind (processCodeSpans_pass rx (cCodeSpan ! 0) src replacements) (\<lambda>(replacements, src).
       processCodeSpans_pass rx (cCodeSpan ! 1) src replacements)"

fun processEscapedCharacters :: "string \<Rightarrow> string" where
  "processEscapedCharacters [] = []"
| "processEscapedCharacters [c] = [c]"
| "processEscapedCharacters (c # d # src) =
     (if c = BACKSLASH then
        (case isEscapedCharacter d of
           Some e \<Rightarrow> mark (''#'' @ nat_to_string e) ''escaped''
         | None \<Rightarrow> [BACKSLASH, d]) @ processEscapedCharacters src
      else c # processEscapedCharacters (d # src))"

definition cRemove :: string where
  "cRemove = backslashed ''(?:(?: ~*+ )|(?: _+ ))''"

text \<open>Declared and defined, but never called.\<close>

definition processSpaceBracketedGroupings ::
  "regex \<Rightarrow> string \<Rightarrow> ReplacementTable \<Rightarrow> (ReplacementTable \<times> string) run" where
  "processSpaceBracketedGroupings rx src replacements =
     scan_text (rx_search rx cRemove)
       (\<lambda>(replacements, tgt) pre m. ret
          ((replacements @ [RawText (cap m 0) True],
            tgt @ pre @ mark (nat_to_string (length replacements)) ''spaceBracketed''),
           length (cap m 0)))
       replacements src"

section \<open>Links, images and tags\<close>

definition cLinkExpression :: string where
  "cLinkExpression =
     backslashed (''(?:(!?)~[([^~]]+?)~] *~(([^~(]*(?:~(.*?~).*?)*?)~))'' @
     ''|(?:(!?)~[((?:[^]]*?~[.*?~].*?)|(?:.+?))~](?: *~[(.*?)~])?)'' @
     ''|(?:<(/?([a-zA-Z0-9]+).*?)>)'')"

definition cUrlAndTitle :: string where
  "cUrlAndTitle = backslashed ''^<?([^ >]*)>?(?: *(?:('|\")(.*)~2)|(?:~((.*)~)))? *$''"

text \<open>The URL and the title of a link, \<open>None\<close> when they cannot be resolved.\<close>

definition link_target :: "regex \<Rightarrow> LinkIds \<Rightarrow> bool \<Rightarrow> string option list \<Rightarrow> (string \<times> string) option" where
  "link_target rx idTable isReference m =
     (if isReference then
        LinkIds_find (if cap m 6 = [] then cleanTextLinkRef (cap m 5) else cap m 6) idTable
      else
        (case rx_match rx cUrlAndTitle (cap m 3) of
           None \<Rightarrow> None
         | Some mm \<Rightarrow> Some (cap mm 1, if capture mm 3 \<noteq> None then cap mm 3 else cap mm 4)))"

text \<open>What stands between angle brackets: an address, a tag, or just text.\<close>

definition bracketed :: "regex \<Rightarrow> string option list \<Rightarrow> ReplacementTable \<Rightarrow> Token run" where
  "bracketed rx m replacements =
     (let contents = cap m 7 in
      if looksLikeUrl contents then
        ret (Container [new_HtmlAnchorTag rx contents [], RawText contents False, HtmlTag ''/a''])
      else if looksLikeEmailAddress contents then
        ret (Container [new_HtmlAnchorTag rx (emailEncode (''mailto:'' @ contents)) [],
          RawText (emailEncode contents) False, HtmlTag ''/a''])
      else if isValidTag (cap m 8) False \<noteq> 0 then
        run_bind (restoreProcessedItems rx contents replacements) (\<lambda>s. ret (HtmlTag s))
      else ret (RawText (cap m 0) True))"

definition links_turn ::
  "regex \<Rightarrow> LinkIds \<Rightarrow> ReplacementTable \<times> string \<Rightarrow> string \<Rightarrow> string option list \<Rightarrow>
   ((ReplacementTable \<times> string) \<times> nat) run" where
  "links_turn rx idTable st pre m =
     (case st of (replacements, tgt) \<Rightarrow>
      let tgt = tgt @ pre @ mark (nat_to_string (length replacements)) ''links&Images1'';
          isReference = (cap m 4 \<noteq> [] \<or> cap m 1 = [] \<and> capture m 5 \<noteq> None);
          isImage = (cap m 4 \<noteq> [] \<or> cap m 1 \<noteq> []);
          isLink = (\<not> isImage \<and> (capture m 5 \<noteq> None \<or> capture m 2 \<noteq> None));
          contentsOrAlttext = (if isReference then cap m 5 else cap m 2)
      in
      if isImage \<or> isLink then
        (case link_target rx idTable isReference m of
           None \<Rightarrow> ret ((replacements @ [RawText (take 1 (cap m 0)) True], tgt), 1)
         | Some (url, title) \<Rightarrow>
             if isImage then
               ret ((replacements @ [Image contentsOrAlttext url title], tgt), length (cap m 0))
             else
               ret ((replacements @ [new_HtmlAnchorTag rx url title, HtmlTag ''/a''],
                 tgt @ contentsOrAlttext @ mark (nat_to_string (Suc (length replacements))) ''links&Images2''),
                length (cap m 0)))
      else
        run_bind (bracketed rx m replacements) (\<lambda>t. ret ((replacements @ [t], tgt), length (cap m 0))))"

definition processLinksImagesAndTags ::
  "regex \<Rightarrow> string \<Rightarrow> ReplacementTable \<Rightarrow> LinkIds \<Rightarrow> (ReplacementTable \<times> string) run" where
  "processLinksImagesAndTags rx src replacements idTable =
     scan_text (rx_search rx cLinkExpression) (links_turn rx idTable) replacements src"

section \<open>Emphasis\<close>

definition cEmphasisExpression :: string where
  "cEmphasisExpression =
     backslashed (''(?:(?<![*_])([*_]{1,3})([^*_ ]+?)~1(?![*_]))'' @
     ''|((?:(?<!~*)~*{1,3}(?!~*)|(?<!_)_{1,3}(?!_))(?=.)(?! )(?![.,:;] )(?![.,:;]$))'' @
     ''|((?<![* ])~*{1,3}(?!~*)|(?<![ _])_{1,3}(?!_))'')"

text \<open>The tokens of the text, a marker for each emphasis character sequence, with the next free address.\<close>

definition marker_token :: "nat \<Rightarrow> bool \<Rightarrow> string \<Rightarrow> Token" where
  "marker_token addr is_open s =
     BoldOrItalicMarker (new_Marker addr is_open (if s = [] then CHR 0x00 else hd s) (length s))"

definition emphasis_turn ::
  "nat \<times> Token list \<Rightarrow> string \<Rightarrow> string option list \<Rightarrow> ((nat \<times> Token list) \<times> nat) run" where
  "emphasis_turn st pre m =
     (case st of (addr, tgt) \<Rightarrow>
      let tgt = tgt @ raw_text pre in
      ret (if capture m 3 \<noteq> None then (addr + 1, tgt @ [marker_token addr True (cap m 3)])
           else if capture m 4 \<noteq> None then (addr + 1, tgt @ [marker_token addr False (cap m 4)])
           else (addr + 2, tgt @ [marker_token addr True (cap m 1), RawText (cap m 2) True,
                  marker_token (addr + 1) False (cap m 1)]),
           length (cap m 0)))"

definition emphasis_tokens :: "regex \<Rightarrow> string \<Rightarrow> (nat \<times> Token list) run" where
  "emphasis_tokens rx src =
     run_bind (scan src (rx_search rx cEmphasisExpression) emphasis_turn (0, []))
       (\<lambda>((addr, tgt), rest). ret (addr, tgt @ raw_text rest))"

text \<open>The matching of the markers, the undoing, and the replacements of each text that is left.\<close>

definition match_emphasis :: "Token list \<Rightarrow> nat \<Rightarrow> Token list run" where
  "match_emphasis ts addr =
     (case match_markers ts [] addr 0 of None \<Rightarrow> None | Some ts' \<Rightarrow> Some (unmatch ts'))"

definition encode_token :: "regex \<Rightarrow> ReplacementTable \<Rightarrow> Token \<Rightarrow> Token list run" where
  "encode_token rx replacements t =
     (case Token_text t of
        Some s \<Rightarrow> if canContainMarkup t then encodeProcessedItems rx s replacements else ret [t]
      | None \<Rightarrow> ret [t])"

definition processBoldAndItalicSpans :: "regex \<Rightarrow> string \<Rightarrow> ReplacementTable \<Rightarrow> Token list run" where
  "processBoldAndItalicSpans rx src replacements =
     run_bind (emphasis_tokens rx src) (\<lambda>(addr, tgt).
       run_bind (match_emphasis tgt addr) (\<lambda>tgt.
         run_bind (run_map (encode_token rx replacements) tgt) (\<lambda>r. ret (concat r))))"

section \<open>A text\<close>

definition span_stages :: "regex \<Rightarrow> LinkIds \<Rightarrow> string \<Rightarrow> (ReplacementTable \<times> string) run" where
  "span_stages rx idTable s =
     run_bind (processHtmlTagAttributes rx s []) (\<lambda>(replacements, str).
       run_bind (processCodeSpans rx str replacements) (\<lambda>(replacements, str).
         processLinksImagesAndTags rx (processEscapedCharacters str) replacements idTable))"

definition RawText_processSpanElements :: "regex \<Rightarrow> LinkIds \<Rightarrow> string \<Rightarrow> bool \<Rightarrow> Token list option run" where
  "RawText_processSpanElements rx idTable s markup =
     (if \<not> markup then ret None
      else run_bind (span_stages rx idTable s) (\<lambda>(replacements, str).
        run_bind (processBoldAndItalicSpans rx str replacements) (\<lambda>ts. ret (Some ts))))"

text \<open>
  The spans of a tree. A container is changed in place and returns nothing, so its branch that clones
  is never taken.
\<close>

fun set_subTokens :: "Token \<Rightarrow> Token list \<Rightarrow> Token" where
  "set_subTokens (Container _) ts = Container ts"
| "set_subTokens (InlineHtmlBlock _ b) ts = InlineHtmlBlock ts b"
| "set_subTokens (ListItem _ b) ts = ListItem ts b"
| "set_subTokens (UnorderedList _) ts = UnorderedList ts"
| "set_subTokens (OrderedList _) ts = OrderedList ts"
| "set_subTokens (BlockQuote _) ts = BlockQuote ts"
| "set_subTokens (Paragraph _) ts = Paragraph ts"
| "set_subTokens t ts = t"

lemma subTokens_smaller [termination_simp]: "subTokens t = Some ts \<Longrightarrow> u \<in> set ts \<Longrightarrow> size u < size t"
  by (cases t) (auto simp: less_Suc_eq_le intro: size_list_estimation')

function processSpanElements :: "regex \<Rightarrow> LinkIds \<Rightarrow> Token \<Rightarrow> Token list run" where
  "processSpanElements rx idTable t =
     (case subTokens t of
        Some ts \<Rightarrow>
          run_bind (run_map (processSpanElements rx idTable) ts) (\<lambda>ts'. ret [set_subTokens t (concat ts')])
      | None \<Rightarrow>
          (case t of
             RawText s markup \<Rightarrow>
               run_bind (RawText_processSpanElements rx idTable s markup) (\<lambda>r. ret
                 (case r of
                    None \<Rightarrow> [t]
                  | Some ts \<Rightarrow> if length ts > 1 then [Container ts] else ts))
           | _ \<Rightarrow> ret [t]))"
  by pat_completeness auto
termination
  by (relation "measure (\<lambda>(_, _, t). size t)") (auto simp: subTokens_smaller)

declare processSpanElements.simps [simp del]

end
