(* ===== verification/Markdown_Blocks.thy ===== *)
theory Markdown_Blocks
  imports Markdown_Tokens Run
begin

text \<open>
  The block parsers of \<open>markdown.cpp\<close>: they look at the tokens of a container from an iterator on.
  The iterator and the end are the list of the tokens from there on; a parser returns what it has
  found and the list from the iterator it leaves. Reading the text of a token that has none, or of the
  end, is undefined.
\<close>

definition text_of :: "Token \<Rightarrow> string outcome" where
  "text_of t = (case Token_text t of None \<Rightarrow> Inl Undefined_behaviour | Some s \<Rightarrow> Inr s)"

text \<open>The test most parsers start with, and the line it is about.\<close>

definition markup_line :: "Token \<Rightarrow> string option" where
  "markup_line t = (if \<not> Token_isBlankLine t \<and> canContainMarkup t then Token_text t else None)"

definition matches :: "regex \<Rightarrow> string \<Rightarrow> string \<Rightarrow> bool" where
  "matches rx expression s \<longleftrightarrow> rx_match rx expression s \<noteq> None"

definition isBlankLine :: "regex \<Rightarrow> string \<Rightarrow> bool" where
  "isBlankLine rx line = matches rx '' {0,3}(<--(.*)-- *> *)* *'' line"

section \<open>Inline HTML\<close>

record HtmlTagInfo =
  tagName :: string
  extra :: string
  isClosingTag :: bool
  lengthOfToken :: nat

definition cHtmlTokenSource :: string where
  "cHtmlTokenSource = backslashed ''<((/?)([a-zA-Z0-9]+)(?:( +[a-zA-Z0-9]+?(?: ?= ?(\"|').*?~5))*? */? *))>''"

datatype ParseHtmlTagFlags = cAlone | cStarts

definition parseHtmlTag :: "regex \<Rightarrow> string \<Rightarrow> ParseHtmlTagFlags \<Rightarrow> HtmlTagInfo option" where
  "parseHtmlTag rx s flags =
     map_option (\<lambda>(_, m).
       \<lparr>tagName = cap m 3, extra = cap m 4, isClosingTag = cap m 2 \<noteq> [], lengthOfToken = length (cap m 0)\<rparr>)
     (rx_search rx
        (case flags of cAlone \<Rightarrow> ''^'' @ cHtmlTokenSource @ ''$'' | cStarts \<Rightarrow> ''^'' @ cHtmlTokenSource) s)"

partial_function (option) parseInlineHtmlText_loop :: "string \<Rightarrow> regex \<Rightarrow> Token list \<Rightarrow> Token list run" where
  "parseInlineHtmlText_loop s rx r =
     (case rx_search rx cHtmlTokenSource s of
        None \<Rightarrow> ret (r @ [InlineHtmlContents (s @ [LF])])
      | Some (pos, m) \<Rightarrow>
          parseInlineHtmlText_loop (drop (pos + length (cap m 0)) s) rx
            (r @ (if pos = 0 then [] else [InlineHtmlContents (take pos s)]) @ [HtmlTag (cap m 1)]))"

definition parseInlineHtmlText :: "regex \<Rightarrow> string \<Rightarrow> Token list run" where
  "parseInlineHtmlText rx src = parseInlineHtmlText_loop src rx []"

definition isHtmlCommentStart :: "regex \<Rightarrow> string \<Rightarrow> bool" where
  "isHtmlCommentStart rx s \<longleftrightarrow> rx_search rx ''^<!--'' s \<noteq> None"

definition isHtmlCommentEnd :: "regex \<Rightarrow> string \<Rightarrow> bool" where
  "isHtmlCommentEnd rx s = matches rx ''.*-- *>$'' s"

text \<open>
  The two \<open>do\<close> loops. \<open>is_first\<close> says that the token is the block's first, \<open>convert\<close> is what the
  token becomes, \<open>last_line\<close> the test of the last line. The result has the contents, the number of
  lines and the tokens from the block's last one on.
\<close>

fun html_lines ::
  "(Token \<Rightarrow> Token list run) \<Rightarrow> (string \<Rightarrow> bool) \<Rightarrow> bool \<Rightarrow> Token list \<Rightarrow> (Token list \<times> nat \<times> Token list) run" where
  "html_lines convert last_line is_first [] = fail Undefined_behaviour"
| "html_lines convert last_line is_first (t # rest) =
     run_bind (convert t) (\<lambda>contents.
       if rest = [] \<or>
          Token_isBlankLine (hd rest) \<and>
            (case Token_text t of None \<Rightarrow> False | Some line \<Rightarrow> is_first \<or> last_line line)
       then ret (contents, 1, t # rest)
       else run_bind (html_lines convert last_line False rest) (\<lambda>(contents', n, ts). ret
         (contents @ contents', Suc n, ts)))"

definition html_line :: "regex \<Rightarrow> Token \<Rightarrow> Token list run" where
  "html_line rx t = (case Token_text t of Some s \<Rightarrow> parseInlineHtmlText rx s | None \<Rightarrow> ret [t])"

definition comment_line :: "Token \<Rightarrow> Token list run" where
  "comment_line t = ret (case Token_text t of Some s \<Rightarrow> [InlineHtmlComment (s @ [LF])] | None \<Rightarrow> [t])"

definition parseInlineHtml :: "regex \<Rightarrow> Token list \<Rightarrow> (Token option \<times> Token list) run" where
  "parseInlineHtml rx ts =
     (case Token_text (hd ts) of
        None \<Rightarrow> ret (None, ts)
      | Some line \<Rightarrow>
          let tagInfo = parseHtmlTag rx line cStarts in
          if tagInfo \<noteq> None \<and> isValidTag (tagName (the tagInfo)) False > 1 then
            run_bind (html_lines (html_line rx) (\<lambda>s. parseHtmlTag rx s cAlone \<noteq> None) True ts)
              (\<lambda>(contents, n, ts'). ret
                (if n > 1 \<or> isValidTag (tagName (the tagInfo)) True > 1
                 then (Some (InlineHtmlBlock contents False), ts') else (None, ts)))
          else if isHtmlCommentStart rx line then
            run_bind (html_lines comment_line (isHtmlCommentEnd rx) True ts)
              (\<lambda>(contents, _, ts'). ret (Some (InlineHtmlBlock contents False), ts'))
          else ret (None, ts))"

section \<open>Code blocks\<close>

text \<open>The line of a code block, with line feeds for the blank lines before it, and the tokens after it.\<close>

fun isCodeBlockLine :: "Token list \<Rightarrow> (string \<times> Token list) option" where
  "isCodeBlockLine [] = None"
| "isCodeBlockLine (t # ts) =
     (if Token_isBlankLine t then map_option (\<lambda>(s, rest). (LF # s, rest)) (isCodeBlockLine ts)
      else
        (case Token_text t of
           None \<Rightarrow> None
         | Some line \<Rightarrow>
             if canContainMarkup t \<and> 4 \<le> length line \<and> take 4 line = [SPACE, SPACE, SPACE, SPACE]
             then Some (drop 4 line, ts) else None))"

lemma isCodeBlockLine_shorter: "isCodeBlockLine ts = Some (s, rest) \<Longrightarrow> length rest < length ts"
  by (induction ts arbitrary: s) (auto split: if_split_asm option.splits)

function code_block_lines :: "Token list \<Rightarrow> string \<times> Token list" where
  "code_block_lines ts =
     (case isCodeBlockLine ts of
        None \<Rightarrow> ([], ts)
      | Some (s, rest) \<Rightarrow> (case code_block_lines rest of (out, ts') \<Rightarrow> (s @ [LF] @ out, ts')))"
  by pat_completeness auto
termination
  by (relation "measure length") (auto dest: isCodeBlockLine_shorter)

declare code_block_lines.simps [simp del]

definition parseCodeBlock :: "Token list \<Rightarrow> Token option \<times> Token list" where
  "parseCodeBlock ts =
     (if Token_isBlankLine (hd ts) \<or> isCodeBlockLine ts = None then (None, ts)
      else (case code_block_lines ts of (out, ts') \<Rightarrow> (Some (CodeBlock out), ts')))"

section \<open>Block quotes\<close>

definition cBlockQuoteExpression :: string where
  "cBlockQuoteExpression = ''^((?: {0,3}>)+) (.*)$''"

definition quote_continuation :: "nat \<Rightarrow> string" where
  "quote_continuation quoteLevel = ''^((?: {0,3}>){'' @ nat_to_string quoteLevel @ ''}) ?(.*)$''"

definition quote_match :: "regex \<Rightarrow> string \<Rightarrow> Token \<Rightarrow> string option list option outcome" where
  "quote_match rx continuation t = map_sum (\<lambda>e. e) (rx_match rx continuation) (text_of t)"

definition quote_token :: "regex \<Rightarrow> string \<Rightarrow> Token" where
  "quote_token rx s = (if isBlankLine rx s then BlankLine s else RawText s True)"

fun quote_lines :: "regex \<Rightarrow> string \<Rightarrow> Token list \<Rightarrow> (Token list \<times> Token list) run" where
  "quote_lines rx continuation [] = ret ([], [])"
| "quote_lines rx continuation (t # ts) =
     (if Token_isBlankLine t then
        (case ts of
           [] \<Rightarrow> ret ([], [])
         | u # us \<Rightarrow>
             run_bind (Some (quote_match rx continuation u)) (\<lambda>r.
               case r of
                 None \<Rightarrow> ret ([], t # ts)
               | Some m \<Rightarrow>
                   if cap m 1 = [] then ret ([], t # ts)
                   else run_bind (quote_lines rx continuation us) (\<lambda>(sub, rest). ret
                     (BlankLine [] # RawText (cap m 2) True # sub, rest))))
      else
        run_bind (Some (quote_match rx continuation t)) (\<lambda>r.
          case r of
            None \<Rightarrow> ret ([], t # ts)
          | Some m \<Rightarrow>
              if capture m 2 = None then fail Assertion_failed
              else run_bind (quote_lines rx continuation ts) (\<lambda>(sub, rest). ret
                (quote_token rx (cap m 2) # sub, rest))))"

definition parseBlockQuote :: "regex \<Rightarrow> Token list \<Rightarrow> (Token option \<times> Token list) run" where
  "parseBlockQuote rx ts =
     (case Option.bind (markup_line (hd ts)) (rx_match rx cBlockQuoteExpression) of
        None \<Rightarrow> ret (None, ts)
      | Some m \<Rightarrow>
          run_bind (quote_lines rx (quote_continuation (countQuoteLevel (cap m 1))) (tl ts)) (\<lambda>(sub, rest). ret
            (Some (BlockQuote (RawText (cap m 2) True # sub)), rest)))"

section \<open>References, headers and rules\<close>

text \<open>A reference: the iterator stays on its last line, which is the next one when that has the title.\<close>

definition cReference :: string where
  "cReference = backslashed ''^ {0,3}~[(.+)~]: +<?([^ >]+)>?(?: *(?:('|\")(.*)~3)|(?:~((.*)~)))?$''"

definition cSeparateTitle :: string where
  "cSeparateTitle = backslashed ''^ *(?:(?:('|\")(.*)~1)|(?:~((.*)~))) *$''"

definition separate_title :: "regex \<Rightarrow> Token list \<Rightarrow> string option" where
  "separate_title rx ts =
     (case ts of
        t # u # _ \<Rightarrow>
          (case Option.bind (Token_text u) (rx_match rx cSeparateTitle) of
             None \<Rightarrow> None
           | Some m \<Rightarrow> Some (if capture m 2 \<noteq> None then cap m 2 else cap m 3))
      | _ \<Rightarrow> None)"

definition parseReference :: "regex \<Rightarrow> Token list \<Rightarrow> LinkIds \<Rightarrow> bool \<times> Token list \<times> LinkIds" where
  "parseReference rx ts idTable =
     (case Option.bind (Token_text (hd ts)) (rx_match rx cReference) of
        None \<Rightarrow> (False, ts, idTable)
      | Some m \<Rightarrow>
          if capture m 4 \<noteq> None then (True, ts, LinkIds_add (cap m 1) (cap m 2) (cap m 4) idTable)
          else if capture m 5 \<noteq> None then (True, ts, LinkIds_add (cap m 1) (cap m 2) (cap m 5) idTable)
          else
            (case separate_title rx ts of
               Some title \<Rightarrow> (True, tl ts, LinkIds_add (cap m 1) (cap m 2) title idTable)
             | None \<Rightarrow> (True, ts, LinkIds_add (cap m 1) (cap m 2) [] idTable)))"

definition parseHeader :: "regex \<Rightarrow> Token list \<Rightarrow> Token option \<times> Token list" where
  "parseHeader rx ts =
     (case markup_line (hd ts) of
        None \<Rightarrow> (None, ts)
      | Some line \<Rightarrow>
          (case rx_match rx ''^(#{1,6}) +(.*?) *#*$'' line of
             Some m \<Rightarrow> (Some (Header (length (cap m 1)) (cap m 2)), ts)
           | None \<Rightarrow>
               (case ts of
                  t # u # us \<Rightarrow>
                    (case Option.bind (markup_line u) (rx_match rx (backslashed ''^([-=])~1*$'')) of
                       Some m \<Rightarrow> (Some (Header (if cap m 1 \<noteq> [] \<and> hd (cap m 1) = CHR ''='' then 1 else 2) line), u # us)
                     | None \<Rightarrow> (None, ts))
                | _ \<Rightarrow> (None, ts))))"

definition parseHorizontalRule :: "regex \<Rightarrow> Token list \<Rightarrow> Token option" where
  "parseHorizontalRule rx ts =
     (case markup_line (hd ts) of
        None \<Rightarrow> None
      | Some line \<Rightarrow> if matches rx (backslashed ''^ {0,3}((?:-|~*|_) *){3,}$'') line then Some (HtmlTag ''hr/'') else None)"

end
