(* ===== verification/Markdown_Lists.thy ===== *)
theory Markdown_Lists
  imports Markdown_Blocks
begin

text \<open>
  \<open>parseListBlock\<close> of \<open>markdown.cpp\<close>. It calls itself for a list in a list, from inside its loop;
  here the loop is the recursive function, and what comes before and after it are \<open>list_start\<close> and
  \<open>list_end\<close>.
\<close>

definition cUnorderedListExpression :: string where
  "cUnorderedListExpression = ''^( *)([*+-]) +([^*-].*)$''"

definition cOrderedListExpression :: string where
  "cOrderedListExpression = backslashed ''^( *)([0-9]+)~. +(.*)$''"

definition cContinuedItemExpression :: string where
  "cContinuedItemExpression = ''^ *([^ ].*)$''"

text \<open>The local variables: the type, the expressions made from the indent, what has been collected.\<close>

record ListState =
  is_ordered :: bool
  indent :: nat
  nextItemExpression :: string
  listTokens :: "Token list"
  subItemTokens :: "Token list"
  itemCount :: nat
  setParagraphMode :: bool

definition spaces :: "nat \<Rightarrow> string" where
  "spaces n = replicate n SPACE"

definition next_unordered :: "nat \<Rightarrow> string \<Rightarrow> string" where
  "next_unordered n startChar = ''^'' @ spaces n @ [BACKSLASH] @ startChar @ '' +([^*-].*)$''"

definition next_ordered :: "nat \<Rightarrow> string" where
  "next_ordered n = ''^'' @ spaces n @ backslashed ''[0-9]+~. +(.*)$''"

definition startSublistExpression :: "ListState \<Rightarrow> string" where
  "startSublistExpression st = ''^'' @ spaces (indent st) @ backslashed '' +(([*+-])|([0-9]+~.)) +.*$''"

definition continuedAfterBlankLineExpression :: "ListState \<Rightarrow> string" where
  "continuedAfterBlankLineExpression st = ''^ {'' @ nat_to_string (indent st + 4) @ ''}([^ ].*)$''"

definition codeBlockAfterBlankLineExpression :: "ListState \<Rightarrow> string" where
  "codeBlockAfterBlankLineExpression st = ''^ {'' @ nat_to_string (indent st + 8) @ ''}(.*)$''"

text \<open>A line that starts a list; \<open>sub\<close> says that it may be indented by four and more.\<close>

definition new_ListState :: "bool \<Rightarrow> nat \<Rightarrow> string \<Rightarrow> string \<Rightarrow> ListState" where
  "new_ListState ordered n expression s =
     \<lparr>is_ordered = ordered, indent = n, nextItemExpression = expression, listTokens = [],
      subItemTokens = [RawText s True], itemCount = 1, setParagraphMode = False\<rparr>"

definition list_start :: "regex \<Rightarrow> bool \<Rightarrow> Token \<Rightarrow> ListState option" where
  "list_start rx sub t =
     (case markup_line t of
        None \<Rightarrow> None
      | Some line \<Rightarrow>
          (case rx_match rx cUnorderedListExpression line of
             Some m \<Rightarrow>
               let n = length (cap m 1) in
               if sub \<or> n < 4 then
                 Some (new_ListState False n
                   (next_unordered n (take 1 (cap m 2))) (cap m 3))
               else None
           | None \<Rightarrow>
               (case rx_match rx cOrderedListExpression line of
                  Some m \<Rightarrow>
                    let n = length (cap m 1) in
                    if sub \<or> n < 4 then
                      Some (new_ListState True n (next_ordered n) (cap m 3))
                    else None
                | None \<Rightarrow> None)))"

text \<open>The pending item becomes a \<open>ListItem\<close>.\<close>

definition end_item :: "ListState \<Rightarrow> ListState" where
  "end_item st =
     (if subItemTokens st = [] then st
      else st\<lparr>listTokens := listTokens st @ [ListItem (subItemTokens st) True], subItemTokens := []\<rparr>)"

definition add_sub :: "Token list \<Rightarrow> ListState \<Rightarrow> ListState" where
  "add_sub ts st = st\<lparr>subItemTokens := subItemTokens st @ ts\<rparr>"

definition next_item :: "string \<Rightarrow> ListState \<Rightarrow> ListState" where
  "next_item s st = (let st = end_item st in
     st\<lparr>subItemTokens := [RawText s True], itemCount := itemCount st + 1\<rparr>)"

definition count_item :: "ListState \<Rightarrow> ListState" where
  "count_item st = st\<lparr>itemCount := itemCount st + 1\<rparr>"

definition paragraph_mode :: "ListState \<Rightarrow> ListState" where
  "paragraph_mode st = st\<lparr>setParagraphMode := True\<rparr>"

text \<open>The list token: in paragraph mode its items may hold paragraphs.\<close>

fun allow_paragraphs :: "Token \<Rightarrow> Token" where
  "allow_paragraphs (ListItem ts _) = ListItem ts False"
| "allow_paragraphs t = t"

definition new_list :: "ListState \<Rightarrow> Token" where
  "new_list st =
     (let items = (if setParagraphMode st then map allow_paragraphs (listTokens st) else listTokens st) in
      if is_ordered st then OrderedList items else UnorderedList items)"

definition list_end :: "Token list \<Rightarrow> ListState \<times> Token list \<Rightarrow> Token option \<times> Token list" where
  "list_end ts r =
     (case r of (st, rest) \<Rightarrow>
        let st = end_item st in
        if itemCount st > 1 \<or> indent st \<noteq> 0 then (Some (new_list st), rest) else (None, ts))"

text \<open>
  The lines of a code block in an item. A blank line looks at the token after it, without a check
  that there is one and that it has a text.
\<close>

fun item_code_lines :: "regex \<Rightarrow> string \<Rightarrow> Token list \<Rightarrow> (string \<times> Token list) outcome" where
  "item_code_lines rx code [] = Inr ([], [])"
| "item_code_lines rx code [t] =
     (if Token_isBlankLine t then Inl Undefined_behaviour
      else
        (case Option.bind (Token_text t) (rx_match rx code) of
           None \<Rightarrow> Inr ([], [t])
         | Some m \<Rightarrow> Inr (cap m 1 @ [LF], [])))"
| "item_code_lines rx code (t # u # ts) =
     (if Token_isBlankLine t then
        outcome_bind (text_of u) (\<lambda>nextLine.
          (case rx_match rx code nextLine of
             None \<Rightarrow> Inr ([], t # u # ts)
           | Some m \<Rightarrow>
               outcome_bind (item_code_lines rx code ts) (\<lambda>(s, rest).
                 Inr ([LF] @ cap m 1 @ [LF] @ s, rest))))
      else
        (case Option.bind (Token_text t) (rx_match rx code) of
           None \<Rightarrow> Inr ([], t # u # ts)
         | Some m \<Rightarrow>
             outcome_bind (item_code_lines rx code (u # ts)) (\<lambda>(s, rest). Inr (cap m 1 @ [LF] @ s, rest))))"

text \<open>What the loop does next: go on from the tokens given, parse a list in the list, or stop.\<close>

datatype list_turn =
    Go_on ListState "Token list"
  | Sublist ListState "Token list"
  | Stop ListState "Token list"

text \<open>A blank line: the line after it decides.\<close>

definition blank_turn :: "regex \<Rightarrow> ListState \<Rightarrow> Token list \<Rightarrow> list_turn outcome" where
  "blank_turn rx st rest =
     (case rest of
        t # u # ts \<Rightarrow>
          (case Token_text u of
             None \<Rightarrow> Inr (Stop st rest)
           | Some line \<Rightarrow>
               if matches rx (startSublistExpression st) line then
                 Inr (Sublist (count_item (paragraph_mode st)) (u # ts))
               else
                 (case rx_match rx (nextItemExpression st) line of
                    Some m \<Rightarrow> Inr (Go_on (next_item (cap m 1) (paragraph_mode st)) ts)
                  | None \<Rightarrow>
                      (case rx_match rx (continuedAfterBlankLineExpression st) line of
                         Some m \<Rightarrow>
                           if capture m 1 = None then Inl Assertion_failed
                           else Inr (Go_on (add_sub [BlankLine [], RawText (cap m 1) True] st) ts)
                       | None \<Rightarrow>
                           (case rx_match rx (codeBlockAfterBlankLineExpression st) line of
                              Some m \<Rightarrow>
                                if capture m 1 = None then Inl Assertion_failed
                                else outcome_bind (item_code_lines rx (codeBlockAfterBlankLineExpression st) ts)
                                  (\<lambda>(s, ts'). Inr (Go_on
                                    (add_sub [BlankLine [], CodeBlock (cap m 1 @ [LF] @ s)]
                                      (count_item (paragraph_mode st))) ts'))
                            | None \<Rightarrow> Inr (Stop (end_item st) rest)))))
      | _ \<Rightarrow> Inr (Stop (end_item st) []))"

definition text_turn :: "regex \<Rightarrow> ListState \<Rightarrow> string \<Rightarrow> Token list \<Rightarrow> list_turn outcome" where
  "text_turn rx st line rest =
     (if matches rx (startSublistExpression st) line then Inr (Sublist (count_item st) rest)
      else
        (case rx_match rx (nextItemExpression st) line of
           Some m \<Rightarrow> Inr (Go_on (next_item (cap m 1) st) (tl rest))
         | None \<Rightarrow>
             if matches rx cUnorderedListExpression line \<or> matches rx cOrderedListExpression line then
               Inr (Stop (end_item st) rest)
             else
               (case rx_match rx cContinuedItemExpression line of
                  Some m \<Rightarrow>
                    if capture m 1 = None then Inl Assertion_failed
                    else Inr (Go_on (add_sub [RawText (cap m 1) True] st) (tl rest))
                | None \<Rightarrow> Inl Assertion_failed)))"

definition list_turn_of :: "regex \<Rightarrow> ListState \<Rightarrow> Token list \<Rightarrow> list_turn outcome" where
  "list_turn_of rx st rest =
     (if Token_isBlankLine (hd rest) then blank_turn rx st rest
      else
        (case Token_text (hd rest) of
           Some line \<Rightarrow> text_turn rx st line rest
         | None \<Rightarrow> Inr (Stop (end_item st) rest)))"

text \<open>The loop. A line that looks like the start of a list in the list must be one: \<open>assert(p)\<close>.\<close>

partial_function (option) list_loop :: "Token list \<Rightarrow> regex \<Rightarrow> ListState \<Rightarrow> (ListState \<times> Token list) run" where
  "list_loop rest rx st =
     (if rest = [] then ret (st, [])
      else run_bind (Some (list_turn_of rx st rest)) (\<lambda>turn.
        case turn of
          Stop st' ts \<Rightarrow> ret (st', ts)
        | Go_on st' ts \<Rightarrow> list_loop ts rx st'
        | Sublist st' ts \<Rightarrow>
            (case list_start rx True (hd ts) of
               None \<Rightarrow> fail Assertion_failed
             | Some sub \<Rightarrow>
                 run_bind (list_loop (tl ts) rx sub) (\<lambda>r.
                   (case fst (list_end ts r) of
                      None \<Rightarrow> fail Assertion_failed
                    | Some p \<Rightarrow> list_loop (snd (list_end ts r)) rx (add_sub [p] st'))))))"

definition parseListBlock :: "regex \<Rightarrow> bool \<Rightarrow> Token list \<Rightarrow> (Token option \<times> Token list) run" where
  "parseListBlock rx sub ts =
     (case list_start rx sub (hd ts) of
        None \<Rightarrow> ret (None, ts)
      | Some st \<Rightarrow> run_bind (list_loop (tl ts) rx st) (\<lambda>r. ret (list_end ts r)))"

text \<open>Induction over the turns of a loop that has returned.\<close>

lemma list_end_rest: "list_end ts r = (Some p, rest) \<Longrightarrow> rest = snd r"
  by (auto simp: list_end_def Let_def split: prod.splits if_split_asm)

lemma list_loop_induct [consumes 1, case_names empty stop go sub]:
  assumes ret: "list_loop rest rx st = ret (st', ts)"
    and empty: "\<And>st. P [] st st []"
    and stop: "\<And>rest st st' ts. rest \<noteq> [] \<Longrightarrow> list_turn_of rx st rest = Inr (Stop st' ts) \<Longrightarrow> P rest st st' ts"
    and go: "\<And>rest st st1 ts1 st' ts. rest \<noteq> [] \<Longrightarrow> list_turn_of rx st rest = Inr (Go_on st1 ts1) \<Longrightarrow>
      P ts1 st1 st' ts \<Longrightarrow> P rest st st' ts"
    and sub: "\<And>rest st st1 ts1 sub st2 ts2 p st' ts. rest \<noteq> [] \<Longrightarrow>
      list_turn_of rx st rest = Inr (Sublist st1 ts1) \<Longrightarrow> list_start rx True (hd ts1) = Some sub \<Longrightarrow>
      P (tl ts1) sub st2 ts2 \<Longrightarrow> list_end ts1 (st2, ts2) = (Some p, ts2) \<Longrightarrow>
      P ts2 (add_sub [p] st1) st' ts \<Longrightarrow> P rest st st' ts"
  shows "P rest st st' ts"
proof -
  let ?Q = "\<lambda>rest rx' st (r :: (ListState \<times> Token list) outcome). rx' = rx \<longrightarrow> (case r of Inl e \<Rightarrow> True | Inr (st', ts) \<Rightarrow> P rest st st' ts)"
  have "?Q rest rx st (Inr (st', ts))"
  proof (rule list_loop.raw_induct [where P = ?Q, OF _ ret [unfolded ret_def]], goal_cases)
    case (1 f rest rx' st r)
    note body = "1"(2)
    show ?case
    proof (cases r)
      case (Inr x)
      obtain st' ts where x: "x = (st', ts)" by (cases x)
      note body = body [unfolded Inr x ret_def [symmetric]]
      have IH: "P rest st st' ts" if "f rest rx st = ret (st', ts)" for rest st st' ts
        using "1"(1) [of rest rx st "Inr (st', ts)"] that by (simp add: ret_def)
      have "P rest st st' ts" if rx: "rx' = rx"
      proof (cases "rest = []")
        case True
        with body empty show ?thesis by simp
      next
        case False
        with body [unfolded rx] obtain turn where turn: "list_turn_of rx st rest = Inr turn"
          and cont: "(case turn of
            Stop st' ts \<Rightarrow> ret (st', ts)
          | Go_on st' ts \<Rightarrow> f ts rx st'
          | Sublist st' ts \<Rightarrow>
              (case list_start rx True (hd ts) of
                 None \<Rightarrow> fail Assertion_failed
               | Some sub \<Rightarrow> run_bind (f (tl ts) rx sub) (\<lambda>r.
                   (case fst (list_end ts r) of
                      None \<Rightarrow> fail Assertion_failed
                    | Some p \<Rightarrow> f (snd (list_end ts r)) rx (add_sub [p] st'))))) = ret (st', ts)"
          by (cases "list_turn_of rx st rest") simp_all
        show ?thesis
        proof (cases turn)
          case (Stop st1 ts1)
          with cont stop [OF False] turn show ?thesis by simp
        next
          case (Go_on st1 ts1)
          with cont IH go [OF False] turn show ?thesis by simp
        next
          case (Sublist st1 ts1)
          with cont obtain sub r1 p where l: "list_start rx True (hd ts1) = Some sub"
            and f1: "f (tl ts1) rx sub = ret r1" and p: "fst (list_end ts1 r1) = Some p"
            and f2: "f (snd (list_end ts1 r1)) rx (add_sub [p] st1) = ret (st', ts)"
            by (auto simp: run_bind_eq_ret split: option.splits)
          have e: "list_end ts1 r1 = (Some p, snd r1)"
            using p list_end_rest [of ts1 r1 p "snd (list_end ts1 r1)"] by (metis prod.collapse)
          obtain st2 ts2 where r1: "r1 = (st2, ts2)" by (cases r1)
          have "P (tl ts1) sub st2 ts2" "P ts2 (add_sub [p] st1) st' ts"
            using IH f1 f2 e r1 by simp_all
          with sub [OF False _ l] turn Sublist e r1 show ?thesis by simp
        qed
      qed
      with Inr x show ?thesis by simp
    qed simp
  qed
  then show ?thesis by simp
qed

end
