(* ===== verification/Markdown_Document.thy ===== *)
theory Markdown_Document
  imports Markdown_Spans Markdown_Lists
begin

text \<open>
  \<open>markdown::Document\<close> of \<open>markdown.h\<close> and \<open>markdown.cpp\<close>: the lines of the input become tokens,
  and five passes over the tree of tokens make of them what is written as HTML. The destructor
  is left out; the debugging output is in \<open>Markdown_Debug\<close>.
\<close>

record Document =
  cSpacesPerTab :: nat
  mTokenContainer :: "Token list"
  mIdTable :: LinkIds
  mProcessed :: bool

definition new_Document :: Document where
  "new_Document = \<lparr>cSpacesPerTab = cSpacesPerInitialTab, mTokenContainer = [], mIdTable = [], mProcessed = False\<rparr>"

definition line_token :: "regex \<Rightarrow> string \<Rightarrow> Token" where
  "line_token rx line = (if isBlankLine rx line then BlankLine line else RawText line True)"

definition Document_read :: "regex \<Rightarrow> string \<Rightarrow> Document \<Rightarrow> bool \<times> Document" where
  "Document_read rx src doc =
     (if mProcessed doc then (False, doc)
      else (True, doc\<lparr>mTokenContainer :=
        mTokenContainer doc @ map (line_token rx) (read_lines (cSpacesPerTab doc) src)\<rparr>))"

section \<open>Tags over two lines\<close>

definition cHtmlTokenStart :: string where
  "cHtmlTokenStart = backslashed ''<((/?)([a-zA-Z0-9]+)(?:( +[a-zA-Z0-9]+?(?: ?= ?(\"|').*?~5))*? */? *))$''"

definition cHtmlTokenEnd :: string where
  "cHtmlTokenEnd = backslashed ''^ *((?:( +[a-zA-Z0-9]+?(?: ?= ?(\"|').*?~3))*? */? *))>''"

fun mergeMultilineHtmlTags :: "regex \<Rightarrow> Token list \<Rightarrow> Token list" where
  "mergeMultilineHtmlTags rx [] = []"
| "mergeMultilineHtmlTags rx [t] = [t]"
| "mergeMultilineHtmlTags rx (t # u # ts) =
     (case (Token_text t, Token_text u) of
        (Some s, Some s') \<Rightarrow>
          if matches rx cHtmlTokenStart s \<and> matches rx cHtmlTokenEnd s'
          then RawText (s @ '' '' @ s') True # mergeMultilineHtmlTags rx ts
          else t # mergeMultilineHtmlTags rx (u # ts)
      | _ \<Rightarrow> t # mergeMultilineHtmlTags rx (u # ts))"

section \<open>Inline HTML and references\<close>

text \<open>
  A parser leaves the iterator on the last token it has used, and the loop goes on after it. The
  pass is a loop whose rest gets shorter; \<open>inline_turn\<close> is one turn.
\<close>

definition inline_turn :: "regex \<Rightarrow> Token list \<Rightarrow> LinkIds \<Rightarrow> Token list \<Rightarrow> (Token list \<times> LinkIds \<times> Token list) run" where
  "inline_turn rx processed idTable ts =
     (if Token_text (hd ts) = None then ret (processed @ [hd ts], idTable, tl ts)
      else
        run_bind
          (if processed = [] \<or> Token_isBlankLine (last processed) then parseInlineHtml rx ts else ret (None, ts))
          (\<lambda>(inlineHtml, ts').
            case inlineHtml of
              Some t \<Rightarrow> ret (processed @ [t], idTable, tl ts')
            | None \<Rightarrow>
                (case parseReference rx ts' idTable of
                   (True, ts'', idTable') \<Rightarrow> ret (processed, idTable', tl ts'')
                 | (False, _, _) \<Rightarrow> ret (processed @ [hd ts'], idTable, tl ts'))))"

partial_function (option) inline_loop ::
  "Token list \<Rightarrow> regex \<Rightarrow> Token list \<Rightarrow> LinkIds \<Rightarrow> (Token list \<times> LinkIds) run" where
  "inline_loop ts rx processed idTable =
     (if ts = [] then ret (processed, idTable)
      else run_bind (inline_turn rx processed idTable ts) (\<lambda>r.
        inline_loop (snd (snd r)) rx (fst r) (fst (snd r))))"

section \<open>Blocks\<close>

text \<open>
  The parsers in their order. A list, a quote and a code block leave the iterator after their last
  token, a header and a rule on it; the loop goes on after it in every case.
\<close>

definition parse_block :: "regex \<Rightarrow> Token list \<Rightarrow> (Token option \<times> Token list) run" where
  "parse_block rx ts =
     (case parseHeader rx ts of
        (Some t, ts') \<Rightarrow> ret (Some t, ts')
      | (None, _) \<Rightarrow>
          (case parseHorizontalRule rx ts of
             Some t \<Rightarrow> ret (Some t, ts)
           | None \<Rightarrow>
               run_bind (parseListBlock rx False ts) (\<lambda>(p, ts').
                 if p \<noteq> None then ret (p, ts')
                 else run_bind (parseBlockQuote rx ts) (\<lambda>(p, ts').
                   if p \<noteq> None then ret (p, ts')
                   else ret (parseCodeBlock ts)))))"

text \<open>\<open>ii==iie\<close> ends the loop, \<open>tl\<close> is its \<open>++ii\<close>.\<close>

partial_function (option) blocks_loop :: "Token list \<Rightarrow> regex \<Rightarrow> Token list \<Rightarrow> Token list run" where
  "blocks_loop ts rx processed =
     (if ts = [] then ret processed
      else if Token_text (hd ts) \<noteq> None then
        run_bind (parse_block rx ts) (\<lambda>r.
          case fst r of
            Some subitem \<Rightarrow>
              (if subTokens subitem = None then blocks_loop (tl (snd r)) rx (processed @ [subitem])
               else run_bind (blocks_loop (the (subTokens subitem)) rx []) (\<lambda>us.
                 blocks_loop (tl (snd r)) rx (processed @ [set_subTokens subitem us])))
          | None \<Rightarrow> blocks_loop (tl ts) rx (processed @ [hd ts]))
      else if isContainer (hd ts) then
        run_bind (blocks_loop (the (subTokens (hd ts))) rx []) (\<lambda>us.
          blocks_loop (tl ts) rx (processed @ [set_subTokens (hd ts) us]))
      else blocks_loop (tl ts) rx processed)"

section \<open>Paragraphs\<close>

text \<open>What the call adds to the tokens; the text and the paragraph's tokens are empty after it.\<close>

definition flushParagraph :: "string \<Rightarrow> Token list \<Rightarrow> bool \<Rightarrow> Token list" where
  "flushParagraph paragraphText paragraphTokens noParagraphs =
     (let paragraphTokens = paragraphTokens @ raw_text paragraphText in
      if paragraphTokens = [] then []
      else if noParagraphs then
        (if length paragraphTokens > 1 then [Container paragraphTokens] else paragraphTokens)
      else [Paragraph paragraphTokens])"

definition joined :: "string \<Rightarrow> string \<Rightarrow> string" where
  "joined paragraphText s = (if paragraphText = [] then s else paragraphText @ '' '' @ s)"

fun paragraph_lines :: "regex \<Rightarrow> bool \<Rightarrow> string \<Rightarrow> Token list \<Rightarrow> Token list" where
  "paragraph_lines rx noPara paragraphText [] = flushParagraph paragraphText [] noPara"
| "paragraph_lines rx noPara paragraphText (t # ts) =
     (case Token_text t of
        Some s \<Rightarrow>
          if canContainMarkup t \<and> \<not> inhibitParagraphs t then
            (case rx_match rx ''^(.*)  $'' s of
               Some m \<Rightarrow>
                 flushParagraph (joined paragraphText (cap m 1)) [] noPara @ HtmlTag ''br/'' #
                 paragraph_lines rx noPara [] ts
             | None \<Rightarrow> paragraph_lines rx noPara (joined paragraphText s) ts)
          else flushParagraph paragraphText [] noPara @ t # paragraph_lines rx noPara [] ts
      | None \<Rightarrow> flushParagraph paragraphText [] noPara @ t # paragraph_lines rx noPara [] ts)"

function processParagraphLines :: "regex \<Rightarrow> Token \<Rightarrow> Token" where
  "processParagraphLines rx t =
     (case subTokens t of
        None \<Rightarrow> t
      | Some ts \<Rightarrow>
          set_subTokens t (paragraph_lines rx (inhibitParagraphs t) [] (map (processParagraphLines rx) ts)))"
  by pat_completeness auto
termination
  by (relation "measure (\<lambda>(_, t). size t)") (auto simp: subTokens_smaller)

declare processParagraphLines.simps [simp del]

section \<open>The document\<close>

text \<open>The root is a \<open>Container\<close>, changed in place: what is left of it are its tokens.\<close>

definition span_tokens :: "regex \<Rightarrow> LinkIds \<Rightarrow> Token list \<Rightarrow> Token list run" where
  "span_tokens rx idTable ts =
     run_bind (run_map (processSpanElements rx idTable) ts) (\<lambda>ts'. ret (concat ts'))"

definition paragraph_tokens :: "regex \<Rightarrow> Token list \<Rightarrow> Token list" where
  "paragraph_tokens rx ts = paragraph_lines rx False [] (map (processParagraphLines rx) ts)"

text \<open>The first four passes, which give the tree and the link definitions, and the last one.\<close>

definition document_tree :: "regex \<Rightarrow> Document \<Rightarrow> (Token list \<times> LinkIds) run" where
  "document_tree rx doc =
     run_bind (inline_loop (mergeMultilineHtmlTags rx (mTokenContainer doc)) rx [] (mIdTable doc))
       (\<lambda>(ts, idTable). run_bind (blocks_loop ts rx []) (\<lambda>ts. ret (paragraph_tokens rx ts, idTable)))"

definition Document_process :: "regex \<Rightarrow> Document \<Rightarrow> Document run" where
  "Document_process rx doc =
     (if mProcessed doc then ret doc
      else run_bind (document_tree rx doc) (\<lambda>(ts, idTable).
        run_bind (span_tokens rx idTable ts) (\<lambda>ts.
          ret (doc\<lparr>mTokenContainer := ts, mIdTable := idTable, mProcessed := True\<rparr>))))"

definition Document_write :: "regex \<Rightarrow> Document \<Rightarrow> (string \<times> Document) run" where
  "Document_write rx doc =
     run_bind (Document_process rx doc) (\<lambda>doc.
       if \<not> markers_sized (Container (mTokenContainer doc)) then fail Assertion_failed
       else ret (writeAsHtml rx (Container (mTokenContainer doc)), doc))"

end
