(* ===== verification/Simple_Handlers.thy ===== *)
theory Simple_Handlers
  imports Handler
begin

text \<open>
  The handlers without a configuration: \<open>src/echo_handler.cc\<close>,
  \<open>src/not_found_handler.cc\<close>, \<open>src/status_handler.cc\<close> and
  \<open>src/holding_handler.cc\<close>. Their objects have only the configuration map of the base class.
\<close>

section \<open>EchoHandler\<close>

definition EchoHandler_Init ::
  "string \<Rightarrow> NginxConfig \<Rightarrow> RequestHandler \<Rightarrow> (Status \<times> RequestHandler) outcome" where
  "EchoHandler_Init uri_prefix config h = Inr (OK, h)"

definition EchoHandler_HandleRequest ::
  "environment \<Rightarrow> RequestHandler \<Rightarrow> Request \<Rightarrow> Response option \<Rightarrow> RequestHandler handling" where
  "EchoHandler_HandleRequest e h request response =
     Some (case response of
       None \<Rightarrow> Inr (ERROR, None, h)
     | Some r \<Rightarrow>
         Inr (OK, Some (SetBody (raw_request request)
                         (AddHeader CONTENT_TYPE ''text/plain'' (SetStatus OK_200 r))), h))"

section \<open>NotFoundHandler\<close>

definition not_found_html :: string where
  "not_found_html = ''<!doctype html><html><body><h1>404 Not Found</h1></body></html>''"

definition NotFoundHandler_Init ::
  "string \<Rightarrow> NginxConfig \<Rightarrow> RequestHandler \<Rightarrow> (Status \<times> RequestHandler) outcome" where
  "NotFoundHandler_Init uri_prefix config h = Inr (OK, h)"

definition NotFoundHandler_HandleRequest ::
  "environment \<Rightarrow> RequestHandler \<Rightarrow> Request \<Rightarrow> Response option \<Rightarrow> RequestHandler handling" where
  "NotFoundHandler_HandleRequest e h request response =
     Some (on_response response (\<lambda>r.
       Inr (OK, Some (SetBody not_found_html
                       (AddHeader CONTENT_TYPE ''text/html'' (SetStatus NOT_FOUND r))), h)))"

section \<open>StatusHandler\<close>

definition StatusHandler_Init ::
  "string \<Rightarrow> NginxConfig \<Rightarrow> RequestHandler \<Rightarrow> (Status \<times> RequestHandler) outcome" where
  "StatusHandler_Init uri_prefix config h = Inr (OK, h)"

text \<open>A dangling pointer to the server status is undefined behaviour.\<close>

definition StatusHandler_HandleRequest ::
  "environment \<Rightarrow> RequestHandler \<Rightarrow> Request \<Rightarrow> Response option \<Rightarrow> RequestHandler handling" where
  "StatusHandler_HandleRequest e h request response =
     Some (on_response response (\<lambda>r.
       let r1 = AddHeader CONTENT_TYPE ''text/html'' (SetStatus OK_200 r) in
       case getServerStatus request of
         None \<Rightarrow> Inr (ERROR, Some r1, h)
       | Some a \<Rightarrow>
           (case heap_of e a of
              None \<Rightarrow> Inl Undefined_behaviour
            | Some st \<Rightarrow> Inr (OK, Some (SetBody (ToHtml st) r1), h))))"

section \<open>HoldingHandler\<close>

definition HoldingHandler_Init ::
  "string \<Rightarrow> NginxConfig \<Rightarrow> RequestHandler \<Rightarrow> (Status \<times> RequestHandler) outcome" where
  "HoldingHandler_Init uri_prefix config h = Inr (OK, h)"

text \<open>\<open>while(true) {}\<close>.\<close>

partial_function (option) hold :: "RequestHandler \<Rightarrow> Response option \<Rightarrow> RequestHandler handling" where
  "hold h response = hold h response"

definition HoldingHandler_HandleRequest ::
  "environment \<Rightarrow> RequestHandler \<Rightarrow> Request \<Rightarrow> Response option \<Rightarrow> RequestHandler handling" where
  "HoldingHandler_HandleRequest e h request response = hold h response"

lemma hold_None [simp]: "hold h response = None"
proof -
  have "hold h response = Some y \<Longrightarrow> False" for y
    by (erule hold.raw_induct [of "\<lambda>h r y. False", rotated]) blast
  then show ?thesis by (cases "hold h response") blast+
qed

section \<open>The contract\<close>

interpretation echo: request_handler EchoHandler_HandleRequest
  by unfold_locales (auto simp: EchoHandler_HandleRequest_def)

interpretation not_found: request_handler NotFoundHandler_HandleRequest
  by unfold_locales (auto simp: NotFoundHandler_HandleRequest_def)

interpretation status_page: request_handler StatusHandler_HandleRequest
  by unfold_locales
     (auto simp: StatusHandler_HandleRequest_def Let_def split: option.splits)

interpretation holding: request_handler HoldingHandler_HandleRequest
  by unfold_locales (simp_all add: HoldingHandler_HandleRequest_def)

end
