(* ===== verification/Static_Handler.thy ===== *)
theory Static_Handler
  imports Markdown_Document Simple_Handlers
begin

text \<open>
  \<open>StaticHandler\<close> of \<open>src/static_handler.cc\<close>: serves the files below a root
  directory. The path of a file is the root followed by what the URI has after the prefix.
\<close>

record StaticHandler = RequestHandler +
  static_uri_prefix :: string
  root :: string

definition new_StaticHandler :: StaticHandler where
  "new_StaticHandler = \<lparr>config_map = [], static_uri_prefix = [], root = []\<rparr>"

definition StaticHandler_Init ::
  "string \<Rightarrow> NginxConfig \<Rightarrow> StaticHandler \<Rightarrow> (Status \<times> StaticHandler) outcome" where
  "StaticHandler_Init uri_prefix config h =
     outcome_bind (ParseConfig config (config_map h)) (\<lambda>m.
       Inr (OK, h\<lparr>static_uri_prefix := uri_prefix, config_map := m,
                  root := config_value m ''root''\<rparr>))"

definition mime_map :: "(string \<times> string) list" where
  "mime_map =
     [(''.gif'', ''image/gif''), (''.htm'', ''text/html''), (''.html'', ''text/html''),
      (''.jpg'', ''image/jpeg''), (''.jpeg'', ''image/jpeg''), (''.png'', ''image/png'')]"

definition GetMimeType :: "string \<Rightarrow> string" where
  "GetMimeType extension =
     (case map_of mime_map extension of None \<Rightarrow> ''text/plain'' | Some t \<Rightarrow> t)"

text \<open>
  The inner block: an opened file goes to the response, Markdown as HTML. \<open>None\<close> is the
  \<open>return ERROR\<close> of a document that cannot be read. The conversion may fail and may not return.
\<close>

definition markdown_html :: "regex \<Rightarrow> string \<Rightarrow> string option run" where
  "markdown_html rx contents =
     (case Document_read rx contents new_Document of (results, doc) \<Rightarrow>
        if \<not> results then ret None
        else run_bind (Document_write rx doc) (\<lambda>(html, _). ret (Some html)))"

definition file_response :: "string \<Rightarrow> string \<Rightarrow> Response \<Rightarrow> Response" where
  "file_response extension content r =
     SetStatus OK_200 (AddHeader CONTENT_TYPE (GetMimeType extension) (SetBody content r))"

definition serve_file :: "environment \<Rightarrow> string \<Rightarrow> string \<Rightarrow> Response \<Rightarrow> Response option run" where
  "serve_file e absolute_path contents r =
     (let extension = fs_extension e absolute_path in
      if extension = ''.md''
      then run_bind (markdown_html (regex_engine e) contents) (\<lambda>html.
             ret (map_option (\<lambda>html. file_response ''.html'' html r) html))
      else ret (Some (file_response extension contents r)))"

text \<open>
  The nested conditions: the file to serve with its canonical path, or \<open>None\<close> where one of them
  fails and the code falls through to the not-found response.
\<close>

definition find_file ::
  "environment \<Rightarrow> string \<Rightarrow> string \<Rightarrow> (string \<times> string) option outcome" where
  "find_file e root_dir relative_path =
     outcome_bind (fs_exists e relative_path) (\<lambda>ex.
       if \<not> ex then Inr None
       else outcome_bind (fs_is_regular_file e relative_path) (\<lambda>reg.
         if \<not> reg then Inr None
         else outcome_bind (fs_canonical e relative_path) (\<lambda>absolute_path.
           outcome_bind (fs_canonical e root_dir) (\<lambda>absolute_root.
             if find_string (fs_filename e absolute_root) absolute_path = None then Inr None
             else Inr (map_option (\<lambda>contents. (absolute_path, contents))
                        (fs_open e absolute_path))))))"

definition StaticHandler_HandleRequest ::
  "environment \<Rightarrow> StaticHandler \<Rightarrow> Request \<Rightarrow> Response option \<Rightarrow> StaticHandler handling" where
  "StaticHandler_HandleRequest e h request response =
     (case response of
        None \<Rightarrow> Some (Inr (ERROR, None, h))
      | Some r \<Rightarrow>
          if \<not> under_prefix (static_uri_prefix h) (uri request) then Some (Inr (ERROR, Some r, h))
          else
            let relative_path = root h @ drop (length (static_uri_prefix h)) (uri request) in
            case find_file e (root h) relative_path of
              Inl ft \<Rightarrow> Some (Inl ft)
            | Inr (Some (absolute_path, contents)) \<Rightarrow>
                run_bind (serve_file e absolute_path contents r) (\<lambda>served. ret
                  (case served of
                     None \<Rightarrow> (ERROR, Some r, h)
                   | Some r' \<Rightarrow> (OK, Some r', h)))
            | Inr None \<Rightarrow>
                map_option (\<lambda>res. outcome_bind res (\<lambda>(_, p, _). Inr (OK, p, h)))
                  (NotFoundHandler_HandleRequest e new_RequestHandler request (Some r)))"

lemma serve_file_status:
  "serve_file e a c r = ret (Some r') \<Longrightarrow> raw_status r' = Some OK_200 \<and> response_grows r r'"
  by (auto simp: serve_file_def file_response_def Let_def run_bind_eq_ret split: if_splits)

text \<open>A call that returns gives the handler back as it was.\<close>

lemma StaticHandler_cases:
  assumes "StaticHandler_HandleRequest e h q (Some r) = Some (Inr (s, p, h'))"
  obtains (error) "s = ERROR" "p = Some r" "h' = h"
  | (served) r' where "s = OK" "p = Some r'" "h' = h" "raw_status r' = Some OK_200" "response_grows r r'"
  | (absent) "s = OK" "h' = h"
      "p = Some (SetBody not_found_html (AddHeader CONTENT_TYPE ''text/html'' (SetStatus NOT_FOUND r)))"
proof (cases "under_prefix (static_uri_prefix h) (uri q)")
  case False
  then show thesis using assms error by (simp add: StaticHandler_HandleRequest_def)
next
  case True
  let ?f = "find_file e (root h) (root h @ drop (length (static_uri_prefix h)) (uri q))"
  show thesis
  proof (cases ?f)
    case (Inl ft)
    then show ?thesis using assms True by (simp add: StaticHandler_HandleRequest_def Let_def)
  next
    case (Inr res)
    show ?thesis
    proof (cases res)
      case None
      then show ?thesis using assms True Inr absent
        by (simp add: StaticHandler_HandleRequest_def Let_def NotFoundHandler_HandleRequest_def)
    next
      case (Some ac)
      obtain a c where ac: "ac = (a, c)" by (cases ac)
      have "run_bind (serve_file e a c r) (\<lambda>served. ret
          (case served of None \<Rightarrow> (ERROR, Some r, h) | Some r' \<Rightarrow> (OK, Some r', h))) = ret (s, p, h')"
        using assms True Inr Some ac by (simp add: StaticHandler_HandleRequest_def Let_def ret_def)
      then obtain served where f: "serve_file e a c r = ret served"
        and eq: "(case served of None \<Rightarrow> (ERROR, Some r, h) | Some r' \<Rightarrow> (OK, Some r', h)) = (s, p, h')"
        by (auto simp: run_bind_eq_ret)
      show ?thesis
      proof (cases served)
        case None
        with eq error show ?thesis by simp
      next
        case (Some r')
        with eq have "s = OK" "p = Some r'" "h' = h" by simp_all
        moreover have "raw_status r' = Some OK_200" "response_grows r r'"
          using serve_file_status f Some by blast+
        ultimately show ?thesis by (rule served)
      qed
    qed
  qed
qed

interpretation static: request_handler StaticHandler_HandleRequest
proof
  fix e h q r s p h'
  assume "StaticHandler_HandleRequest e h q (Some r) = Some (Inr (s, p, h'))"
  then show "\<exists>r'. p = Some r' \<and> response_grows r r'"
    by (cases rule: StaticHandler_cases) auto
next
  fix e h q r r' h'
  assume "StaticHandler_HandleRequest e h q (Some r) = Some (Inr (OK, Some r', h'))"
  then show "raw_status r' \<noteq> None"
    by (cases rule: StaticHandler_cases) auto
qed

section \<open>Which file is served\<close>

text \<open>
  A file is served when it exists, is regular and can be opened, and the last component of the root's
  canonical path occurs anywhere in the canonical path of the file.
\<close>

lemma find_file_Some:
  "find_file e d p = Inr (Some (a, c)) \<longleftrightarrow>
     fs_exists e p = Inr True \<and> fs_is_regular_file e p = Inr True \<and> fs_canonical e p = Inr a \<and>
     (\<exists>b. fs_canonical e d = Inr b \<and> (\<exists>u v. a = u @ fs_filename e b @ v)) \<and> fs_open e a = Some c"
  by (cases "fs_exists e p"; cases "fs_is_regular_file e p"; cases "fs_canonical e p";
      cases "fs_canonical e d")
     (auto simp: find_file_def find_string_None)

lemma StaticHandler_serves:
  assumes "uri q = static_uri_prefix h @ t" "t \<noteq> []" "find_file e (root h) (root h @ t) = Inr (Some (a, c))"
    and "fs_extension e a \<noteq> ''.md''"
  shows "StaticHandler_HandleRequest e h q (Some r) =
    Some (Inr (OK, Some (SetStatus OK_200 (AddHeader CONTENT_TYPE (GetMimeType (fs_extension e a))
      (SetBody c r))), h))"
proof -
  have "under_prefix (static_uri_prefix h) (uri q)" using assms(1,2) by (auto simp: under_prefix_iff)
  with assms show ?thesis
    by (simp add: StaticHandler_HandleRequest_def Let_def serve_file_def file_response_def ret_def)
qed

lemma StaticHandler_markdown:
  assumes "uri q = static_uri_prefix h @ t" "t \<noteq> []" "find_file e (root h) (root h @ t) = Inr (Some (a, c))"
    and "fs_extension e a = ''.md''"
  shows "StaticHandler_HandleRequest e h q (Some r) =
    run_bind (markdown_html (regex_engine e) c) (\<lambda>html. ret (case html of
        None \<Rightarrow> (ERROR, Some r, h) | Some s \<Rightarrow> (OK, Some (file_response ''.html'' s r), h)))"
proof -
  have "under_prefix (static_uri_prefix h) (uri q)" using assms(1,2) by (auto simp: under_prefix_iff)
  moreover have "(case map_option (\<lambda>s. file_response ''.html'' s r) html of
        None \<Rightarrow> (ERROR, Some r, h) | Some r' \<Rightarrow> (OK, Some r', h)) =
      (case html of None \<Rightarrow> (ERROR, Some r, h) | Some s \<Rightarrow> (OK, Some (file_response ''.html'' s r), h))" for html
    by (cases html) simp_all
  ultimately show ?thesis using assms
    by (simp add: StaticHandler_HandleRequest_def Let_def serve_file_def run_bind_assoc)
qed

end
