(* ===== verification/S3_Handler.thy ===== *)
theory S3_Handler
  imports Handler
begin

text \<open>
  \<open>S3Handler\<close> of \<open>src/s3_handler.cc\<close>: runs \<open>get-s3-object.js\<close> in a shell and
  sends what it prints.
\<close>

record S3Handler = RequestHandler +
  s3_uri_prefix :: string
  bucket :: string

definition new_S3Handler :: S3Handler where
  "new_S3Handler = \<lparr>config_map = [], s3_uri_prefix = [], bucket = []\<rparr>"

definition S3Handler_Init ::
  "string \<Rightarrow> NginxConfig \<Rightarrow> S3Handler \<Rightarrow> (Status \<times> S3Handler) outcome" where
  "S3Handler_Init uri_prefix config h =
     outcome_bind (ParseConfig config (config_map h)) (\<lambda>m.
       Inr (OK, h\<lparr>s3_uri_prefix := uri_prefix, config_map := m,
                  bucket := config_value m ''bucket''\<rparr>))"

section \<open>Reading the pipe\<close>

text \<open>
  \<open>fgets(buffer, n + 1, pipe)\<close>: at most \<open>n\<close> characters, up to and with the first line
  feed; the line and what is left in the pipe.
\<close>

fun fgets :: "nat \<Rightarrow> string \<Rightarrow> string \<times> string" where
  "fgets 0 s = ([], s)"
| "fgets (Suc n) [] = ([], [])"
| "fgets (Suc n) (c # s) =
     (if c = LF then ([c], s) else (case fgets n s of (l, r) \<Rightarrow> (c # l, r)))"

lemma fgets_append: "fgets n s = (l, r) \<Longrightarrow> l @ r = s \<and> length l \<le> n"
  by (induction n s arbitrary: l r rule: fgets.induct) (auto split: if_splits prod.splits)

lemma fgets_shorter: "fgets (Suc n) (c # s) = (l, r) \<Longrightarrow> length r \<le> length s"
  by (auto split: if_splits prod.splits dest!: fgets_append)

text \<open>The loop: \<open>result += buffer.data()\<close> appends the line up to its first NUL.\<close>

function read_pipe :: "string \<Rightarrow> string" where
  "read_pipe s = (if s = [] then [] else (case fgets 127 s of (l, r) \<Rightarrow> c_str l @ read_pipe r))"
  by pat_completeness auto
termination
proof (relation "measure length")
  fix s l r :: string
  assume "s \<noteq> []" "(l, r) = fgets 127 s"
  then show "(r, s) \<in> measure length"
    using fgets_shorter [of 126 "hd s" "tl s" l r] by (cases s) auto
qed simp

declare read_pipe.simps [simp del]

definition s3_command :: "string \<Rightarrow> string \<Rightarrow> string" where
  "s3_command b key = ''nodejs get-s3-object.js '' @ b @ '' '' @ key"

definition GetS3Object :: "environment \<Rightarrow> S3Handler \<Rightarrow> string \<Rightarrow> string outcome" where
  "GetS3Object e h key =
     (case popen_output e (c_str (s3_command (bucket h) key)) of
        None \<Rightarrow> Inl Runtime_error
      | Some printed \<Rightarrow> Inr (read_pipe printed))"

text \<open>
  The key leaves out one character more than the prefix, the slash after it. \<open>substr\<close> cannot
  throw: the URI is longer than the prefix.
\<close>

definition S3Handler_HandleRequest ::
  "environment \<Rightarrow> S3Handler \<Rightarrow> Request \<Rightarrow> Response option \<Rightarrow> S3Handler handling" where
  "S3Handler_HandleRequest e h request response =
     Some (case response of
        None \<Rightarrow> Inr (ERROR, None, h)
      | Some r \<Rightarrow>
          if under_prefix (s3_uri_prefix h) (uri request)
          then outcome_bind (substr_from (uri request) (Some (length (s3_uri_prefix h) + 1))) (\<lambda>key.
                 outcome_bind (GetS3Object e h key) (\<lambda>object.
                   Inr (OK, Some (SetStatus OK_200
                          (AddHeader CONTENT_TYPE ''text/html'' (SetBody object r))), h)))
          else Inr (ERROR, Some r, h))"

interpretation s3: request_handler S3Handler_HandleRequest
  by unfold_locales
     (auto simp: S3Handler_HandleRequest_def split: if_splits)

section \<open>What the client gets\<close>

text \<open>What was printed comes through unchanged, whatever its lines, unless it holds a NUL.\<close>

lemma c_str_id: "CHR 0x00 \<notin> set s \<Longrightarrow> c_str s = s"
  by (auto simp: c_str_def takeWhile_eq_all_conv)

lemma c_str_prefix: "\<exists>t. s = c_str s @ t"
  unfolding c_str_def by (metis takeWhile_dropWhile_id)

lemma read_pipe_id: "CHR 0x00 \<notin> set s \<Longrightarrow> read_pipe s = s"
proof (induction s rule: read_pipe.induct)
  case (1 s)
  show ?case
  proof (cases "s = []")
    case False
    obtain l r where lr: "fgets 127 s = (l, r)" by (cases "fgets 127 s")
    have s: "l @ r = s" using fgets_append [OF lr] by blast
    then have "CHR 0x00 \<notin> set l" "CHR 0x00 \<notin> set r" using "1.prems" by auto
    then show ?thesis
      using "1.IH" [OF False lr [symmetric]] s False lr
      by (subst read_pipe.simps) (simp add: c_str_id)
  qed (simp add: read_pipe.simps)
qed

lemma S3Handler_key:
  assumes "uri q = s3_uri_prefix h @ c # key"
  shows "S3Handler_HandleRequest e h q (Some r) =
    Some (outcome_bind (GetS3Object e h key) (\<lambda>object.
      Inr (OK, Some (SetStatus OK_200 (AddHeader CONTENT_TYPE ''text/html'' (SetBody object r))), h)))"
proof -
  have "under_prefix (s3_uri_prefix h) (uri q)" using assms by (auto simp: under_prefix_iff)
  then show ?thesis using assms
    by (simp add: S3Handler_HandleRequest_def substr_from_def)
qed

end
