(* ===== verification/Handler_Registry.thy ===== *)
theory Handler_Registry
  imports Static_Handler S3_Handler Proxy_Handler
begin

text \<open>
  The registry of \<open>include/request_handler.h\<close> and \<open>src/request_handler.cc\<close>: the
  global \<open>request_handler_builders\<close>, filled by one static registerer for each handler header,
  and \<open>CreateByName\<close>; and the two virtual functions, dispatched on the class of the object.
\<close>

section \<open>Objects\<close>

datatype handler_class =
  EchoHandler | HoldingHandler | NotFoundHandler | ProxyHandler | S3Handler | StaticHandler | StatusHandler

datatype handler =
    Echo_object RequestHandler
  | Holding_object RequestHandler
  | NotFound_object RequestHandler
  | Proxy_object ProxyHandler
  | S3_object S3Handler
  | Static_object StaticHandler
  | Status_object RequestHandler

fun class_of :: "handler \<Rightarrow> handler_class" where
  "class_of (Echo_object h) = EchoHandler"
| "class_of (Holding_object h) = HoldingHandler"
| "class_of (NotFound_object h) = NotFoundHandler"
| "class_of (Proxy_object h) = ProxyHandler"
| "class_of (S3_object h) = S3Handler"
| "class_of (Static_object h) = StaticHandler"
| "class_of (Status_object h) = StatusHandler"

section \<open>The registry\<close>

text \<open>A registered builder is the function \<open>Create\<close> of its class, \<open>new T\<close>.\<close>

fun Create :: "handler_class \<Rightarrow> handler" where
  "Create EchoHandler = Echo_object new_RequestHandler"
| "Create HoldingHandler = Holding_object new_RequestHandler"
| "Create NotFoundHandler = NotFound_object new_RequestHandler"
| "Create ProxyHandler = Proxy_object new_ProxyHandler"
| "Create S3Handler = S3_object new_S3Handler"
| "Create StaticHandler = Static_object new_StaticHandler"
| "Create StatusHandler = Status_object new_RequestHandler"

type_synonym builders = "(string, handler_class) std_map"

text \<open>The constructor of a registerer; the map is made by the first one.\<close>

definition RequestHandlerRegisterer :: "handler_class \<Rightarrow> string \<Rightarrow> builders option \<Rightarrow> builders option" where
  "RequestHandlerRegisterer T type b =
     Some (map_put type T (case b of None \<Rightarrow> [] | Some m \<Rightarrow> m))"

text \<open>The seven uses of \<open>REGISTER_REQUEST_HANDLER\<close>, which names a class by its own name.\<close>

fun class_name :: "handler_class \<Rightarrow> string" where
  "class_name EchoHandler = ''EchoHandler''"
| "class_name HoldingHandler = ''HoldingHandler''"
| "class_name NotFoundHandler = ''NotFoundHandler''"
| "class_name ProxyHandler = ''ProxyHandler''"
| "class_name S3Handler = ''S3Handler''"
| "class_name StaticHandler = ''StaticHandler''"
| "class_name StatusHandler = ''StatusHandler''"

definition register_all :: "handler_class list \<Rightarrow> builders option" where
  "register_all Ts = foldl (\<lambda>b T. RequestHandlerRegisterer T (class_name T) b) None Ts"

definition registered_classes :: "handler_class list" where
  "registered_classes =
     [EchoHandler, HoldingHandler, NotFoundHandler, ProxyHandler, S3Handler, StaticHandler, StatusHandler]"

definition request_handler_builders :: "builders option" where
  "request_handler_builders = register_all registered_classes"

text \<open>\<open>CreateByName\<close> gets a C string. A null map would be undefined behaviour.\<close>

definition CreateByName_in :: "builders option \<Rightarrow> string \<Rightarrow> handler option outcome" where
  "CreateByName_in b type =
     (case b of
        None \<Rightarrow> Inl Undefined_behaviour
      | Some m \<Rightarrow> Inr (map_option Create (map_find m type)))"

definition CreateByName :: "string \<Rightarrow> handler option outcome" where
  "CreateByName type = CreateByName_in request_handler_builders type"

section \<open>Virtual calls\<close>

definition lift_init :: "('h \<Rightarrow> handler) \<Rightarrow> (Status \<times> 'h) outcome \<Rightarrow> (Status \<times> handler) outcome" where
  "lift_init wrap res = outcome_bind res (\<lambda>(s, h). Inr (s, wrap h))"

fun Init :: "string \<Rightarrow> NginxConfig \<Rightarrow> handler \<Rightarrow> (Status \<times> handler) outcome" where
  "Init p c (Echo_object h) = lift_init Echo_object (EchoHandler_Init p c h)"
| "Init p c (Holding_object h) = lift_init Holding_object (HoldingHandler_Init p c h)"
| "Init p c (NotFound_object h) = lift_init NotFound_object (NotFoundHandler_Init p c h)"
| "Init p c (Proxy_object h) = lift_init Proxy_object (ProxyHandler_Init p c h)"
| "Init p c (S3_object h) = lift_init S3_object (S3Handler_Init p c h)"
| "Init p c (Static_object h) = lift_init Static_object (StaticHandler_Init p c h)"
| "Init p c (Status_object h) = lift_init Status_object (StatusHandler_Init p c h)"

definition lift_handle :: "('h \<Rightarrow> handler) \<Rightarrow> 'h handling \<Rightarrow> handler handling" where
  "lift_handle wrap res =
     map_option (\<lambda>out. outcome_bind out (\<lambda>(s, p, h). Inr (s, p, wrap h))) res"

fun HandleRequest :: "environment \<Rightarrow> handler \<Rightarrow> Request \<Rightarrow> Response option \<Rightarrow> handler handling" where
  "HandleRequest e (Echo_object h) q p = lift_handle Echo_object (EchoHandler_HandleRequest e h q p)"
| "HandleRequest e (Holding_object h) q p =
     lift_handle Holding_object (HoldingHandler_HandleRequest e h q p)"
| "HandleRequest e (NotFound_object h) q p =
     lift_handle NotFound_object (NotFoundHandler_HandleRequest e h q p)"
| "HandleRequest e (Proxy_object h) q p = lift_handle Proxy_object (ProxyHandler_HandleRequest e h q p)"
| "HandleRequest e (S3_object h) q p = lift_handle S3_object (S3Handler_HandleRequest e h q p)"
| "HandleRequest e (Static_object h) q p =
     lift_handle Static_object (StaticHandler_HandleRequest e h q p)"
| "HandleRequest e (Status_object h) q p =
     lift_handle Status_object (StatusHandler_HandleRequest e h q p)"

lemma lift_handle_Some:
  "lift_handle wrap res = Some (Inr (s, p, h')) \<longleftrightarrow> (\<exists>h. res = Some (Inr (s, p, h)) \<and> h' = wrap h)"
  by (auto simp: lift_handle_def)

lemma lift_init_Inr:
  "lift_init wrap res = Inr (s, h') \<longleftrightarrow> (\<exists>h. res = Inr (s, h) \<and> h' = wrap h)"
  by (auto simp: lift_init_def)

section \<open>The contract of the dispatched call\<close>

interpretation any: request_handler HandleRequest
proof
  fix e h q r s p h'
  assume "HandleRequest e h q (Some r) = Some (Inr (s, p, h'))"
  then show "\<exists>r'. p = Some r' \<and> response_grows r r'"
    by (cases h)
       (auto simp: lift_handle_Some dest: echo.keeps_pointer holding.keeps_pointer
         not_found.keeps_pointer proxy.keeps_pointer s3.keeps_pointer static.keeps_pointer
         status_page.keeps_pointer)
next
  fix e h q r r' h'
  assume "HandleRequest e h q (Some r) = Some (Inr (OK, Some r', h'))"
  then show "raw_status r' \<noteq> None"
    by (cases h)
       (simp_all add: lift_handle_Some, (blast dest: echo.sets_status holding.sets_status
         not_found.sets_status proxy.sets_status s3.sets_status static.sets_status
         status_page.sets_status)+)
qed

section \<open>Facts about the registry\<close>

lemma class_name_inj [simp]: "class_name a = class_name b \<longleftrightarrow> a = b"
  by (cases a; cases b) simp_all

lemma register_all_find:
  "Ts \<noteq> [] \<Longrightarrow> \<exists>m. register_all Ts = Some m \<and>
     (\<forall>T. map_find m (class_name T) = (if T \<in> set Ts then Some T else None)) \<and>
     (\<forall>k. k \<notin> range class_name \<longrightarrow> map_find m k = None)"
proof (induction Ts rule: rev_induct)
  case (snoc T Ts)
  have step: "register_all (Ts @ [T]) = RequestHandlerRegisterer T (class_name T) (register_all Ts)"
    by (simp add: register_all_def)
  show ?case
  proof (cases "Ts = []")
    case True
    then show ?thesis
      by (simp add: step True register_all_def RequestHandlerRegisterer_def)
  next
    case False
    with snoc.IH obtain m where "register_all Ts = Some m"
        "\<forall>T. map_find m (class_name T) = (if T \<in> set Ts then Some T else None)"
        "\<forall>k. k \<notin> range class_name \<longrightarrow> map_find m k = None" by blast
    then show ?thesis by (auto simp: step RequestHandlerRegisterer_def map_find_put)
  qed
qed simp

text \<open>
  Whatever the order of the static constructors, the registry finds every class by its own name and
  nothing else.
\<close>

lemma CreateByName_any_order:
  assumes "set Ts = UNIV"
  shows "CreateByName_in (register_all Ts) k =
    (if k \<in> range class_name then Inr (Some (Create (the_inv class_name k))) else Inr None)"
proof -
  have "Ts \<noteq> []" using assms by auto
  then obtain m where m: "register_all Ts = Some m" "\<And>T. map_find m (class_name T) = Some T"
      "\<And>k. k \<notin> range class_name \<Longrightarrow> map_find m k = None"
    using register_all_find [of Ts] assms by auto
  have "the_inv class_name (class_name T) = T" for T by (rule the_inv_f_f) (auto simp: inj_def)
  then show ?thesis using m by (auto simp: CreateByName_in_def)
qed

lemma registered_all: "set registered_classes = UNIV"
proof -
  have "T \<in> set registered_classes" for T by (cases T) (simp_all add: registered_classes_def)
  then show ?thesis by auto
qed

lemma CreateByName_class: "CreateByName (class_name T) = Inr (Some (Create T))"
proof -
  have "the_inv class_name (class_name T) = T" by (rule the_inv_f_f) (auto simp: inj_def)
  then show ?thesis
    using CreateByName_any_order [OF registered_all, of "class_name T"]
    by (simp add: CreateByName_def request_handler_builders_def)
qed

lemma CreateByName_unknown: "k \<notin> range class_name \<Longrightarrow> CreateByName k = Inr None"
  using CreateByName_any_order [OF registered_all, of k]
  by (simp add: CreateByName_def request_handler_builders_def)

lemma CreateByName_total: "\<exists>x. CreateByName k = Inr x"
  using CreateByName_class CreateByName_unknown by (cases "k \<in> range class_name") auto

text \<open>\<open>Init\<close> never refuses; it can only read a token that is not there.\<close>

lemma Init_OK: "Init p c h = Inr (s, h') \<Longrightarrow> s = OK"
  by (cases h) (auto simp: lift_init_Inr EchoHandler_Init_def HoldingHandler_Init_def
    NotFoundHandler_Init_def StatusHandler_Init_def ProxyHandler_Init_def S3Handler_Init_def
    StaticHandler_Init_def)

lemma Init_fault: "Init p c h = Inl e \<Longrightarrow> e = Undefined_behaviour"
  by (cases h) (auto simp: lift_init_def EchoHandler_Init_def HoldingHandler_Init_def
    NotFoundHandler_Init_def StatusHandler_Init_def ProxyHandler_Init_def S3Handler_Init_def
    StaticHandler_Init_def ParseConfig_def dest: ParseConfig_statements_fault)

lemma Init_class: "Init p c h = Inr (s, h') \<Longrightarrow> class_of h' = class_of h"
  by (cases h) (auto simp: lift_init_Inr)

lemma class_of_Create [simp]: "class_of (Create T) = T"
  by (cases T) simp_all

lemma Init_defined:
  assumes "list_all (\<lambda>s. 2 \<le> length (tokens s)) (statements c)"
  shows "\<exists>h'. Init p c h = Inr (OK, h')"
proof -
  have "\<exists>m'. ParseConfig c m = Inr m'" for m
    using assms by (simp add: ParseConfig_def ParseConfig_statements_iff)
  then have "\<exists>r. Init p c h = Inr r"
    by (cases h) (auto simp: lift_init_def EchoHandler_Init_def HoldingHandler_Init_def
      NotFoundHandler_Init_def StatusHandler_Init_def ProxyHandler_Init_def S3Handler_Init_def
      StaticHandler_Init_def)
  then show ?thesis using Init_OK by fastforce
qed

end
