(* ===== verification/Server_Config.thy ===== *)
theory Server_Config
  imports Handler_Registry Config_Parser
begin

text \<open>
  Starting the server, \<open>src/server.cc\<close>: \<open>getServerInfo\<close> turns the configuration file
  into the port and the table of handlers, and \<open>makeServer\<close> constructs the server with them.

  Every handler in the table was made by \<open>new\<close> for its entry, so the table holds the objects
  themselves. \<open>int port\<close> is a 32-bit \<open>int\<close>, which \<open>stoi\<close> never leaves.
\<close>

section \<open>State\<close>

record ServerInfo =
  info_port :: "int option"
  uri_prefix_to_handler :: "(string, handler) std_map"
  handler_prefixes :: "(string, string list) std_map"

text \<open>A local \<open>ServerInfo info\<close>: the maps are empty, the port has no value.\<close>

definition new_ServerInfo :: ServerInfo where
  "new_ServerInfo = \<lparr>info_port = None, uri_prefix_to_handler = [], handler_prefixes = []\<rparr>"

text \<open>The variables of the loop.\<close>

record info_loop =
  port :: int
  path_names :: "string list"
  info :: ServerInfo

definition start_loop :: "ServerInfo \<Rightarrow> info_loop" where
  "start_loop i = \<lparr>port = -1, path_names = [], info = i\<rparr>"

text \<open>\<open>m[id].push_back(name)\<close>.\<close>

definition push_prefix ::
  "string \<Rightarrow> string \<Rightarrow> (string, string list) std_map \<Rightarrow> (string, string list) std_map" where
  "push_prefix handler_id name m =
     map_put handler_id ((case map_find m handler_id of None \<Rightarrow> [] | Some l \<Rightarrow> l) @ [name]) m"

definition add_handler :: "string \<Rightarrow> string \<Rightarrow> handler \<Rightarrow> ServerInfo \<Rightarrow> ServerInfo" where
  "add_handler name handler_id h i =
     i\<lparr>uri_prefix_to_handler := map_put name h (uri_prefix_to_handler i),
       handler_prefixes := push_prefix handler_id name (handler_prefixes i)\<rparr>"

section \<open>One statement of the file\<close>

text \<open>The boolean is false when the statement makes \<open>getServerInfo\<close> return false.\<close>

definition port_statement :: "string list \<Rightarrow> info_loop \<Rightarrow> (bool \<times> info_loop) outcome" where
  "port_statement ts l =
     (if port l \<noteq> -1 then Inr (False, l)
      else outcome_bind (vec_at ts 1) (\<lambda>t.
             outcome_bind (stoi t) (\<lambda>p. Inr (True, l\<lparr>port := p\<rparr>))))"

definition path_statement ::
  "string list \<Rightarrow> NginxConfig option \<Rightarrow> info_loop \<Rightarrow> (bool \<times> info_loop) outcome" where
  "path_statement ts child l =
     (case child of
        None \<Rightarrow> Inr (False, l)
      | Some handler_config \<Rightarrow>
          if length ts \<noteq> 3 then Inr (False, l)
          else
            let name = ts ! 1; handler_id = ts ! 2 in
            if name \<in> set (path_names l) then Inr (False, l)
            else
              let l1 = l\<lparr>path_names := path_names l @ [name]\<rparr> in
              outcome_bind (CreateByName (c_str handler_id)) (\<lambda>made.
                case made of
                  None \<Rightarrow> Inr (False, l1)
                | Some h \<Rightarrow>
                    outcome_bind (Init name handler_config h) (\<lambda>(_, h').
                      Inr (True, l1\<lparr>info := add_handler name handler_id h' (info l1)\<rparr>))))"

text \<open>The default handler is not checked for null before the virtual call.\<close>

definition default_statement ::
  "string list \<Rightarrow> NginxConfig option \<Rightarrow> info_loop \<Rightarrow> (bool \<times> info_loop) outcome" where
  "default_statement ts child l =
     (case child of
        None \<Rightarrow> Inr (False, l)
      | Some handler_config \<Rightarrow>
          if length ts \<noteq> 2 then Inr (False, l)
          else
            let handler_id = ts ! 1 in
            outcome_bind (CreateByName (c_str handler_id)) (\<lambda>made.
              case made of
                None \<Rightarrow> Inl Undefined_behaviour
              | Some h \<Rightarrow>
                  outcome_bind (Init ''default'' handler_config h) (\<lambda>(_, h').
                    Inr (True, l\<lparr>info := add_handler ''default'' handler_id h' (info l)\<rparr>))))"

definition server_statement :: "NginxConfigStatement \<Rightarrow> info_loop \<Rightarrow> (bool \<times> info_loop) outcome" where
  "server_statement s l =
     outcome_bind (vec_at (tokens s) 0) (\<lambda>key.
       if key = ''port'' then port_statement (tokens s) l
       else if key = ''path'' then path_statement (tokens s) (child_block s) l
       else if key = ''default'' then default_statement (tokens s) (child_block s) l
       else outcome_bind (vec_at (tokens s) 1) (\<lambda>_. Inr (False, l)))"

fun server_statements :: "NginxConfigStatement list \<Rightarrow> info_loop \<Rightarrow> (bool \<times> info_loop) outcome" where
  "server_statements [] l = Inr (True, l)"
| "server_statements (s # ss) l =
     outcome_bind (server_statement s l)
       (\<lambda>(ok, l'). if ok then server_statements ss l' else Inr (False, l'))"

section \<open>The file\<close>

definition getServerInfo ::
  "(string \<Rightarrow> string option) \<Rightarrow> string \<Rightarrow> ServerInfo \<Rightarrow> (bool \<times> ServerInfo) outcome" where
  "getServerInfo read_file file_name i =
     outcome_bind (Parse_file read_file file_name (NginxConfig [])) (\<lambda>(parsed, config).
       if \<not> parsed then Inr (False, i)
       else outcome_bind (server_statements (statements config) (start_loop i)) (\<lambda>(ok, l).
         if ok then Inr (True, (info l)\<lparr>info_port := Some (port l)\<rparr>) else Inr (False, info l)))"

record Server =
  server_port :: int
  server_handlers :: "(string, handler) std_map"
  server_handler_prefixes :: "(string, string list) std_map"
  server_status_object :: ServerStatus

text \<open>
  The constructor: a \<open>tcp::endpoint\<close> takes the port as an \<open>unsigned short\<close>. Opening,
  binding and listening may throw; \<open>listen_on\<close> stands for them.
\<close>

definition new_Server :: "(16 word \<Rightarrow> unit outcome) \<Rightarrow> ServerInfo \<Rightarrow> Server outcome" where
  "new_Server listen_on i =
     (case info_port i of
        None \<Rightarrow> Inl Undefined_behaviour
      | Some p \<Rightarrow>
          outcome_bind (listen_on (word_of_int p)) (\<lambda>_.
            Inr \<lparr>server_port = p, server_handlers = uri_prefix_to_handler i,
                 server_handler_prefixes = handler_prefixes i,
                 server_status_object = AddHandlerInfo (handler_prefixes i) new_ServerStatus\<rparr>))"

definition makeServer ::
  "(string \<Rightarrow> string option) \<Rightarrow> (16 word \<Rightarrow> unit outcome) \<Rightarrow> string \<Rightarrow> Server option outcome" where
  "makeServer read_file listen_on config_file =
     outcome_bind (getServerInfo read_file config_file new_ServerInfo) (\<lambda>(ok, i).
       if \<not> ok then Inr None
       else outcome_bind (new_Server listen_on i) (\<lambda>s. Inr (Some s)))"

text \<open>
  \<open>main\<close> of \<open>src/main.cc\<close>: an exit status, or the server whose \<open>run\<close> is called.
\<close>

definition main_program ::
  "(string \<Rightarrow> string option) \<Rightarrow> (16 word \<Rightarrow> unit outcome) \<Rightarrow> string list \<Rightarrow> (int + Server) outcome" where
  "main_program read_file listen_on argv =
     (if length argv \<noteq> 2 then Inr (Inl 1)
      else outcome_bind (makeServer read_file listen_on (argv ! 1)) (\<lambda>made.
        case made of None \<Rightarrow> Inr (Inl 1) | Some srv \<Rightarrow> Inr (Inr srv)))"

end
