(* ===== verification/Server_Config_Correct.thy ===== *)
theory Server_Config_Correct
  imports Server_Config Config_Correct
begin

text \<open>
  The server's reading of its configuration file. The table of handlers and the list of prefixes per
  handler agree at every point of the loop; and a file in the format of the README, with distinct
  paths, is accepted and yields exactly the handlers it names, each initialised with its own block.
\<close>

section \<open>The invariant of the loop\<close>

definition listed :: "(string, string list) std_map \<Rightarrow> string \<Rightarrow> string list" where
  "listed m handler_id = (case map_find m handler_id of None \<Rightarrow> [] | Some l \<Rightarrow> l)"

text \<open>
  Each entry of the table is listed under a name of the class of its handler, and each listed prefix
  has an entry.
\<close>

definition tables_agree :: "ServerInfo \<Rightarrow> bool" where
  "tables_agree i \<longleftrightarrow> map_ok (uri_prefix_to_handler i) \<and> map_ok (handler_prefixes i) \<and>
     (\<forall>k h. map_find (uri_prefix_to_handler i) k = Some h \<longrightarrow>
        (\<exists>hid. c_str hid = class_name (class_of h) \<and> k \<in> set (listed (handler_prefixes i) hid))) \<and>
     (\<forall>hid. \<forall>k \<in> set (listed (handler_prefixes i) hid). map_find (uri_prefix_to_handler i) k \<noteq> None)"

definition info_inv :: "info_loop \<Rightarrow> bool" where
  "info_inv l \<longleftrightarrow> tables_agree (info l) \<and> distinct (path_names l) \<and>
     dom (map_find (uri_prefix_to_handler (info l))) \<subseteq> insert ''default'' (set (path_names l)) \<and>
     - (2 ^ 31) \<le> port l \<and> port l < 2 ^ 31"

lemma listed_push_prefix:
  "listed (push_prefix hid name m) hid' = (if hid' = hid then listed m hid @ [name] else listed m hid')"
  by (simp add: listed_def push_prefix_def map_find_put)

lemma tables_agree_add_handler:
  assumes "tables_agree i" "c_str hid = class_name (class_of h)"
  shows "tables_agree (add_handler name hid h i)"
proof -
  let ?j = "add_handler name hid h i"
  have l: "listed (handler_prefixes ?j) hid' =
      (if hid' = hid then listed (handler_prefixes i) hid @ [name] else listed (handler_prefixes i) hid')" for hid'
    by (simp add: add_handler_def listed_push_prefix)
  have f: "map_find (uri_prefix_to_handler ?j) k =
      (if k = name then Some h else map_find (uri_prefix_to_handler i) k)" for k
    by (simp add: add_handler_def map_find_put)
  have "map_ok (uri_prefix_to_handler ?j)" "map_ok (handler_prefixes ?j)"
    using assms(1) by (simp_all add: tables_agree_def add_handler_def push_prefix_def map_ok_put)
  moreover have "\<exists>hid. c_str hid = class_name (class_of h') \<and> k \<in> set (listed (handler_prefixes ?j) hid)"
    if look: "map_find (uri_prefix_to_handler ?j) k = Some h'" for k h'
  proof (cases "k = name")
    case True
    then have h': "h' = h" using that by (simp add: f)
    show ?thesis unfolding h' using assms(2) True by (intro exI [of _ hid]) (simp add: l)
  next
    case False
    then obtain hid' where "c_str hid' = class_name (class_of h')"
        "k \<in> set (listed (handler_prefixes i) hid')"
      using look assms(1) unfolding f tables_agree_def by (simp split: if_splits) blast
    then show ?thesis by (intro exI [of _ hid']) (auto simp: l)
  qed
  moreover have "map_find (uri_prefix_to_handler ?j) k \<noteq> None"
    if "k \<in> set (listed (handler_prefixes ?j) hid')" for hid' k
  proof (cases "k = name")
    case False
    then have "k \<in> set (listed (handler_prefixes i) hid')" using that by (auto simp: l split: if_splits)
    then show ?thesis using assms(1) False by (auto simp: f tables_agree_def)
  qed (simp add: f)
  ultimately show ?thesis by (simp add: tables_agree_def)
qed

lemma CreateByName_Some:
  "CreateByName k = Inr (Some h) \<Longrightarrow> \<exists>T. k = class_name T \<and> h = Create T"
  using CreateByName_class CreateByName_unknown by (cases "k \<in> range class_name") auto

lemma info_inv_add_handler:
  assumes "info_inv l" "CreateByName (c_str hid) = Inr (Some h)" "Init name c h = Inr (s, h')"
    and "name = ''default'' \<or> name \<in> set (path_names l)"
  shows "info_inv (l\<lparr>info := add_handler name hid h' (info l)\<rparr>)"
proof -
  have cls: "c_str hid = class_name (class_of h')"
    using CreateByName_Some [OF assms(2)] Init_class [OF assms(3)] by auto
  have "dom (map_find (uri_prefix_to_handler (add_handler name hid h' (info l)))) =
      insert name (dom (map_find (uri_prefix_to_handler (info l))))"
    by (simp add: add_handler_def sm.dom_put)
  then show ?thesis
    using assms(1,4) tables_agree_add_handler [OF _ cls] by (auto simp: info_inv_def)
qed

lemma info_inv_path_names:
  "info_inv l \<Longrightarrow> name \<notin> set (path_names l) \<Longrightarrow> info_inv (l\<lparr>path_names := path_names l @ [name]\<rparr>)"
  by (auto simp: info_inv_def)

lemma info_inv_port: "info_inv l \<Longrightarrow> stoi t = Inr p \<Longrightarrow> info_inv (l\<lparr>port := p\<rparr>)"
  using stoi_range [of t p] by (simp add: info_inv_def)

lemma info_inv_path_statement:
  assumes "info_inv l" "path_statement ts child l = Inr (ok, l')"
  shows "info_inv l'"
proof (cases "child = None \<or> length ts \<noteq> 3 \<or> ts ! 1 \<in> set (path_names l)")
  case True
  then show ?thesis using assms by (auto simp: path_statement_def Let_def split: option.splits if_splits)
next
  case False
  then obtain c where c: "child = Some c" "length ts = 3" "ts ! 1 \<notin> set (path_names l)" by auto
  let ?l1 = "l\<lparr>path_names := path_names l @ [ts ! 1]\<rparr>"
  have inv: "info_inv ?l1" by (rule info_inv_path_names [OF assms(1) c(3)])
  obtain made where made: "CreateByName (c_str (ts ! 2)) = Inr made"
    using CreateByName_total by blast
  show ?thesis
  proof (cases made)
    case None
    then show ?thesis using assms(2) c made inv by (simp add: path_statement_def Let_def)
  next
    case (Some h)
    then obtain s h' where i: "Init (ts ! 1) c h = Inr (s, h')"
        "l' = ?l1\<lparr>info := add_handler (ts ! 1) (ts ! 2) h' (info ?l1)\<rparr>"
      using assms(2) c made by (auto simp: path_statement_def Let_def)
    show ?thesis
      unfolding i(2) by (rule info_inv_add_handler [OF inv made [unfolded Some] i(1)]) simp
  qed
qed

lemma info_inv_default_statement:
  assumes "info_inv l" "default_statement ts child l = Inr (ok, l')"
  shows "info_inv l'"
proof (cases "child = None \<or> length ts \<noteq> 2")
  case True
  then show ?thesis using assms by (auto simp: default_statement_def split: option.splits)
next
  case False
  then obtain c where c: "child = Some c" "length ts = 2" by auto
  obtain h s h' where i: "CreateByName (c_str (ts ! 1)) = Inr (Some h)" "Init ''default'' c h = Inr (s, h')"
      "l' = l\<lparr>info := add_handler ''default'' (ts ! 1) h' (info l)\<rparr>"
    using assms(2) c by (auto simp: default_statement_def Let_def split: option.splits)
  show ?thesis
    unfolding i(3) by (rule info_inv_add_handler [OF assms(1) i(1,2)]) simp
qed

lemma info_inv_server_statement:
  "info_inv l \<Longrightarrow> server_statement s l = Inr (ok, l') \<Longrightarrow> info_inv l'"
  by (auto simp: server_statement_def port_statement_def dest: info_inv_port info_inv_path_statement
      info_inv_default_statement split: if_splits)

lemma info_inv_server_statements:
  "server_statements ss l = Inr (ok, l') \<Longrightarrow> info_inv l \<Longrightarrow> info_inv l'"
proof (induction ss arbitrary: l)
  case (Cons s ss)
  then obtain ok1 l1 where s: "server_statement s l = Inr (ok1, l1)" by auto
  have "info_inv l1" by (rule info_inv_server_statement [OF Cons.prems(2) s])
  then show ?case using Cons s by (cases ok1) auto
qed simp

lemma info_inv_start: "info_inv (start_loop new_ServerInfo)"
  by (simp add: info_inv_def start_loop_def tables_agree_def new_ServerInfo_def map_ok_def listed_def)

lemma getServerInfo_inv:
  assumes "getServerInfo read_file f new_ServerInfo = Inr (ok, i)"
  shows "tables_agree i"
proof -
  obtain parsed config where p: "Parse_file read_file f (NginxConfig []) = Inr (parsed, config)"
    using assms by (auto simp: getServerInfo_def)
  show ?thesis
  proof (cases parsed)
    case False
    then show ?thesis using assms p info_inv_start
      by (simp add: getServerInfo_def info_inv_def start_loop_def)
  next
    case True
    then obtain ok' l where "server_statements (statements config) (start_loop new_ServerInfo) = Inr (ok', l)"
        "i = (if ok' then (info l)\<lparr>info_port := Some (port l)\<rparr> else info l)"
      using assms p by (auto simp: getServerInfo_def split: if_splits)
    moreover from this(1) have "info_inv l" by (rule info_inv_server_statements [OF _ info_inv_start])
    ultimately show ?thesis by (simp add: info_inv_def tables_agree_def)
  qed
qed

section \<open>Files in the documented format\<close>

type_synonym route = "string \<times> handler_class \<times> NginxConfig"

fun route_statement :: "route \<Rightarrow> NginxConfigStatement" where
  "route_statement (n, T, c) = NginxConfigStatement [''path'', n, class_name T] (Some c)"

definition two_tokens :: "NginxConfig \<Rightarrow> bool" where
  "two_tokens c \<longleftrightarrow> list_all (\<lambda>s. 2 \<le> length (tokens s)) (statements c)"

fun route_ok :: "route \<Rightarrow> bool" where
  "route_ok (n, T, c) = (token_ok n \<and> config_ok c \<and> two_tokens c)"

definition server_config :: "nat \<Rightarrow> route list \<Rightarrow> handler_class \<Rightarrow> NginxConfig \<Rightarrow> NginxConfig" where
  "server_config p routes T c = NginxConfig
     (NginxConfigStatement [''port'', nat_to_string p] None #
      map route_statement routes @ [NginxConfigStatement [''default'', class_name T] (Some c)])"

text \<open>The handler of a class after \<open>Init\<close>.\<close>

definition made_handler :: "string \<Rightarrow> handler_class \<Rightarrow> NginxConfig \<Rightarrow> handler" where
  "made_handler n T c = (case Init n c (Create T) of Inr (_, h) \<Rightarrow> h | Inl _ \<Rightarrow> Create T)"

lemma Init_made: "two_tokens c \<Longrightarrow> Init n c (Create T) = Inr (OK, made_handler n T c)"
  using Init_defined [of c n "Create T"] by (auto simp: two_tokens_def made_handler_def)

lemma c_str_class_name [simp]: "c_str (class_name T) = class_name T"
  by (cases T) (simp_all add: c_str_def)

lemma token_ok_words:
  "token_ok ''port''" "token_ok ''path''" "token_ok ''default''" "token_ok (class_name T)"
  by ((cases T)?; simp add: token_ok_def plain_token_def starts_plain_def skipped_space_def ends_token_def)+

lemma token_ok_number: "token_ok (nat_to_string n)"
proof -
  have d: "is_digit_char c \<Longrightarrow> starts_plain c \<and> \<not> ends_token c" for c
    by (auto simp: is_digit_char_def schar_def starts_plain_def skipped_space_def ends_token_def)
  obtain c s where cs: "nat_to_string n = c # s" by (cases "nat_to_string n") simp_all
  have "\<forall>x \<in> set (c # s). is_digit_char x" using nat_to_string_digits [of n] cs by auto
  then have "plain_token (nat_to_string n)" using d by (auto simp: cs plain_token_def list_all_iff)
  then show ?thesis by (simp add: token_ok_def)
qed

lemma server_config_ok:
  assumes "list_all route_ok routes" "config_ok c"
  shows "config_ok (server_config p routes T c)"
proof -
  have "list_all statement_ok (map route_statement routes)"
    using assms(1) by (induction routes) (auto simp: token_ok_words)
  then show ?thesis
    using assms(2) by (simp add: server_config_def token_ok_words token_ok_number)
qed

lemma route_step:
  assumes "route_ok (n, T, c)" "n \<notin> set (path_names l)"
  shows "server_statement (route_statement (n, T, c)) l =
    Inr (True, l\<lparr>path_names := path_names l @ [n],
                 info := add_handler n (class_name T) (made_handler n T c) (info l)\<rparr>)"
  using assms by (simp add: server_statement_def path_statement_def Let_def CreateByName_class Init_made)

lemma routes_loop:
  "list_all route_ok routes \<Longrightarrow> distinct (path_names l @ map fst routes) \<Longrightarrow>
   \<exists>l'. server_statements (map route_statement routes @ ss) l = server_statements ss l' \<and>
     port l' = port l \<and>
     map_find (uri_prefix_to_handler (info l')) =
       map_find (uri_prefix_to_handler (info l)) ++
         map_of (map (\<lambda>(n, T, c). (n, made_handler n T c)) routes)"
proof (induction routes arbitrary: l)
  case (Cons r routes)
  obtain n T c where r: "r = (n, T, c)" by (cases r)
  let ?l = "l\<lparr>path_names := path_names l @ [n],
              info := add_handler n (class_name T) (made_handler n T c) (info l)\<rparr>"
  have step: "server_statement (route_statement r) l = Inr (True, ?l)"
    unfolding r by (rule route_step) (use Cons.prems r in auto)
  have "distinct (path_names ?l @ map fst routes)" using Cons.prems(2) r by simp
  with Cons.IH [of ?l] Cons.prems(1) obtain l' where l':
      "server_statements (map route_statement routes @ ss) ?l = server_statements ss l'"
      "port l' = port ?l"
      "map_find (uri_prefix_to_handler (info l')) = map_find (uri_prefix_to_handler (info ?l)) ++
        map_of (map (\<lambda>(n, T, c). (n, made_handler n T c)) routes)"
    by auto
  have n: "map_of (map (\<lambda>(n, T, c). (n, made_handler n T c)) routes) n = None"
    using Cons.prems(2) r by (force simp: map_of_eq_None_iff)
  have fin: "map_find (uri_prefix_to_handler (info l')) =
      map_find (uri_prefix_to_handler (info l)) ++
         map_of (map (\<lambda>(n, T, c). (n, made_handler n T c)) (r # routes))"
    using n by (auto simp: l'(3) r add_handler_def map_find_put map_add_def fun_eq_iff split: option.splits)
  show ?case
  proof (intro exI [of _ l'] conjI)
    show "server_statements (map route_statement (r # routes) @ ss) l = server_statements ss l'"
      by (simp add: step l'(1) del: route_statement.simps)
    show "port l' = port l" by (simp add: l'(2))
  qed (rule fin)
qed auto

lemma getServerInfo_server_config:
  assumes "list_all route_ok routes" "distinct (map fst routes)" "config_ok c" "two_tokens c"
    and "p < 2 ^ 31"
    and "read_file f = Some (NginxConfig_ToString 0 (server_config p routes T c))"
  shows "\<exists>i. getServerInfo read_file f new_ServerInfo = Inr (True, i) \<and> info_port i = Some (int p) \<and>
    map_find (uri_prefix_to_handler i) =
      (map_of (map (\<lambda>(n, T, c). (n, made_handler n T c)) routes))
        (''default'' \<mapsto> made_handler ''default'' T c)"
proof -
  let ?l = "(start_loop new_ServerInfo)\<lparr>port := int p\<rparr>"
  let ?d = "NginxConfigStatement [''default'', class_name T] (Some c)"
  have parse: "Parse_file read_file f (NginxConfig []) = Inr (True, server_config p routes T c)"
    using assms(6) Parse_ToString [OF server_config_ok [OF assms(1,3)]] by (simp add: Parse_file_def)
  have first: "server_statements (statements (server_config p routes T c)) (start_loop new_ServerInfo) =
      server_statements (map route_statement routes @ [?d]) ?l"
    using assms(5) by (simp add: server_config_def server_statement_def port_statement_def start_loop_def
        stoi_nat_to_string)
  have "distinct (path_names ?l @ map fst routes)" using assms(2) by (simp add: start_loop_def)
  from routes_loop [OF assms(1) this, of "[?d]"] obtain l' where l':
      "server_statements (map route_statement routes @ [?d]) ?l = server_statements [?d] l'"
      "port l' = int p"
      "map_find (uri_prefix_to_handler (info l')) = map_of (map (\<lambda>(n, T, c). (n, made_handler n T c)) routes)"
    by (auto simp: start_loop_def new_ServerInfo_def)
  have last: "server_statements [?d] l' =
      Inr (True, l'\<lparr>info := add_handler ''default'' (class_name T) (made_handler ''default'' T c) (info l')\<rparr>)"
    using assms(4) by (simp add: server_statement_def default_statement_def CreateByName_class Init_made)
  let ?l' = "l'\<lparr>info := add_handler ''default'' (class_name T) (made_handler ''default'' T c) (info l')\<rparr>"
  have run: "server_statements (statements (server_config p routes T c)) (start_loop new_ServerInfo) = Inr (True, ?l')"
    by (simp only: first l'(1) last)
  have "getServerInfo read_file f new_ServerInfo = Inr (True, (info ?l')\<lparr>info_port := Some (int p)\<rparr>)"
    by (simp add: getServerInfo_def parse run l'(2))
  then show ?thesis
    by (simp add: add_handler_def fun_eq_iff map_find_put l'(3))
qed

end
