(* ===== verification/Connection.thy ===== *)
theory Connection
  imports Server_Config Request_Sound
begin

text \<open>
  \<open>src/connection.cc\<close>: one connection reads once from its socket, parses what it got as a
  request, chooses a handler by the longest registered prefix, and sends the response.

  The connection's two pointers lead into the server: the table of handlers and the status object.
  So the operations take and return the \<open>Server\<close>, and the address of its status is an argument.
\<close>

section \<open>The prefix of a path\<close>

definition ShortenUriPrefix :: "string \<Rightarrow> string" where
  "ShortenUriPrefix uri_prefix =
     (if uri_prefix = ''/'' then []
      else case rfind_char (CHR ''/'') uri_prefix of
        None \<Rightarrow> []
      | Some pos \<Rightarrow>
          let shortened = take pos uri_prefix in if shortened \<noteq> [] then shortened else ''/'')"

lemma ShortenUriPrefix_shorter: "p \<noteq> [] \<Longrightarrow> length (ShortenUriPrefix p) < length p"
proof (cases "rfind_char (CHR ''/'') p")
  case (Some pos)
  assume "p \<noteq> []"
  obtain a b where p: "p = a @ CHR ''/'' # b" "pos = length a" using Some by (auto simp: rfind_char_Some)
  show ?thesis
  proof (cases "a = []")
    case True
    then show ?thesis using p Some by (cases b) (auto simp: ShortenUriPrefix_def)
  next
    case False
    then show ?thesis using p Some by (auto simp: ShortenUriPrefix_def Let_def)
  qed
qed (simp add: ShortenUriPrefix_def)

text \<open>The loop over shorter and shorter prefixes: the one that is registered, with its handler.\<close>

function find_handler :: "(string, handler) std_map \<Rightarrow> string \<Rightarrow> (string \<times> handler) option" where
  "find_handler path_to_handler prefix =
     (if prefix = [] then None
      else case map_find path_to_handler prefix of
        Some h \<Rightarrow> Some (prefix, h)
      | None \<Rightarrow> find_handler path_to_handler (ShortenUriPrefix prefix))"
  by pat_completeness auto
termination
  by (relation "measure (\<lambda>(_, p). length p)") (auto simp: ShortenUriPrefix_shorter)

declare find_handler.simps [simp del]

section \<open>Reading\<close>

text \<open>
  \<open>handler_uri_prefix\<close>: the URI, or what follows the first slash from position 8 on in the last
  \<open>Referer\<close> field; \<open>substr(npos)\<close> throws where there is none.
\<close>

fun referer_prefix :: "(string \<times> string) list \<Rightarrow> string \<Rightarrow> string outcome" where
  "referer_prefix [] prefix = Inr prefix"
| "referer_prefix ((name, v) # hs) prefix =
     outcome_bind
       (if name = ''Referer'' then substr_from v (find_char_from (CHR ''/'') v 8) else Inr prefix)
       (referer_prefix hs)"

definition DEFAULT_STRING :: string where
  "DEFAULT_STRING = ''default''"

definition choose_handler :: "(string, handler) std_map \<Rightarrow> string \<Rightarrow> (string \<times> handler) outcome" where
  "choose_handler path_to_handler prefix =
     (case find_handler path_to_handler prefix of
        Some kh \<Rightarrow> Inr kh
      | None \<Rightarrow> outcome_bind (map_at path_to_handler DEFAULT_STRING) (\<lambda>h. Inr (DEFAULT_STRING, h)))"

text \<open>What the handlers see while a request is served: the server's status at its address.\<close>

definition with_status :: "nat \<Rightarrow> ServerStatus \<Rightarrow> environment \<Rightarrow> environment" where
  "with_status a st e = e\<lparr>heap_of := (heap_of e)(a := Some st)\<rparr>"

text \<open>
  What follows the parse: the call of the handler, whose status is ignored, the bytes given to
  \<open>do_write\<close>, and the count of the response code.
\<close>

definition serve :: "environment \<Rightarrow> nat \<Rightarrow> Server \<Rightarrow> Request \<Rightarrow> (string \<times> Server) outcome option" where
  "serve e a srv request =
     (case outcome_bind (referer_prefix (request_headers request) (uri request))
             (choose_handler (server_handlers srv)) of
        Inl ft \<Rightarrow> Some (Inl ft)
      | Inr (key, h) \<Rightarrow>
          map_option (\<lambda>out. outcome_bind out (\<lambda>(_, p, h').
              on_response p (\<lambda>response.
                outcome_bind (GetResponseCode response) (\<lambda>code.
                  Inr (Response_ToString response,
                       srv\<lparr>server_handlers := map_put key h' (server_handlers srv),
                           server_status_object :=
                             UpdateStatus (uri request) code (server_status_object srv)\<rparr>)))))
            (HandleRequest (with_status a (server_status_object srv) e) h request (Some new_Response)))"

text \<open>
  \<open>handle_read(error, bytes_transferred)\<close>: the returned flag, the bytes to write, the server.
\<close>

definition handle_read ::
  "environment \<Rightarrow> nat \<Rightarrow> Server \<Rightarrow> bool \<Rightarrow> string \<Rightarrow> nat \<Rightarrow> (bool \<times> string option \<times> Server) outcome option" where
  "handle_read e a srv error buffer bytes_transferred =
     (if error then Some (Inr (False, None, srv))
      else case Request_Parse_status (take bytes_transferred buffer) (Some a) of
        Inl ft \<Rightarrow> Some (Inl ft)
      | Inr request \<Rightarrow>
          map_option (\<lambda>out. outcome_bind out (\<lambda>(text, srv'). Inr (True, Some text, srv')))
            (serve e a srv request))"

definition handle_write :: "bool \<Rightarrow> nat \<Rightarrow> bool" where
  "handle_write error bytes_transferred \<longleftrightarrow> \<not> error"

section \<open>The longest prefix\<close>

text \<open>
  The specification of the choice: a path prefix of \<open>u\<close> is \<open>u\<close> itself, what precedes one of
  its slashes, or the root when \<open>u\<close> starts with a slash.
\<close>

definition path_prefix :: "string \<Rightarrow> string \<Rightarrow> bool" where
  "path_prefix p u \<longleftrightarrow> p \<noteq> [] \<and>
     (p = u \<or> (\<exists>r. u = p @ CHR ''/'' # r) \<or> (p = ''/'' \<and> (\<exists>r. u = CHR ''/'' # r)))"

lemma path_prefix_Nil [simp]: "\<not> path_prefix p []"
  by (simp add: path_prefix_def)

lemma path_prefix_prefix: "path_prefix p u \<Longrightarrow> \<exists>t. u = p @ t"
  by (auto simp: path_prefix_def)

lemma path_prefix_unique:
  "path_prefix p u \<Longrightarrow> path_prefix q u \<Longrightarrow> length p = length q \<Longrightarrow> p = q"
  by (metis path_prefix_prefix append_eq_append_conv)

text \<open>Shortening goes to the next shorter one.\<close>

lemma path_prefix_no_slash:
  assumes "CHR ''/'' \<notin> set u"
  shows "path_prefix p u \<longleftrightarrow> p \<noteq> [] \<and> p = u"
  using assms by (auto simp: path_prefix_def)

lemma path_prefix_before_slash:
  assumes "CHR ''/'' \<notin> set b"
  shows "path_prefix p (a @ CHR ''/'' # b) \<longleftrightarrow>
    p = a @ CHR ''/'' # b \<or> (if a \<noteq> [] then path_prefix p a else p = ''/'')"
proof -
  have split: "(\<exists>r. a @ CHR ''/'' # b = p @ CHR ''/'' # r) \<longleftrightarrow> p = a \<or> (\<exists>r. a = p @ CHR ''/'' # r)"
  proof
    assume "\<exists>r. a @ CHR ''/'' # b = p @ CHR ''/'' # r"
    then obtain r where r: "a @ CHR ''/'' # b = p @ CHR ''/'' # r" by blast
    from append_eq_append_conv2 [THEN iffD1, OF r] obtain us where
      "(a = p @ us \<and> us @ CHR ''/'' # b = CHR ''/'' # r) \<or>
       (a @ us = p \<and> CHR ''/'' # b = us @ CHR ''/'' # r)" by blast
    then show "p = a \<or> (\<exists>r. a = p @ CHR ''/'' # r)"
    proof
      assume "a = p @ us \<and> us @ CHR ''/'' # b = CHR ''/'' # r"
      then show ?thesis by (cases us) auto
    next
      assume us: "a @ us = p \<and> CHR ''/'' # b = us @ CHR ''/'' # r"
      then show ?thesis using assms by (cases us) auto
    qed
  qed auto
  show ?thesis
    unfolding path_prefix_def split by (cases a) auto
qed

lemma path_prefix_step:
  assumes "u \<noteq> []"
  shows "path_prefix p u \<longleftrightarrow> p = u \<or> path_prefix p (ShortenUriPrefix u)"
proof (cases "CHR ''/'' \<in> set u")
  case False
  then have "rfind_char (CHR ''/'') u = None" by (simp add: rfind_char_None)
  moreover have "u \<noteq> ''/''" using False by auto
  ultimately show ?thesis
    using assms False by (auto simp: ShortenUriPrefix_def path_prefix_no_slash)
next
  case True
  then obtain a b where u: "u = a @ CHR ''/'' # b" "CHR ''/'' \<notin> set b" by (metis split_list_last)
  then have r: "rfind_char (CHR ''/'') u = Some (length a)" by (auto simp: rfind_char_Some)
  have root: "path_prefix p ''/'' \<longleftrightarrow> p = ''/''" by (cases p) (auto simp: path_prefix_def)
  show ?thesis
  proof (cases "a = []")
    case True
    then show ?thesis
      using u r root path_prefix_before_slash [OF u(2), of p a] by (auto simp: ShortenUriPrefix_def)
  next
    case False
    then have "ShortenUriPrefix u = a" using u r by (cases a) (auto simp: ShortenUriPrefix_def)
    then show ?thesis using False u path_prefix_before_slash [OF u(2), of p a] by simp
  qed
qed

text \<open>The loop finds the longest path prefix that is registered.\<close>

definition longest_match :: "(string, handler) std_map \<Rightarrow> string \<Rightarrow> string \<Rightarrow> bool" where
  "longest_match m u p \<longleftrightarrow> path_prefix p u \<and> map_find m p \<noteq> None \<and>
     (\<forall>q. path_prefix q u \<longrightarrow> map_find m q \<noteq> None \<longrightarrow> length q \<le> length p)"

lemma find_handler_None: "find_handler m u = None \<longleftrightarrow> (\<forall>p. path_prefix p u \<longrightarrow> map_find m p = None)"
proof (induction m u rule: find_handler.induct)
  case (1 m u)
  show ?case
  proof (cases "u = []")
    case False
    then show ?thesis
      using 1 by (subst find_handler.simps) (auto simp: path_prefix_step [OF False] split: option.split)
  qed (simp add: find_handler.simps)
qed

lemma find_handler_Some:
  "find_handler m u = Some (p, h) \<Longrightarrow> longest_match m u p \<and> map_find m p = Some h"
proof (induction m u rule: find_handler.induct)
  case (1 m u)
  show ?case
  proof (cases "u = []")
    case True
    then show ?thesis using "1.prems" by (simp add: find_handler.simps)
  next
    case False
    show ?thesis
    proof (cases "map_find m u")
      case None
      then have "find_handler m (ShortenUriPrefix u) = Some (p, h)"
        using "1.prems" False by (subst (asm) find_handler.simps) simp
      from "1.IH" [OF False None this] show ?thesis
        using None by (auto simp: longest_match_def path_prefix_step [OF False])
    next
      case (Some h')
      then have "p = u" "h = h'" using "1.prems" False by (simp_all add: find_handler.simps)
      moreover have "length q \<le> length u" if "path_prefix q u" for q
        using path_prefix_prefix [OF that] by auto
      ultimately show ?thesis
        using Some False by (auto simp: longest_match_def path_prefix_step)
    qed
  qed
qed

lemma longest_match_unique: "longest_match m u p \<Longrightarrow> longest_match m u q \<Longrightarrow> p = q"
  by (meson le_antisym longest_match_def path_prefix_unique)

lemma find_handler_iff:
  "find_handler m u = Some (p, h) \<longleftrightarrow> longest_match m u p \<and> map_find m p = Some h"
proof
  assume r: "longest_match m u p \<and> map_find m p = Some h"
  then have "find_handler m u \<noteq> None" unfolding find_handler_None by (auto simp: longest_match_def)
  then obtain q g where q: "find_handler m u = Some (q, g)" by auto
  have "q = p" using find_handler_Some [OF q] r longest_match_unique by blast
  moreover from this have "g = h" using find_handler_Some [OF q] r by simp
  ultimately show "find_handler m u = Some (p, h)" using q by simp
qed (rule find_handler_Some)

end
