(* ===== verification/Connection_Correct.thy ===== *)
theory Connection_Correct
  imports Connection Server_Config_Correct
begin

text \<open>
  What serving a request does to the server and to the client, for every handler, from the contract
  the handlers share: what is counted is what is sent, the table keeps its prefixes and classes, and
  routing cannot throw on a server with a default handler and a request without \<open>Referer\<close>.
\<close>

section \<open>The invariant of a running server\<close>

definition server_inv :: "Server \<Rightarrow> bool" where
  "server_inv srv \<longleftrightarrow> map_ok (server_handlers srv) \<and> status_inv (server_status_object srv) \<and>
     map_find (server_handlers srv) DEFAULT_STRING \<noteq> None"

text \<open>Two tables with the same prefixes, handled by the same classes.\<close>

definition same_routes :: "Server \<Rightarrow> Server \<Rightarrow> bool" where
  "same_routes srv srv' \<longleftrightarrow>
     (\<forall>k. map_option class_of (map_find (server_handlers srv) k) =
          map_option class_of (map_find (server_handlers srv') k))"

lemma HandleRequest_class: "HandleRequest e h q p = Some (Inr (s, p', h')) \<Longrightarrow> class_of h' = class_of h"
  by (cases h) (auto simp: lift_handle_Some)

lemma choose_handler_find:
  "choose_handler m u = Inr (k, h) \<Longrightarrow> map_find m k = Some h"
  by (auto simp: choose_handler_def cxx_simps dest: find_handler_Some split: option.splits)

lemma choose_handler_total: "map_find m DEFAULT_STRING \<noteq> None \<Longrightarrow> \<exists>k h. choose_handler m u = Inr (k, h)"
  by (auto simp: choose_handler_def map_at_def split: option.splits)

lemma serveE:
  assumes "serve e a srv q = Some (Inr (text, srv'))"
  obtains prefix k h s r h' code where
    "referer_prefix (request_headers q) (uri q) = Inr prefix"
    "choose_handler (server_handlers srv) prefix = Inr (k, h)"
    "HandleRequest (with_status a (server_status_object srv) e) h q (Some new_Response) =
       Some (Inr (s, Some r, h'))"
    "GetResponseCode r = Inr code" "text = Response_ToString r" "status r = status_line code"
    "srv' = srv\<lparr>server_handlers := map_put k h' (server_handlers srv),
                server_status_object := UpdateStatus (uri q) code (server_status_object srv)\<rparr>"
proof -
  obtain k h where kh: "outcome_bind (referer_prefix (request_headers q) (uri q))
      (choose_handler (server_handlers srv)) = Inr (k, h)"
    using assms by (auto simp: serve_def split: sum.splits)
  then obtain prefix where 1: "referer_prefix (request_headers q) (uri q) = Inr prefix"
      "choose_handler (server_handlers srv) prefix = Inr (k, h)" by auto
  obtain s p h' where 2: "HandleRequest (with_status a (server_status_object srv) e) h q
      (Some new_Response) = Some (Inr (s, p, h'))"
    and 3: "on_response p (\<lambda>response. outcome_bind (GetResponseCode response) (\<lambda>code.
        Inr (Response_ToString response,
          srv\<lparr>server_handlers := map_put k h' (server_handlers srv),
              server_status_object := UpdateStatus (uri q) code (server_status_object srv)\<rparr>))) =
      Inr (text, srv')"
    using assms unfolding serve_def kh by auto
  obtain r where r: "p = Some r" "response_grows new_Response r"
    using any.keeps_pointer [OF 2] by blast
  obtain code where c: "GetResponseCode r = Inr code" "text = Response_ToString r"
      "srv' = srv\<lparr>server_handlers := map_put k h' (server_handlers srv),
                server_status_object := UpdateStatus (uri q) code (server_status_object srv)\<rparr>"
    using 3 r(1) by auto
  have "status r = status_line code"
    using c(1) r(2) by (auto simp: GetResponseCode_def response_grows_def status_ok_def split: option.splits)
  then show thesis using that 1 2 r(1) c by blast
qed

text \<open>The code that is counted is the one in the status line that is sent.\<close>

lemma serve_counts:
  assumes "serve e a srv q = Some (Inr (text, srv'))"
  shows "\<exists>code rest. text = status_line code @ CRLF @ rest \<and>
    server_status_object srv' = UpdateStatus (uri q) code (server_status_object srv)"
  using assms by (rule serveE) (auto simp: Response_ToString_def CRLF_def)

lemma serve_keeps:
  assumes "serve e a srv q = Some (Inr (text, srv'))" "server_inv srv"
  shows "server_inv srv' \<and> same_routes srv srv'"
  using assms(1)
proof (rule serveE)
  fix prefix k h s r h' code
  assume k: "choose_handler (server_handlers srv) prefix = Inr (k, h)"
    and h: "HandleRequest (with_status a (server_status_object srv) e) h q (Some new_Response) =
      Some (Inr (s, Some r, h'))"
    and srv': "srv' = srv\<lparr>server_handlers := map_put k h' (server_handlers srv),
                server_status_object := UpdateStatus (uri q) code (server_status_object srv)\<rparr>"
  show ?thesis
    using assms(2) choose_handler_find [OF k] HandleRequest_class [OF h]
    by (auto simp: srv' server_inv_def same_routes_def map_ok_put map_find_put status_inv_UpdateStatus)
qed

lemma handle_read_keeps:
  "handle_read e a srv error buf n = Some (Inr (ok, text, srv')) \<Longrightarrow> server_inv srv \<Longrightarrow>
   server_inv srv' \<and> same_routes srv srv'"
  by (auto simp: handle_read_def same_routes_def split: if_splits sum.splits dest: serve_keeps)

text \<open>The request parser never faults, so a read faults only in routing or in the handler.\<close>

lemma Request_Parse_status_total: "\<exists>q. Request_Parse_status s st = Inr q"
  using Parse_chars_total [of s] by (auto simp: Request_Parse_status_def Request_Parse_def)

section \<open>Requests without a Referer\<close>

lemma referer_prefix_none: "''Referer'' \<notin> fst ` set hs \<Longrightarrow> referer_prefix hs p = Inr p"
  by (induction hs) auto

lemma serve_simple:
  assumes "''Referer'' \<notin> fst ` set (request_headers q)"
    and "choose_handler (server_handlers srv) (uri q) = Inr (k, h)"
    and "HandleRequest (with_status a (server_status_object srv) e) h q (Some new_Response) =
      Some (Inr (s, Some r, h'))"
    and "raw_status r = Some code"
  shows "serve e a srv q = Some (Inr (Response_ToString r,
    srv\<lparr>server_handlers := map_put k h' (server_handlers srv),
        server_status_object := UpdateStatus (uri q) code (server_status_object srv)\<rparr>))"
  using assms by (simp add: serve_def referer_prefix_none GetResponseCode_def)

text \<open>The request as \<open>handle_read\<close> sees it: what was read, with the pointer to the status.\<close>

lemma handle_read_parsed:
  assumes "Parse_chars new_Request (take n buf) = Inr q"
  shows "handle_read e a srv False buf n =
    map_option (\<lambda>out. outcome_bind out (\<lambda>(text, srv'). Inr (True, Some text, srv')))
      (serve e a srv (q\<lparr>request_status := Some a\<rparr>))"
  using assms by (simp add: handle_read_def Request_Parse_status_def Request_Parse_def setServerStatus_def)

text \<open>
  A handler that is asked for exactly its prefix and refuses leaves the response without a code; the
  code is read all the same.
\<close>

lemma serve_no_code:
  assumes "''Referer'' \<notin> fst ` set (request_headers q)"
    and "choose_handler (server_handlers srv) (uri q) = Inr (k, h)"
    and "HandleRequest (with_status a (server_status_object srv) e) h q (Some new_Response) =
      Some (Inr (s, Some r, h'))"
    and "raw_status r = None"
  shows "serve e a srv q = Some (Inl Undefined_behaviour)"
  using assms by (simp add: serve_def referer_prefix_none GetResponseCode_def)

lemma StaticHandler_own_prefix:
  "uri q = static_uri_prefix h \<Longrightarrow>
   HandleRequest e (Static_object h) q (Some r) = Some (Inr (ERROR, Some r, Static_object h))"
  by (simp add: StaticHandler_HandleRequest_def under_prefix_def lift_handle_def)

lemma S3Handler_own_prefix:
  "uri q = s3_uri_prefix h \<Longrightarrow>
   HandleRequest e (S3_object h) q (Some r) = Some (Inr (ERROR, Some r, S3_object h))"
  by (simp add: S3Handler_HandleRequest_def under_prefix_def lift_handle_def)

section \<open>Echo, from the file to the client\<close>

lemma longest_match_choose:
  "longest_match m u p \<Longrightarrow> map_find m p = Some h \<Longrightarrow> choose_handler m u = Inr (p, h)"
  using find_handler_iff [of m u p h] by (simp add: choose_handler_def)

definition echo_text :: "string \<Rightarrow> string" where
  "echo_text raw = status_line OK_200 @ CRLF @ ''Content-Type: text/plain'' @ CRLF @ CRLF @ raw"

lemma serve_echo:
  assumes "''Referer'' \<notin> fst ` set (request_headers q)"
    and "longest_match (server_handlers srv) (uri q) p"
    and "map_find (server_handlers srv) p = Some (Echo_object h)"
  shows "serve e a srv q = Some (Inr (echo_text (raw_request q),
    srv\<lparr>server_handlers := map_put p (Echo_object h) (server_handlers srv),
        server_status_object := UpdateStatus (uri q) OK_200 (server_status_object srv)\<rparr>))"
proof -
  let ?r = "SetBody (raw_request q) (AddHeader CONTENT_TYPE ''text/plain'' (SetStatus OK_200 new_Response))"
  have "HandleRequest (with_status a (server_status_object srv) e) (Echo_object h) q (Some new_Response) =
      Some (Inr (OK, Some ?r, Echo_object h))"
    by (simp add: EchoHandler_HandleRequest_def lift_handle_def)
  moreover have "Response_ToString ?r = echo_text (raw_request q)"
    by (simp add: Response_ToString_def echo_text_def CRLF_def CONTENT_TYPE_def)
  ultimately show ?thesis
    using serve_simple [OF assms(1) longest_match_choose [OF assms(2,3)]] by simp
qed

lemma echo_end_to_end:
  assumes "request_ok m u maj mnr hs" "''Referer'' \<notin> (\<lambda>f. fst (field_pair f)) ` set hs"
    and "longest_match (server_handlers srv) u p"
    and "map_find (server_handlers srv) p = Some (Echo_object h)"
    and "raw = request_text m u maj mnr hs b" "take n buf = raw"
  shows "\<exists>srv'. handle_read e a srv False buf n = Some (Inr (True, Some (echo_text raw), srv')) \<and>
    server_status_object srv' = UpdateStatus u OK_200 (server_status_object srv)"
proof -
  let ?q = "(parsed_request m u maj mnr hs b)\<lparr>request_status := Some a\<rparr>"
  have q: "request_headers ?q = map field_pair hs" "uri ?q = u" "raw_request ?q = raw"
    by (simp_all add: parsed_request_def assms(5))
  have "''Referer'' \<notin> fst ` set (request_headers ?q)" using assms(2) unfolding q(1) set_map image_image .
  moreover have "longest_match (server_handlers srv) (uri ?q) p" using assms(3) q(2) by simp
  ultimately have "serve e a srv ?q = Some (Inr (echo_text raw,
      srv\<lparr>server_handlers := map_put p (Echo_object h) (server_handlers srv),
          server_status_object := UpdateStatus u OK_200 (server_status_object srv)\<rparr>))"
    using serve_echo [of ?q srv p h e a] assms(4) q by simp
  moreover have "Parse_chars new_Request (take n buf) = Inr (parsed_request m u maj mnr hs b)"
    using run_request [OF assms(1)] assms(5,6) by simp
  ultimately show ?thesis by (simp add: handle_read_parsed)
qed

end
