(* ===== verification/Server_Loop.thy ===== *)
theory Server_Loop
  imports Connection_Correct
begin

text \<open>
  The server at run time, \<open>Server::start_accept\<close>, \<open>handle_accept\<close> and the callbacks of
  \<open>Connection\<close>: a step relation over the completions that the \<open>io_service\<close> delivers.

  A step runs one callback to its end. The five threads of \<open>run\<close> can run callbacks of different
  connections at the same time; the relation shows the orders in which they do not overlap, \<open>Server_Threads\<close> the others. An
  exception or undefined behaviour in a callback takes the whole process down (\<open>Crashed\<close>): no
  caller catches it.
\<close>

section \<open>States\<close>

datatype phase =
    Reading
  | Writing string
  | Closed "string option"

text \<open>
  \<open>accepting\<close> is whether an \<open>async_accept\<close> is outstanding; the connections are numbered in
  the order they were created, and a closed one keeps what was written on it.
\<close>

record running =
  server :: Server
  accepting :: bool
  connections :: "phase list"

datatype process = Running running | Crashed fault

definition start_accept :: "running \<Rightarrow> running" where
  "start_accept s = s\<lparr>accepting := True\<rparr>"

text \<open>\<open>handle_accept(new_connection, error)\<close>: the flag it returns, and the state.\<close>

definition handle_accept :: "bool \<Rightarrow> running \<Rightarrow> bool \<times> running" where
  "handle_accept error s =
     (let s1 = s\<lparr>accepting := False\<rparr> in
      if error then (False, s1)
      else (True, start_accept (s1\<lparr>connections := connections s1 @ [Reading]\<rparr>)))"

definition set_phase :: "nat \<Rightarrow> phase \<Rightarrow> running \<Rightarrow> running" where
  "set_phase c p s = s\<lparr>connections := (connections s)[c := p]\<rparr>"

text \<open>
  The completion of the read of connection \<open>c\<close>. After an error nothing else refers to the
  connection, which is destroyed. \<open>None\<close>: the callback does not return.
\<close>

definition complete_read ::
  "environment \<Rightarrow> nat \<Rightarrow> nat \<Rightarrow> bool \<Rightarrow> string \<Rightarrow> nat \<Rightarrow> running \<Rightarrow> process option" where
  "complete_read e a c error buf n s =
     map_option (\<lambda>out. case out of
         Inl ft \<Rightarrow> Crashed ft
       | Inr (_, text, srv) \<Rightarrow>
           Running (set_phase c (case text of None \<Rightarrow> Closed None | Some t \<Rightarrow> Writing t)
             (s\<lparr>server := srv\<rparr>)))
       (handle_read e a (server s) error buf n)"

inductive step :: "environment \<Rightarrow> nat \<Rightarrow> process \<Rightarrow> process \<Rightarrow> bool" for e a where
  accept_step: "accepting s \<Longrightarrow> step e a (Running s) (Running (snd (handle_accept error s)))"
| read_step: "c < length (connections s) \<Longrightarrow> connections s ! c = Reading \<Longrightarrow>
    length buf = 1024 \<Longrightarrow> n \<le> 1024 \<Longrightarrow> complete_read e a c error buf n s = Some p \<Longrightarrow>
    step e a (Running s) p"
| write_step: "c < length (connections s) \<Longrightarrow> connections s ! c = Writing t \<Longrightarrow>
    step e a (Running s) (Running (set_phase c (Closed (Some t)) s))"

inductive_cases step_crashed: "step e a (Crashed ft) p"
inductive_cases step_running: "step e a (Running s) (Running s')"

definition started :: "Server \<Rightarrow> running" where
  "started srv = start_accept \<lparr>server = srv, accepting = False, connections = []\<rparr>"

definition reachable :: "environment \<Rightarrow> nat \<Rightarrow> Server \<Rightarrow> process \<Rightarrow> bool" where
  "reachable e a srv p \<longleftrightarrow> (step e a)\<^sup>*\<^sup>* (Running (started srv)) p"

section \<open>Invariants\<close>

text \<open>The connections that got as far as a response.\<close>

fun answered :: "phase \<Rightarrow> bool" where
  "answered Reading = False"
| "answered (Writing t) = True"
| "answered (Closed t) = (t \<noteq> None)"

text \<open>
  A text of a response starts with one of the four status lines.
\<close>

definition response_text :: "string \<Rightarrow> bool" where
  "response_text t \<longleftrightarrow> (\<exists>code rest. t = status_line code @ CRLF @ rest)"

fun phase_ok :: "phase \<Rightarrow> bool" where
  "phase_ok Reading = True"
| "phase_ok (Writing t) = response_text t"
| "phase_ok (Closed t) = (case t of None \<Rightarrow> True | Some u \<Rightarrow> response_text u)"

definition loop_inv :: "Server \<Rightarrow> running \<Rightarrow> bool" where
  "loop_inv srv s \<longleftrightarrow> server_inv (server s) \<and> same_routes srv (server s) \<and>
     list_all phase_ok (connections s) \<and>
     num_requests (server_status_object (server s)) =
       num_requests (server_status_object srv) + of_nat (length (filter answered (connections s)))"

lemma handle_read_text:
  assumes "handle_read e a srv error buf n = Some (Inr (ok, text, srv'))"
  shows "(text = None \<and> srv' = srv) \<or>
    (\<exists>t. text = Some t \<and> response_text t \<and>
      num_requests (server_status_object srv') = num_requests (server_status_object srv) + 1)"
proof (cases error)
  case False
  then obtain q t where "serve e a srv q = Some (Inr (t, srv'))" "text = Some t"
    using assms by (auto simp: handle_read_def split: sum.splits)
  moreover from serve_counts [OF this(1)] obtain code rest where
    "t = status_line code @ CRLF @ rest"
    "server_status_object srv' = UpdateStatus (uri q) code (server_status_object srv)" by blast
  ultimately show ?thesis by (auto simp: response_text_def UpdateStatus_eq)
qed (use assms in \<open>simp add: handle_read_def\<close>)

lemma filter_update:
  assumes "c < length xs"
  shows "length (filter P (xs[c := x])) + (if P (xs ! c) then 1 else 0) =
    length (filter P xs) + (if P x then 1 else 0)"
  using assms
proof (induction xs arbitrary: c)
  case (Cons y ys)
  then show ?case by (cases c) auto
qed simp

lemma complete_readE:
  assumes "complete_read e a c error buf n s = Some (Running s')"
  obtains ok reply srv where "handle_read e a (server s) error buf n = Some (Inr (ok, reply, srv))"
    "s' = set_phase c (case reply of None \<Rightarrow> Closed None | Some t \<Rightarrow> Writing t) (s\<lparr>server := srv\<rparr>)"
proof -
  obtain out where out: "handle_read e a (server s) error buf n = Some out"
    using assms by (auto simp: complete_read_def)
  then obtain ok reply srv where "out = Inr (ok, reply, srv)"
    using assms by (cases out) (auto simp: complete_read_def)
  with out assms that show thesis by (simp add: complete_read_def)
qed

lemma loop_inv_read:
  assumes "loop_inv srv s" "c < length (connections s)" "connections s ! c = Reading"
    and "complete_read e a c error buf n s = Some (Running s')"
  shows "loop_inv srv s'"
proof -
  from assms(4) obtain ok reply srv1 where r: "handle_read e a (server s) error buf n = Some (Inr (ok, reply, srv1))"
    and s': "s' = set_phase c (case reply of None \<Rightarrow> Closed None | Some t \<Rightarrow> Writing t) (s\<lparr>server := srv1\<rparr>)"
    by (rule complete_readE)
  have keep: "server_inv srv1" "same_routes srv srv1"
    using handle_read_keeps [OF r] assms(1) by (auto simp: loop_inv_def same_routes_def)
  let ?x = "case reply of None \<Rightarrow> Closed None | Some t \<Rightarrow> Writing t"
  have cnt: "length (filter answered ((connections s)[c := ?x])) =
      length (filter answered (connections s)) + (if answered ?x then 1 else 0)"
    using filter_update [OF assms(2), of answered ?x] assms(3) by simp
  have ok: "list_all phase_ok ((connections s)[c := ?x])"
    using assms(1) handle_read_text [OF r]
    by (auto simp: loop_inv_def list_all_iff dest!: subsetD [OF set_update_subset_insert])
  show ?thesis
    using handle_read_text [OF r] assms(1) keep ok cnt
    by (auto simp: s' loop_inv_def set_phase_def)
qed

lemma loop_inv_accept:
  "loop_inv srv s \<Longrightarrow> loop_inv srv (snd (handle_accept error s))"
  by (auto simp: handle_accept_def Let_def start_accept_def loop_inv_def)

lemma loop_inv_write:
  assumes "loop_inv srv s" "c < length (connections s)" "connections s ! c = Writing t"
  shows "loop_inv srv (set_phase c (Closed (Some t)) s)"
proof -
  have "phase_ok (Writing t)" using assms by (metis list_all_length loop_inv_def)
  moreover have "length (filter answered ((connections s)[c := Closed (Some t)])) =
      length (filter answered (connections s))"
    using filter_update [of c "connections s" answered "Closed (Some t)"] assms(2,3) by simp
  ultimately show ?thesis
    using assms(1)
    by (auto simp: set_phase_def loop_inv_def list_all_iff dest!: subsetD [OF set_update_subset_insert])
qed

lemma loop_inv_step:
  "step e a (Running s) (Running s') \<Longrightarrow> loop_inv srv s \<Longrightarrow> loop_inv srv s'"
  by (erule step_running) (auto intro: loop_inv_accept loop_inv_read loop_inv_write)

lemma loop_inv_started: "server_inv srv \<Longrightarrow> loop_inv srv (started srv)"
  by (simp add: loop_inv_def started_def start_accept_def same_routes_def)

lemma reachable_inv:
  assumes "reachable e a srv p" "server_inv srv"
  shows "\<forall>s. p = Running s \<longrightarrow> loop_inv srv s"
  using assms(1) unfolding reachable_def
proof (induction rule: rtranclp_induct)
  case base
  then show ?case by (simp add: loop_inv_started [OF assms(2)])
next
  case (step p p')
  then show ?case
    by (cases p) (auto dest: loop_inv_step elim: step_crashed)
qed

text \<open>
  After one failed accept nothing is accepted any more: there is no other call of
  \<open>start_accept\<close>.
\<close>

lemma no_accept_step:
  "step e a (Running s) (Running s') \<Longrightarrow> \<not> accepting s \<Longrightarrow>
   \<not> accepting s' \<and> length (connections s') = length (connections s)"
  by (erule step_running) (auto simp: set_phase_def elim!: complete_readE)

lemma no_accept:
  assumes "(step e a)\<^sup>*\<^sup>* (Running s) p" "\<not> accepting s"
  shows "\<forall>s'. p = Running s' \<longrightarrow> \<not> accepting s' \<and> length (connections s') = length (connections s)"
  using assms(1)
proof (induction rule: rtranclp_induct)
  case base
  then show ?case using assms(2) by simp
next
  case (step p p')
  then show ?case
    by (cases p) (auto dest: no_accept_step elim: step_crashed)
qed

text \<open>A connection answers at most once: an answered one never changes its text.\<close>

fun text_of :: "phase \<Rightarrow> string option" where
  "text_of Reading = None"
| "text_of (Writing t) = Some t"
| "text_of (Closed t) = t"

lemma text_of_step:
  "step e a (Running s) (Running s') \<Longrightarrow> c < length (connections s) \<Longrightarrow> answered (connections s ! c) \<Longrightarrow>
   c < length (connections s') \<and> answered (connections s' ! c) \<and>
   text_of (connections s' ! c) = text_of (connections s ! c)"
  by (erule step_running)
     (auto simp: set_phase_def handle_accept_def start_accept_def Let_def nth_append nth_list_update
        elim!: complete_readE split: if_splits)

lemma text_of_reachable:
  assumes "(step e a)\<^sup>*\<^sup>* (Running s) p" "c < length (connections s)" "answered (connections s ! c)"
  shows "\<forall>s'. p = Running s' \<longrightarrow> c < length (connections s') \<and> answered (connections s' ! c) \<and>
    text_of (connections s' ! c) = text_of (connections s ! c)"
  using assms(1)
proof (induction rule: rtranclp_induct)
  case base
  then show ?case using assms(2,3) by simp
next
  case (step p p')
  then show ?case
    by (cases p) (auto dest: text_of_step elim: step_crashed)
qed

end
