(* ===== verification/Markdown_Correct.thy ===== *)
theory Markdown_Correct
  imports Markdown_Document Static_Handler
begin

text \<open>
  What a document becomes: lists hold list items, lines that no expression matches become one
  paragraph, and the inputs on which the converter drops a line or fails.
\<close>

section \<open>Lists hold list items\<close>

text \<open>This is what the cast in the constructor of \<open>UnorderedList\<close> relies on.\<close>

definition is_item :: "Token \<Rightarrow> bool" where
  "is_item t \<longleftrightarrow> (\<exists>us b. t = ListItem us b \<and> us \<noteq> [])"

definition items_ok :: "ListState \<Rightarrow> bool" where
  "items_ok st \<longleftrightarrow> list_all is_item (listTokens st)"

lemma items_ok_simps [simp]:
  "items_ok st \<Longrightarrow> items_ok (end_item st)" "items_ok st \<Longrightarrow> items_ok (count_item st)"
  "items_ok st \<Longrightarrow> items_ok (paragraph_mode st)" "items_ok st \<Longrightarrow> items_ok (next_item s st)"
  "items_ok st \<Longrightarrow> items_ok (add_sub ts st)" "items_ok (new_ListState b n e s)"
  by (auto simp: items_ok_def is_item_def end_item_def count_item_def paragraph_mode_def next_item_def add_sub_def
      new_ListState_def Let_def)

definition turn_state :: "list_turn \<Rightarrow> ListState" where
  "turn_state turn = (case turn of Go_on st _ \<Rightarrow> st | Sublist st _ \<Rightarrow> st | Stop st _ \<Rightarrow> st)"

lemma list_turn_items:
  assumes "list_turn_of rx st rest = Inr turn" "items_ok st"
  shows "items_ok (turn_state turn)"
proof -
  have "blank_turn rx st rest = Inr turn \<Longrightarrow> items_ok (turn_state turn)"
    using assms(2) by (auto simp: blank_turn_def turn_state_def outcome_bind_def
        split: list.splits option.splits if_split_asm sum.splits)
  moreover have "text_turn rx st line rest = Inr turn \<Longrightarrow> items_ok (turn_state turn)" for line
    using assms(2) by (auto simp: text_turn_def turn_state_def split: option.splits if_split_asm)
  ultimately show ?thesis using assms
    by (auto simp: list_turn_of_def turn_state_def split: if_split_asm option.splits)
qed

lemma list_loop_items: "list_loop rest rx st = ret (st', ts) \<Longrightarrow> items_ok st \<Longrightarrow> items_ok st'"
proof (induction rule: list_loop_induct)
  case (stop rest st st' ts)
  then show ?case using list_turn_items [of rx st rest "Stop st' ts"] by (simp add: turn_state_def)
next
  case (go rest st st1 ts1 st' ts)
  then show ?case using list_turn_items [of rx st rest "Go_on st1 ts1"] by (simp add: turn_state_def)
next
  case (sub rest st st1 ts1 sub st2 ts2 p st' ts)
  then show ?case using list_turn_items [of rx st rest "Sublist st1 ts1"] by (simp add: turn_state_def)
qed simp

lemma is_item_allow [simp]: "is_item t \<Longrightarrow> is_item (allow_paragraphs t)"
  by (auto simp: is_item_def)

lemma parseListBlock_items:
  assumes "parseListBlock rx sub ts = ret (Some p, rest)"
  shows "\<exists>items. (p = UnorderedList items \<or> p = OrderedList items) \<and> list_all is_item items"
proof -
  obtain st r where st: "list_start rx sub (hd ts) = Some st" and l: "list_loop (tl ts) rx st = ret r"
    and e: "list_end ts r = (Some p, rest)"
    using assms by (auto simp: parseListBlock_def run_bind_eq_ret split: option.splits)
  have "items_ok st" using st by (auto simp: list_start_def Let_def split: option.splits if_split_asm)
  with l have "items_ok (fst r)" using list_loop_items [of "tl ts" rx st "fst r" "snd r"] by simp
  then have "items_ok (end_item (fst r))" by simp
  then have "list_all is_item (listTokens (end_item (fst r)))" by (simp add: items_ok_def)
  moreover have "p = new_list (end_item (fst r))"
    using e by (auto simp: list_end_def Let_def split: prod.splits if_split_asm)
  ultimately show ?thesis by (auto simp: new_list_def Let_def list_all_iff)
qed

section \<open>Plain text\<close>

text \<open>
  A line that the first two passes leave alone, one that the block parsers leave alone too, and a text that
  no expression of the span passes matches.
\<close>

definition text_line :: "regex \<Rightarrow> string \<Rightarrow> bool" where
  "text_line rx l \<longleftrightarrow>
     l \<noteq> [] \<and> list_all line_char l \<and> \<not> isBlankLine rx l \<and>
     list_all (\<lambda>e. \<not> matches rx e l) [cHtmlTokenStart, cReference] \<and>
     parseHtmlTag rx l cStarts = None \<and> \<not> isHtmlCommentStart rx l"

definition no_head :: "regex \<Rightarrow> string \<Rightarrow> bool" where
  "no_head rx l \<longleftrightarrow>
     list_all (\<lambda>e. \<not> matches rx e l)
       [''^(#{1,6}) +(.*?) *#*$'', backslashed ''^([-=])~1*$'', backslashed ''^ {0,3}((?:-|~*|_) *){3,}$'']"

definition inert_line :: "regex \<Rightarrow> string \<Rightarrow> bool" where
  "inert_line rx l \<longleftrightarrow>
     text_line rx l \<and> no_head rx l \<and> take 4 l \<noteq> spaces 4 \<and>
     list_all (\<lambda>e. \<not> matches rx e l)
       [cUnorderedListExpression, cOrderedListExpression, cBlockQuoteExpression, ''^(.*)  $'']"

definition staged_text :: "regex \<Rightarrow> string \<Rightarrow> bool" where
  "staged_text rx s \<longleftrightarrow>
     list_all (\<lambda>e. rx_search rx e s = None) [cHtmlToken, cCodeSpan ! 0, cCodeSpan ! 1, cLinkExpression] \<and>
     BACKSLASH \<notin> set s"

definition inert_text :: "regex \<Rightarrow> string \<Rightarrow> bool" where
  "inert_text rx s \<longleftrightarrow>
     staged_text rx s \<and> rx_search rx cEmphasisExpression s = None \<and> rx_search rx cReplaced s = None"

fun join_lines :: "string list \<Rightarrow> string" where
  "join_lines [] = []"
| "join_lines [l] = l"
| "join_lines (l # ls) = l @ '' '' @ join_lines ls"

abbreviation raw_lines :: "string list \<Rightarrow> Token list" where
  "raw_lines ls \<equiv> map (\<lambda>l. RawText l True) ls"

lemma Token_text_RawText [simp]: "Token_text (RawText s b) = Some s" "canContainMarkup (RawText s b) = b"
  by (simp_all add: Token_text_def canContainMarkup_def)

lemma markup_line_RawText [simp]: "markup_line (RawText s True) = Some s"
  by (simp add: markup_line_def)

lemma merge_plain: "list_all (text_line rx) ls \<Longrightarrow> mergeMultilineHtmlTags rx (raw_lines ls) = raw_lines ls"
proof (induction ls)
  case (Cons l ls)
  then show ?case by (cases ls) (simp_all add: text_line_def)
qed simp

lemma inline_plain:
  assumes "list_all (text_line rx) ls" "processed = [] \<or> \<not> Token_isBlankLine (last processed)"
  shows "inline_loop (raw_lines ls) rx processed ids = ret (processed @ raw_lines ls, ids)"
  using assms
proof (induction ls arbitrary: processed)
  case Nil
  then show ?case by (subst inline_loop.simps) simp
next
  case (Cons l ls)
  have "parseInlineHtml rx (raw_lines (l # ls)) = ret (None, raw_lines (l # ls))"
    using Cons.prems(1) by (simp add: parseInlineHtml_def text_line_def)
  moreover have "fst (parseReference rx (raw_lines (l # ls)) ids) = False"
    using Cons.prems(1) by (simp add: parseReference_def text_line_def matches_def)
  ultimately have "inline_turn rx processed ids (raw_lines (l # ls)) =
      ret (processed @ [RawText l True], ids, raw_lines ls)"
    by (cases "parseReference rx (raw_lines (l # ls)) ids") (simp add: inline_turn_def)
  with Cons.IH [of "processed @ [RawText l True]"] Cons.prems show ?case
    by (subst inline_loop.simps) simp
qed

lemma parse_block_no_head:
  assumes "no_head rx l" "ts = [] \<or> (\<exists>k ks. ts = RawText k True # ks \<and> no_head rx k)"
  shows "parse_block rx (RawText l True # ts) =
    run_bind (parseListBlock rx False (RawText l True # ts)) (\<lambda>(p, ts').
      if p \<noteq> None then ret (p, ts')
      else run_bind (parseBlockQuote rx (RawText l True # ts)) (\<lambda>(p, ts').
        if p \<noteq> None then ret (p, ts') else ret (parseCodeBlock (RawText l True # ts))))"
proof -
  have "parseHeader rx (RawText l True # ts) = (None, RawText l True # ts)"
    using assms by (auto simp: parseHeader_def no_head_def matches_def)
  moreover have "parseHorizontalRule rx (RawText l True # ts) = None"
    using assms(1) by (simp add: parseHorizontalRule_def no_head_def)
  ultimately show ?thesis by (simp add: parse_block_def)
qed

lemma parse_block_inert:
  assumes "inert_line rx l" "ls = [] \<or> inert_line rx (hd ls)"
  shows "\<exists>ts. parse_block rx (raw_lines (l # ls)) = ret (None, ts)"
proof -
  have after: "raw_lines ls = [] \<or> (\<exists>k ks. raw_lines ls = RawText k True # ks \<and> no_head rx k)"
    using assms(2) by (cases ls) (auto simp: inert_line_def)
  have "parseListBlock rx False (raw_lines (l # ls)) = ret (None, raw_lines (l # ls))"
    using assms by (simp add: parseListBlock_def list_start_def inert_line_def matches_def)
  moreover have "parseBlockQuote rx (raw_lines (l # ls)) = ret (None, raw_lines (l # ls))"
    using assms by (simp add: parseBlockQuote_def inert_line_def matches_def)
  moreover have "fst (parseCodeBlock (raw_lines (l # ls))) = None"
    using assms by (simp add: parseCodeBlock_def inert_line_def spaces_def numeral_eq_Suc)
  ultimately show ?thesis
    using parse_block_no_head [OF _ after, of l] assms(1)
    by (cases "parseCodeBlock (raw_lines (l # ls))") (simp add: inert_line_def)
qed

lemma blocks_inert:
  "list_all (inert_line rx) ls \<Longrightarrow> blocks_loop (raw_lines ls) rx processed = ret (processed @ raw_lines ls)"
proof (induction ls arbitrary: processed)
  case Nil
  then show ?case by (subst blocks_loop.simps) simp
next
  case (Cons l ls)
  obtain ts where "parse_block rx (raw_lines (l # ls)) = ret (None, ts)"
    using parse_block_inert [of rx l ls] Cons.prems by (cases ls) auto
  with Cons.IH [of "processed @ [RawText l True]"] Cons.prems show ?case
    by (subst blocks_loop.simps) simp
qed

lemma paragraph_inert:
  "list_all (inert_line rx) ls \<Longrightarrow> ls \<noteq> [] \<Longrightarrow> p \<noteq> [] \<Longrightarrow>
   paragraph_lines rx False p (raw_lines ls) = [Paragraph [RawText (p @ '' '' @ join_lines ls) True]]"
proof (induction ls arbitrary: p)
  case (Cons l ls)
  then have l: "rx_match rx ''^(.*)  $'' l = None" "l \<noteq> []" by (simp_all add: inert_line_def text_line_def matches_def)
  show ?case
  proof (cases ls)
    case Nil
    with l Cons.prems show ?thesis by (simp add: joined_def flushParagraph_def raw_text_def Let_def)
  next
    case (Cons k ks)
    with Cons.IH [of "p @ '' '' @ l"] Cons.prems l show ?thesis by (simp add: joined_def)
  qed
qed simp

lemma paragraph_inert_first:
  assumes "list_all (inert_line rx) ls" "ls \<noteq> []"
  shows "paragraph_lines rx False [] (raw_lines ls) = [Paragraph [RawText (join_lines ls) True]]"
proof -
  obtain l ks where ls: "ls = l # ks" using assms(2) by (cases ls) auto
  then have l: "rx_match rx ''^(.*)  $'' l = None" "l \<noteq> []" using assms(1) by (simp_all add: inert_line_def text_line_def matches_def)
  show ?thesis
  proof (cases ks)
    case Nil
    with l ls show ?thesis by (simp add: joined_def flushParagraph_def raw_text_def Let_def)
  next
    case (Cons k ks')
    with paragraph_inert [of rx ks l] assms(1) l ls show ?thesis by (simp add: joined_def)
  qed
qed

lemma processParagraphLines_RawText [simp]: "processParagraphLines rx (RawText s b) = RawText s b"
  by (simp add: processParagraphLines.simps)

text \<open>The stages leave an inert text as it is.\<close>

lemma scan_none: "search s = None \<Longrightarrow> scan s search turn st = ret (st, s)"
  by (subst scan.simps) simp

lemma escaped_inert: "BACKSLASH \<notin> set s \<Longrightarrow> processEscapedCharacters s = s"
  by (induction s rule: processEscapedCharacters.induct) auto

lemma span_stages_id:
  assumes "staged_text rx s"
  shows "span_stages rx ids s = ret ([], s)"
  using assms by (simp add: span_stages_def processHtmlTagAttributes_def processCodeSpans_def
      processCodeSpans_pass_def processLinksImagesAndTags_def scan_text_def scan_none escaped_inert staged_text_def)

lemma spans_staged:
  assumes "staged_text rx s"
  shows "processSpanElements rx ids (RawText s True) =
    run_bind (processBoldAndItalicSpans rx s []) (\<lambda>ts. ret (if length ts > 1 then [Container ts] else ts))"
  using span_stages_id [OF assms]
  by (subst processSpanElements.simps) (simp add: RawText_processSpanElements_def run_bind_assoc)

lemma match_emphasis_raw: "match_emphasis [RawText s True] addr = ret [RawText s True]"
  by (simp add: match_emphasis_def match_markers_skip match_markers_Nil unmatch_def unmatch_step_def ret_def)

lemma bold_inert:
  assumes "inert_text rx s" "s \<noteq> []"
  shows "processBoldAndItalicSpans rx s [] = ret [RawText s True]"
proof -
  have "emphasis_tokens rx s = ret (0, [RawText s True])"
    using assms by (simp add: emphasis_tokens_def scan_none inert_text_def raw_text_def)
  moreover have "encodeProcessedItems rx s [] = ret [RawText s True]"
    using assms by (simp add: encodeProcessedItems_def scan_none inert_text_def raw_text_def)
  ultimately show ?thesis by (simp add: processBoldAndItalicSpans_def match_emphasis_raw encode_token_def)
qed

definition text_flags :: "32 word" where
  "text_flags = or cAmps (or cAngles cQuotes)"

lemma text_flags_nonzero: "or cAmps (or cAngles cQuotes) \<noteq> 0"
  by (simp add: cAmps_def cAngles_def cQuotes_def)

text \<open>The document of plain lines: what is left to do are the block parsers and the spans.\<close>

definition written :: "regex \<Rightarrow> Token list \<Rightarrow> string option run" where
  "written rx ts =
     (if markers_sized (Container ts) then ret (Some (writeAsHtml rx (Container ts))) else Run.fail Assertion_failed)"

abbreviation lines_text :: "string list \<Rightarrow> string" where
  "lines_text ls \<equiv> concat (map (\<lambda>l. l @ [LF]) ls)"

definition read_document :: "regex \<Rightarrow> string \<Rightarrow> Document" where
  "read_document rx s = snd (Document_read rx s new_Document)"

lemma read_plain:
  assumes "list_all (text_line rx) ls"
  shows "read_document rx (lines_text ls) = new_Document\<lparr>mTokenContainer := raw_lines ls\<rparr>"
proof -
  have chars: "\<forall>l\<in>set ls. list_all line_char l" "\<forall>l\<in>set ls. \<not> isBlankLine rx l"
    using assms by (auto simp: list_all_iff text_line_def)
  have "read_lines cSpacesPerInitialTab (lines_text ls) = ls"
    by (rule read_lines_joined) (use chars in auto)
  moreover have "map (line_token rx) ls = raw_lines ls" using chars(2) by (simp add: line_token_def)
  ultimately show ?thesis by (simp add: read_document_def Document_read_def new_Document_def)
qed

lemma plain_tree:
  assumes "list_all (text_line rx) ls"
  shows "document_tree rx (read_document rx (lines_text ls)) =
    run_bind (blocks_loop (raw_lines ls) rx []) (\<lambda>ts. ret (paragraph_tokens rx ts, []))"
  using assms by (simp add: read_plain document_tree_def merge_plain inline_plain new_Document_def)

lemma markdown_html_read:
  "markdown_html rx s = run_bind (Document_write rx (read_document rx s)) (\<lambda>(html, _). ret (Some html))"
  by (simp add: markdown_html_def read_document_def Document_read_def new_Document_def)

lemma read_not_processed: "\<not> mProcessed (read_document rx s)"
  by (simp add: read_document_def Document_read_def new_Document_def)

lemma markdown_plain:
  assumes "list_all (text_line rx) ls"
  shows "markdown_html rx (lines_text ls) =
    run_bind (blocks_loop (raw_lines ls) rx []) (\<lambda>ts.
      run_bind (span_tokens rx [] (paragraph_tokens rx ts)) (written rx))"
proof -
  have w: "written rx = (\<lambda>ts. if \<not> list_all markers_sized ts then Run.fail Assertion_failed
      else ret (Some (concat (map (writeAsHtml rx) ts))))"
    by (rule ext) (simp add: written_def)
  show ?thesis
    unfolding markdown_html_read Document_write_def Document_process_def if_not_P [OF read_not_processed]
      plain_tree [OF assms] run_bind_assoc
    by (simp add: run_bind_assoc w if_distrib [of "\<lambda>r. run_bind r _"] cong: if_cong)
qed

lemma inert_plain: "list_all (inert_line rx) ls \<Longrightarrow> list_all (text_line rx) ls"
  by (simp add: list_all_iff inert_line_def)

lemma inert_tree:
  assumes "list_all (inert_line rx) ls" "ls \<noteq> []"
  shows "document_tree rx (read_document rx (lines_text ls)) = ret ([Paragraph [RawText (join_lines ls) True]], [])"
  using assms by (simp add: plain_tree inert_plain blocks_inert paragraph_tokens_def comp_def paragraph_inert_first)

text \<open>A document of one paragraph is its text with the emphasis.\<close>

lemma markdown_text:
  assumes lines: "list_all (inert_line rx) ls" "ls \<noteq> []" and staged: "staged_text rx (join_lines ls)"
  shows "markdown_html rx (lines_text ls) =
    run_bind (processBoldAndItalicSpans rx (join_lines ls) []) (\<lambda>ts.
      written rx [Paragraph (if length ts > 1 then [Container ts] else ts)])"
proof -
  have "span_tokens rx [] (paragraph_tokens rx (raw_lines ls)) =
      run_bind (processBoldAndItalicSpans rx (join_lines ls) []) (\<lambda>ts.
        ret [Paragraph (if length ts > 1 then [Container ts] else ts)])"
    using lines by (simp add: paragraph_tokens_def paragraph_inert_first span_tokens_def comp_def
        processSpanElements.simps [of _ _ "Paragraph _"] spans_staged [OF staged] run_bind_assoc)
  then show ?thesis using lines by (simp add: markdown_plain [OF inert_plain] blocks_inert run_bind_assoc)
qed

lemma markdown_paragraph:
  assumes lines: "list_all (inert_line rx) ls" "ls \<noteq> []" and inert: "inert_text rx (join_lines ls)"
  shows "markdown_html rx (lines_text ls) =
    ret (Some (''<p>'' @ encodeString rx text_flags (join_lines ls) @ ''</p>'' @ [LF, LF]))"
proof -
  have "join_lines ls \<noteq> []"
    using lines by (cases ls rule: join_lines.cases) (auto simp: inert_line_def text_line_def)
  then show ?thesis
    using markdown_text [OF lines] bold_inert [OF inert] inert
    by (simp add: written_def TextHolder_writeAsHtml_def text_flags_def text_flags_nonzero inert_text_def)
qed

section \<open>Lines that are lost and documents that end the server\<close>

text \<open>
  A quote leaves the iterator on the first line that does not continue it, and the loop over the blocks
  goes on after that line.
\<close>

lemma quote_drops:
  assumes "no_head rx l" "no_head rx k" "list_start rx False (RawText l True) = None"
    and "rx_match rx cBlockQuoteExpression l = Some m"
    and "rx_match rx (quote_continuation (countQuoteLevel (cap m 1))) k = None"
  shows "blocks_loop (RawText l True # RawText k True # ts) rx processed =
    run_bind (blocks_loop [RawText (cap m 2) True] rx []) (\<lambda>us. blocks_loop ts rx (processed @ [BlockQuote us]))"
proof -
  have "parseListBlock rx False (RawText l True # RawText k True # ts) =
      ret (None, RawText l True # RawText k True # ts)"
    using assms(3) by (simp add: parseListBlock_def)
  moreover have "parseBlockQuote rx (RawText l True # RawText k True # ts) =
      ret (Some (BlockQuote [RawText (cap m 2) True]), RawText k True # ts)"
    using assms(4,5) by (simp add: parseBlockQuote_def quote_match_def text_of_def)
  ultimately have "parse_block rx (RawText l True # RawText k True # ts) =
      ret (Some (BlockQuote [RawText (cap m 2) True]), RawText k True # ts)"
    using parse_block_no_head [OF assms(1), of "RawText k True # ts"] assms(2) by simp
  then show ?thesis by (subst blocks_loop.simps) simp
qed

text \<open>
  A line after a list item that looks like the start of a list in the list, but is none for the expression
  that decides it, fails an assertion.
\<close>

lemma sublist_fails:
  assumes "no_head rx l" "no_head rx k" "list_start rx False (RawText l True) = Some st"
    and "matches rx (startSublistExpression st) k" "list_start rx True (RawText k True) = None"
  shows "blocks_loop (RawText l True # RawText k True # ts) rx processed = Run.fail Assertion_failed"
proof -
  have "list_loop (RawText k True # ts) rx st = Run.fail Assertion_failed"
    using assms(4,5) by (subst list_loop.simps) (simp add: list_turn_of_def text_turn_def)
  then have "parseListBlock rx False (RawText l True # RawText k True # ts) = Run.fail Assertion_failed"
    using assms(3) by (simp add: parseListBlock_def)
  then have "parse_block rx (RawText l True # RawText k True # ts) = Run.fail Assertion_failed"
    using parse_block_no_head [OF assms(1), of "RawText k True # ts"] assms(2) by simp
  then show ?thesis by (subst blocks_loop.simps) simp
qed

end
