(* ===== verification/Markdown_Emphasis_Correct.thy ===== *)
theory Markdown_Emphasis_Correct
  imports Markdown_Emphasis "HOL-Library.Sublist"
begin

text \<open>
  What the matching of emphasis markers gives: when it ends and when it does not, and that the tags
  which are left nest.
\<close>

lemmas token_simps = isUnmatchedOpenMarker.simps isUnmatchedCloseMarker.simps isMatchedOpenMarker.simps
  isMatchedCloseMarker.simps marker_of.simps

section \<open>The loops end\<close>

text \<open>
  A marker of three characters can be split once, into two shorter ones; with three from one character
  at the start and three of the other at the end it would be split for ever.
\<close>

definition is_three :: "Token \<Rightarrow> bool" where
  "is_three t \<longleftrightarrow> (isUnmatchedOpenMarker t \<or> isUnmatchedCloseMarker t) \<and> mSize (the (marker_of t)) = 3"

definition weight :: "Token \<Rightarrow> nat" where
  "weight t = (if is_three t then 4 else 1)"

abbreviation total_weight :: "Token list \<Rightarrow> nat" where
  "total_weight ts \<equiv> sum_list (map weight ts)"

definition sizes_ok :: "Token list \<Rightarrow> bool" where
  "sizes_ok ts \<longleftrightarrow> list_all (\<lambda>t. case marker_of t of Some m \<Rightarrow> mSize m \<in> {1, 2, 3} | None \<Rightarrow> True) ts"

definition threes_agree :: "Token list \<Rightarrow> bool" where
  "threes_agree ts \<longleftrightarrow>
     list_all (\<lambda>t. list_all (\<lambda>u. isUnmatchedOpenMarker t \<and> is_three t \<and> isUnmatchedCloseMarker u \<and> is_three u \<longrightarrow>
       mTokenCharacter (the (marker_of t)) = mTokenCharacter (the (marker_of u))) ts) ts"

lemma weight_simps [simp]:
  "weight (BoldOrItalicMarker (disable m)) = 1"
  "weight (BoldOrItalicMarker (matched (Some a) n m)) = 1"
  "weight (BoldOrItalicMarker (new_Marker a b c s)) = (if s = 3 then 4 else 1)"
  by (simp_all add: weight_def is_three_def token_simps disable_def matched_def new_Marker_def)

lemma is_three_simps [simp]:
  "\<not> is_three (BoldOrItalicMarker (disable m))"
  "\<not> is_three (BoldOrItalicMarker (matched (Some a) n m))"
  "is_three (BoldOrItalicMarker (new_Marker a b c s)) \<longleftrightarrow> s = 3"
  by (simp_all add: is_three_def token_simps disable_def matched_def new_Marker_def)

lemma weight_ge [simp]: "0 < weight t"
  by (simp add: weight_def)

lemma mSize_simps [simp]:
  "mSize (disable m) = mSize m" "mSize (matched a n m) = mSize m" "mSize (new_Marker i b c s) = s"
  "mTokenCharacter (new_Marker i b c s) = c"
  by (simp_all add: disable_def matched_def new_Marker_def)

lemma sizes_ok_simps [simp]:
  "sizes_ok []" "sizes_ok (xs @ ys) \<longleftrightarrow> sizes_ok xs \<and> sizes_ok ys"
  "sizes_ok (BoldOrItalicMarker m # xs) \<longleftrightarrow> mSize m \<in> {1, 2, 3} \<and> sizes_ok xs"
  by (simp_all add: sizes_ok_def token_simps)

lemma sizes_ok_Cons:
  "sizes_ok (t # xs) \<longleftrightarrow> (\<forall>m. marker_of t = Some m \<longrightarrow> mSize m \<in> {1, 2, 3}) \<and> sizes_ok xs"
  by (auto simp: sizes_ok_def split: option.splits)

text \<open>Only the markers of three characters count for \<open>threes_agree\<close>.\<close>

lemma threes_agree_mono:
  assumes "threes_agree ts" "\<And>t. t \<in> set us \<Longrightarrow> is_three t \<Longrightarrow> t \<in> set ts"
  shows "threes_agree us"
  using assms unfolding threes_agree_def list_all_iff by blast

lemma threes_agreeD:
  assumes "threes_agree ts" "BoldOrItalicMarker m \<in> set ts" "BoldOrItalicMarker k \<in> set ts"
    "isUnmatchedOpenMarker (BoldOrItalicMarker m)" "isUnmatchedCloseMarker (BoldOrItalicMarker k)"
    "mSize m = 3" "mSize k = 3"
  shows "mTokenCharacter m = mTokenCharacter k"
proof -
  have "is_three (BoldOrItalicMarker m)" "is_three (BoldOrItalicMarker k)"
    using assms(4-) by (simp_all add: is_three_def)
  with assms show ?thesis unfolding threes_agree_def list_all_iff by fastforce
qed

lemma unmatched_close_marker:
  assumes "isUnmatchedCloseMarker t"
  obtains m where "t = BoldOrItalicMarker m" "\<not> mOpenMarker m" "mMatch m = None" "\<not> mCannotMatch m"
  using assms by (cases t) (auto simp: token_simps)

lemma unmatched_open_marker:
  assumes "isUnmatchedOpenMarker t"
  obtains m where "t = BoldOrItalicMarker m" "mOpenMarker m" "mMatch m = None" "\<not> mCannotMatch m"
  using assms by (cases t) (auto simp: token_simps)

lemma find_close_ends:
  assumes "sizes_ok (passed @ rest)" "mSize op \<in> {1, 2, 3}" "isUnmatchedOpenMarker (BoldOrItalicMarker op)"
    "threes_agree (BoldOrItalicMarker op # passed @ rest)"
  shows "\<exists>op' ts addr' n'. find_close rest passed op addr n = Some (op', ts, addr', n') \<and>
     sizes_ok (BoldOrItalicMarker op' # ts) \<and> threes_agree ts \<and>
     total_weight ts < weight (BoldOrItalicMarker op) + total_weight (passed @ rest)"
    (is "?P rest passed addr")
  using assms
proof (induction "total_weight rest" arbitrary: rest passed addr rule: less_induct)
  case less
  show ?case
  proof (cases rest)
    case Nil
    with less.prems show ?thesis
      by (auto simp: find_close_Nil intro: threes_agree_mono [OF less.prems(4)])
  next
    case (Cons t rest')
    have skip: "?P rest' (passed @ [t]) addr"
      using less.hyps [of rest' "passed @ [t]" addr] less.prems Cons by simp
    show ?thesis
    proof (cases "isUnmatchedCloseMarker t")
      case False
      with skip Cons show ?thesis by (simp add: find_close_skip)
    next
      case close: True
      then obtain cl where t: "t = BoldOrItalicMarker cl" by (rule unmatched_close_marker)
      note close = close [unfolded t]
      have three: "is_three t \<longleftrightarrow> mSize cl = 3" using close t by (simp add: is_three_def)
      have wt: "weight t = (if mSize cl = 3 then 4 else 1)" by (simp add: weight_def three)
      have wop: "weight (BoldOrItalicMarker op) = (if mSize op = 3 then 4 else 1)"
        using less.prems(3) by (simp add: weight_def is_three_def)
      have clsize: "mSize cl \<in> {1, 2, 3}" using less.prems(1) Cons t by simp
      consider "mSize cl = 3" "mSize op \<noteq> 3"
        | "\<not> (mSize cl = 3 \<and> mSize op \<noteq> 3)" "mTokenCharacter cl = mTokenCharacter op" "mSize cl = mSize op"
        | "mSize op = 3" "\<not> (mTokenCharacter cl = mTokenCharacter op \<and> mSize cl = mSize op)"
        | "mSize op \<noteq> 3" "mSize cl \<noteq> 3" "\<not> (mTokenCharacter cl = mTokenCharacter op \<and> mSize cl = mSize op)"
        by blast
      then show ?thesis
      proof cases
        case 1
        let ?new = "[BoldOrItalicMarker (new_Marker addr False (mTokenCharacter cl) (3 - mSize op)),
          BoldOrItalicMarker (new_Marker (Suc addr) False (mTokenCharacter cl) (mSize op))]"
        let ?passed = "passed @ [BoldOrItalicMarker (disable cl)]"
        have op: "mSize op \<in> {1, 2}" using 1 less.prems(2) by auto
        have agree: "threes_agree (BoldOrItalicMarker op # ?passed @ ?new @ rest')"
          using op 1 Cons by (intro threes_agree_mono [OF less.prems(4)]) auto
        have w: "total_weight ?new = 2" using op by auto
        have "?P (?new @ rest') ?passed (addr + 2)"
          by (rule less.hyps) (use w wt 1 op Cons less.prems agree t in auto)
        moreover have "total_weight (?passed @ ?new @ rest') < total_weight (passed @ rest)"
          using w wt 1 Cons by simp
        ultimately obtain op' ts addr' n' where
          "find_close (?new @ rest') ?passed op (addr + 2) n = Some (op', ts, addr', n')"
          "sizes_ok (BoldOrItalicMarker op' # ts)" "threes_agree ts"
          "total_weight ts < weight (BoldOrItalicMarker op) + total_weight (passed @ rest)"
          by (meson add_strict_left_mono order_less_trans)
        then show ?thesis using find_close_split_close [OF close 1] t Cons by auto
      next
        case 2
        have "threes_agree (passed @ BoldOrItalicMarker (matched (Some (this_marker op)) n cl) # rest')"
          using Cons by (intro threes_agree_mono [OF less.prems(4)]) auto
        then show ?thesis using find_close_match [OF close 2(2,3)] t Cons less.prems wt wop by auto
      next
        case 3
        have "mSize cl \<noteq> 3"
          using threes_agreeD [OF less.prems(4) _ _ less.prems(3) close] 3 Cons t by auto
        with clsize have cl: "mSize cl \<in> {1, 2}" by auto
        let ?new = "[BoldOrItalicMarker (new_Marker addr True (mTokenCharacter op) (3 - mSize cl)),
          BoldOrItalicMarker (new_Marker (Suc addr) True (mTokenCharacter op) (mSize cl))]"
        have "threes_agree (?new @ passed @ t # rest')"
          using cl Cons by (intro threes_agree_mono [OF less.prems(4)]) auto
        moreover have "sizes_ok (BoldOrItalicMarker (disable op) # ?new @ passed @ t # rest')"
          using less.prems(1) cl 3 t Cons by auto
        moreover have "total_weight (?new @ passed @ t # rest') <
            weight (BoldOrItalicMarker op) + total_weight (passed @ rest)"
          using cl 3 wop Cons by auto
        moreover have "find_close rest passed op addr n =
            Some (disable op, ?new @ passed @ t # rest', addr + 2, n)"
          using find_close_split_open [OF close 3] t Cons by simp
        ultimately show ?thesis by blast
      next
        case 4
        with skip close t Cons show ?thesis by (simp add: find_close_other)
      qed
    qed
  qed
qed

lemma match_markers_ends:
  assumes "sizes_ok (passed @ rest)" "threes_agree rest"
  shows "\<exists>ts. match_markers rest passed addr n = Some ts \<and> sizes_ok ts"
  using assms
proof (induction "total_weight rest" arbitrary: rest passed addr n rule: less_induct)
  case less
  show ?case
  proof (cases rest)
    case Nil
    with less.prems show ?thesis by (simp add: match_markers_Nil)
  next
    case (Cons t rest')
    have agree: "threes_agree rest'"
      using Cons by (intro threes_agree_mono [OF less.prems(2)]) auto
    show ?thesis
    proof (cases "isUnmatchedOpenMarker t")
      case True
      then obtain m where t: "t = BoldOrItalicMarker m" by (rule unmatched_open_marker)
      obtain op ts addr' n' where f: "find_close rest' [] m addr n = Some (op, ts, addr', n')"
        and ok: "sizes_ok (BoldOrItalicMarker op # ts)" "threes_agree ts"
        and w: "total_weight ts < weight t + total_weight rest'"
        using find_close_ends [of "[]" rest' m addr n] less.prems True Cons t by fastforce
      have "\<exists>us. match_markers ts (passed @ [BoldOrItalicMarker op]) addr' n' = Some us \<and> sizes_ok us"
        by (rule less.hyps) (use w ok Cons less.prems in auto)
      then show ?thesis using match_markers_open [OF True [unfolded t] f] t Cons by simp
    next
      case False
      have "\<exists>us. match_markers rest' (passed @ [t]) addr n = Some us \<and> sizes_ok us"
        by (rule less.hyps) (use Cons less.prems agree in auto)
      with False Cons show ?thesis by (simp add: match_markers_skip)
    qed
  qed
qed

section \<open>The loops that do not end\<close>

definition no_close :: "Token list \<Rightarrow> bool" where
  "no_close ts \<longleftrightarrow> list_all (\<lambda>t. \<not> isUnmatchedCloseMarker t) ts"

text \<open>
  An open marker of no characters, what is left of a split by an equally long close marker, splits a
  close marker of three into three and none.
\<close>

lemma find_close_zero:
  assumes ret: "find_close rest passed op addr n = Some r"
  shows "\<not> (mSize op = 0 \<and> (\<exists>mid cl more. rest = mid @ BoldOrItalicMarker cl # more \<and> no_close mid \<and>
     isUnmatchedCloseMarker (BoldOrItalicMarker cl) \<and> mSize cl = 3))"
proof (rule find_close.raw_induct [where P = "\<lambda>rest passed op addr n r.
    \<not> (mSize op = 0 \<and> (\<exists>mid cl more. rest = mid @ BoldOrItalicMarker cl # more \<and> no_close mid \<and>
     isUnmatchedCloseMarker (BoldOrItalicMarker cl) \<and> mSize cl = 3))", OF _ ret], goal_cases)
  case (1 f rest passed op addr n r)
  note IH = "1"(1)
  show ?case
  proof (rule notI, elim conjE exE)
    fix mid cl more
    assume zero: "mSize op = 0" and rest: "rest = mid @ BoldOrItalicMarker cl # more" and mid: "no_close mid"
      and cl: "isUnmatchedCloseMarker (BoldOrItalicMarker cl)" "mSize cl = 3"
    show False
    proof (cases mid)
      case Nil
      let ?cl = "new_Marker addr False (mTokenCharacter cl) 3"
      from 1(2) Nil rest cl zero
      have "f (BoldOrItalicMarker ?cl # BoldOrItalicMarker (new_Marker (addr + 1) False (mTokenCharacter cl) 0) # more)
          (passed @ [BoldOrItalicMarker (disable cl)]) op (addr + 2) n = Some r"
        by (simp add: Let_def token_simps)
      from IH [OF this] zero show False
        by (auto simp: no_close_def token_simps new_Marker_def dest!: spec [of _ "[]"])
    next
      case (Cons t mid')
      with 1(2) rest mid have "f (mid' @ BoldOrItalicMarker cl # more) (passed @ [t]) op addr n = Some r"
        by (simp add: no_close_def)
      from IH [OF this] zero mid cl Cons show False by (auto simp: no_close_def)
    qed
  qed
qed

lemma find_close_skips:
  "no_close mid \<Longrightarrow> find_close (mid @ rest) passed op addr n = find_close rest (passed @ mid) op addr n"
  by (induction mid arbitrary: passed) (auto simp: no_close_def find_close_skip)

lemma match_markers_diverges:
  assumes op: "isUnmatchedOpenMarker (BoldOrItalicMarker op)" "mSize op = 3"
    and cl: "isUnmatchedCloseMarker (BoldOrItalicMarker cl)" "mSize cl = 3"
    and other: "mTokenCharacter op \<noteq> mTokenCharacter cl" and mid: "no_close mid"
  shows "match_markers (BoldOrItalicMarker op # mid @ BoldOrItalicMarker cl # after) passed addr n = None"
proof -
  let ?zero = "new_Marker addr True (mTokenCharacter op) 0"
  let ?three = "BoldOrItalicMarker (new_Marker (Suc addr) True (mTokenCharacter op) 3)"
  let ?rest = "mid @ BoldOrItalicMarker cl # after"
  have "find_close ?rest [] op addr n =
      Some (disable op, BoldOrItalicMarker ?zero # ?three # ?rest, addr + 2, n)"
    using find_close_split_open [OF cl(1) op(2)] other cl(2) mid by (simp add: find_close_skips)
  moreover have "find_close (?three # ?rest) [] ?zero (addr + 2) n = None"
  proof (cases "find_close (?three # ?rest) [] ?zero (addr + 2) n")
    case (Some r)
    have "no_close (?three # mid)" using mid by (simp add: no_close_def new_Marker_def)
    with find_close_zero [OF Some] cl show ?thesis by (metis append_Cons mSize_simps(3))
  qed simp
  ultimately show ?thesis
    using match_markers_open [OF op(1)] match_markers_None [of ?zero] by (simp add: new_Marker_def)
qed

section \<open>The tags nest\<close>

text \<open>
  The markers of a list of tokens, and what is true of them from the first to the last turn of the
  loops: no two have the same address, a matched marker's partner is in the list, with the same id
  and size and of the other kind, the open marker comes first, and no two pairs share an id.
\<close>

definition markers :: "Token list \<Rightarrow> Marker list" where
  "markers ts = List.map_filter marker_of ts"

lemma markers_simps [simp]:
  "markers [] = []" "markers (xs @ ys) = markers xs @ markers ys"
  "markers (BoldOrItalicMarker m # xs) = m # markers xs"
  by (simp_all add: markers_def List.map_filter_def)

lemma markers_Cons: "markers (t # xs) = (case marker_of t of Some m \<Rightarrow> m # markers xs | None \<Rightarrow> markers xs)"
  by (simp add: markers_def List.map_filter_def split: option.splits)

definition partners :: "nat list \<Rightarrow> Marker \<Rightarrow> Marker \<Rightarrow> bool" where
  "partners order op cl \<longleftrightarrow> mOpenMarker op \<and> \<not> mOpenMarker cl \<and>
     mMatch op = Some (this_marker cl) \<and> mMatch cl = Some (this_marker op) \<and>
     mId op = mId cl \<and> mSize op = mSize cl \<and> \<not> mDisabled op \<and> \<not> mDisabled cl \<and>
     subseq [this_marker op, this_marker cl] order"

definition paired :: "Marker list \<Rightarrow> Marker \<Rightarrow> bool" where
  "paired ms m \<longleftrightarrow> (\<exists>k\<in>set ms. partners (map this_marker ms) m k \<or> partners (map this_marker ms) k m)"

definition pairs_ok :: "nat \<Rightarrow> int \<Rightarrow> Marker list \<Rightarrow> bool" where
  "pairs_ok addr n ms \<longleftrightarrow>
     distinct (map this_marker ms) \<and>
     (\<forall>m\<in>set ms. this_marker m < addr \<and> (mDisabled m \<longrightarrow> mCannotMatch m)) \<and>
     (\<forall>m\<in>set ms. mMatch m \<noteq> None \<longrightarrow> mId m < n \<and> paired ms m) \<and>
     (\<forall>m\<in>set ms. \<forall>k\<in>set ms. mMatch m \<noteq> None \<longrightarrow> mMatch k \<noteq> None \<longrightarrow> mId m = mId k \<longrightarrow>
        mOpenMarker m = mOpenMarker k \<longrightarrow> m = k)"

lemma partners_matched: "partners order m k \<Longrightarrow> mMatch m \<noteq> None \<and> mMatch k \<noteq> None"
  by (auto simp: partners_def)

lemma paired_mono:
  assumes "paired ms m" "\<And>k. k \<in> set ms \<Longrightarrow> mMatch k \<noteq> None \<Longrightarrow> k \<in> set ks"
    "subseq (map this_marker ms) (map this_marker ks)"
  shows "paired ks m"
proof -
  obtain k where k: "k \<in> set ms" "partners (map this_marker ms) m k \<or> partners (map this_marker ms) k m"
    using assms(1) by (auto simp: paired_def)
  moreover have "partners (map this_marker ms) a b \<Longrightarrow> partners (map this_marker ks) a b" for a b
    using subseq_order.trans [OF _ assms(3)] by (auto simp: partners_def)
  ultimately show ?thesis using assms(2) partners_matched unfolding paired_def by blast
qed

text \<open>Inserting fresh markers, disabling an unmatched one, matching two.\<close>

lemma pairs_okD:
  assumes "pairs_ok addr n ms"
  shows "distinct (map this_marker ms)"
    "m \<in> set ms \<Longrightarrow> this_marker m < addr" "m \<in> set ms \<Longrightarrow> mDisabled m \<Longrightarrow> mCannotMatch m"
    "m \<in> set ms \<Longrightarrow> mMatch m \<noteq> None \<Longrightarrow> mId m < n" "m \<in> set ms \<Longrightarrow> mMatch m \<noteq> None \<Longrightarrow> paired ms m"
    "m \<in> set ms \<Longrightarrow> k \<in> set ms \<Longrightarrow> mMatch m \<noteq> None \<Longrightarrow> mMatch k \<noteq> None \<Longrightarrow> mId m = mId k \<Longrightarrow>
       mOpenMarker m = mOpenMarker k \<Longrightarrow> m = k"
  using assms unfolding pairs_ok_def by blast+

lemma pairs_okI:
  assumes "distinct (map this_marker ms)"
    "\<And>m. m \<in> set ms \<Longrightarrow> this_marker m < addr" "\<And>m. m \<in> set ms \<Longrightarrow> mDisabled m \<Longrightarrow> mCannotMatch m"
    "\<And>m. m \<in> set ms \<Longrightarrow> mMatch m \<noteq> None \<Longrightarrow> mId m < n" "\<And>m. m \<in> set ms \<Longrightarrow> mMatch m \<noteq> None \<Longrightarrow> paired ms m"
    "\<And>m k. m \<in> set ms \<Longrightarrow> k \<in> set ms \<Longrightarrow> mMatch m \<noteq> None \<Longrightarrow> mMatch k \<noteq> None \<Longrightarrow> mId m = mId k \<Longrightarrow>
       mOpenMarker m = mOpenMarker k \<Longrightarrow> m = k"
  shows "pairs_ok addr n ms"
  using assms unfolding pairs_ok_def by blast

lemma pairs_ok_insert:
  assumes "pairs_ok addr n (xs @ ys)" "distinct (map this_marker zs)" "addr \<le> addr'"
    and fresh: "\<And>m. m \<in> set zs \<Longrightarrow> addr \<le> this_marker m \<and> this_marker m < addr' \<and> mMatch m = None \<and> \<not> mDisabled m"
  shows "pairs_ok addr' n (xs @ zs @ ys)"
proof -
  note old = pairs_okD [OF assms(1)]
  have sub: "subseq (map this_marker (xs @ ys)) (map this_marker (xs @ zs @ ys))"
    by (simp add: subseq_append' subseq_drop_many)
  have isold: "m \<in> set (xs @ ys)" if "m \<in> set (xs @ zs @ ys)" "mMatch m \<noteq> None" for m
    using that fresh by auto
  show ?thesis
  proof (rule pairs_okI)
    show "distinct (map this_marker (xs @ zs @ ys))"
      using old(1,2) assms(2) fresh by (force simp: disjoint_iff)
    show "this_marker m < addr'" if "m \<in> set (xs @ zs @ ys)" for m
      using that old(2) [of m] fresh [of m] assms(3) by auto
    show "mCannotMatch m" if "m \<in> set (xs @ zs @ ys)" "mDisabled m" for m
      using that old(3) [of m] fresh [of m] by auto
    show "paired (xs @ zs @ ys) m" if "m \<in> set (xs @ zs @ ys)" "mMatch m \<noteq> None" for m
      by (rule paired_mono [OF old(5) [OF isold [OF that] that(2)] _ sub]) auto
  qed (use isold old in blast)+
qed

lemma disable_simps [simp]:
  "this_marker (disable m) = this_marker m" "mMatch (disable m) = mMatch m" "mCannotMatch (disable m)"
  "mOpenMarker (disable m) = mOpenMarker m"
  by (simp_all add: disable_def)

lemma matched_simps [simp]:
  "this_marker (matched a n m) = this_marker m" "mMatch (matched a n m) = a" "mId (matched a n m) = n"
  "mOpenMarker (matched a n m) = mOpenMarker m" "mCannotMatch (matched a n m) = mCannotMatch m"
  "mDisabled (matched a n m) = mDisabled m"
  by (simp_all add: matched_def)

lemma new_Marker_simps [simp]:
  "this_marker (new_Marker i b c s) = i" "mOpenMarker (new_Marker i b c s) = b"
  "mMatch (new_Marker i b c s) = None" "\<not> mCannotMatch (new_Marker i b c s)" "\<not> mDisabled (new_Marker i b c s)"
  by (simp_all add: new_Marker_def)

lemma pairs_ok_disable:
  assumes "pairs_ok addr n (xs @ m # ys)" "mMatch m = None"
  shows "pairs_ok addr n (xs @ disable m # ys)"
proof -
  note old = pairs_okD [OF assms(1)]
  have isold: "k \<in> set (xs @ m # ys)" if "k \<in> set (xs @ disable m # ys)" "mMatch k \<noteq> None" for k
    using that assms(2) by auto
  show ?thesis
  proof (rule pairs_okI)
    show "distinct (map this_marker (xs @ disable m # ys))" using old(1) by simp
    show "this_marker k < addr" if "k \<in> set (xs @ disable m # ys)" for k
      using that old(2) [of k] old(2) [of m] by auto
    show "mCannotMatch k" if "k \<in> set (xs @ disable m # ys)" "mDisabled k" for k
      using that old(3) [of k] by auto
    show "paired (xs @ disable m # ys) k" if "k \<in> set (xs @ disable m # ys)" "mMatch k \<noteq> None" for k
      by (rule paired_mono [OF old(5) [OF isold [OF that] that(2)]]) (use assms(2) in auto)
  qed (use isold old in blast)+
qed

lemma pairs_ok_match:
  assumes "pairs_ok addr n (xs @ op # ys @ cl # zs)"
    and unmatched: "mMatch op = None" "mMatch cl = None" "\<not> mCannotMatch op" "\<not> mCannotMatch cl"
    and kinds: "mOpenMarker op" "\<not> mOpenMarker cl" and size: "mSize op = mSize cl"
  shows "pairs_ok addr (n + 1)
     (xs @ matched (Some (this_marker cl)) n op # ys @ matched (Some (this_marker op)) n cl # zs)"
proof -
  note old = pairs_okD [OF assms(1)]
  let ?op = "matched (Some (this_marker cl)) n op" and ?cl = "matched (Some (this_marker op)) n cl"
  let ?ms = "xs @ op # ys @ cl # zs" and ?new = "xs @ ?op # ys @ ?cl # zs"
  have order: "map this_marker ?new = map this_marker ?ms" by simp
  have "subseq ([] @ [this_marker op] @ [] @ [this_marker cl] @ []) (map this_marker ?ms)"
    unfolding map_append list.map by (intro list_emb_append_mono) auto
  then have pair: "partners (map this_marker ?new) ?op ?cl"
    using kinds size old(3) [of op] old(3) [of cl] unmatched by (auto simp: partners_def order)
  have cases: "k = ?op \<or> k = ?cl \<or> k \<in> set ?ms \<and> k \<noteq> op \<and> k \<noteq> cl" if "k \<in> set ?new" for k
    using that old(1) by auto
  have isold: "k \<in> set ?ms" if "k \<in> set ?new" "mId k < n" for k
    using cases [OF that(1)] that(2) by auto
  show ?thesis
  proof (rule pairs_okI)
    show "distinct (map this_marker ?new)" using old(1) by simp
    show "this_marker k < addr" if "k \<in> set ?new" for k
      using cases [OF that] old(2) [of k] old(2) [of op] old(2) [of cl] by auto
    show "mCannotMatch k" if "k \<in> set ?new" "mDisabled k" for k
      using cases [OF that(1)] that(2) old(3) [of k] old(3) [of op] old(3) [of cl] by auto
    show "mId k < n + 1" if "k \<in> set ?new" "mMatch k \<noteq> None" for k
      using cases [OF that(1)] that(2) old(4) [of k] by auto
    show "paired ?new k" if k: "k \<in> set ?new" "mMatch k \<noteq> None" for k
      using cases [OF k(1)]
    proof (elim disjE conjE)
      assume "k \<in> set ?ms"
      then show ?thesis
        by (rule paired_mono [OF old(5) [OF _ k(2)]]) (use unmatched in auto)
    qed (use pair in \<open>auto simp: paired_def\<close>)
    show "k = l" if kl: "k \<in> set ?new" "l \<in> set ?new" "mMatch k \<noteq> None" "mMatch l \<noteq> None" "mId k = mId l"
      "mOpenMarker k = mOpenMarker l" for k l
      using cases [OF kl(1)] cases [OF kl(2)] kl(3-) kinds old(4) [of k] old(4) [of l] old(6) [of k l] by auto
  qed
qed

text \<open>The loops keep it.\<close>

definition after_close :: "Marker list \<Rightarrow> (Marker \<times> Token list \<times> nat \<times> int) \<Rightarrow> bool" where
  "after_close pre r = (case r of (op, ts, addr, n) \<Rightarrow> pairs_ok addr n (pre @ op # markers ts))"

lemma pairs_ok_fresh:
  assumes "pairs_ok addr n (xs @ ys)"
  shows "pairs_ok (addr + 2) n (xs @ new_Marker addr b c s # new_Marker (Suc addr) b c' s' # ys)"
proof -
  have "pairs_ok (addr + 2) n (xs @ [new_Marker addr b c s, new_Marker (Suc addr) b c' s'] @ ys)"
    by (rule pairs_ok_insert [OF assms]) auto
  then show ?thesis by simp
qed

lemma pairs_ok_split_close:
  assumes "pairs_ok addr n (pre @ op # markers passed @ cl # ms)" "mMatch cl = None"
  shows "pairs_ok (addr + 2) n (pre @ op # markers (passed @ [BoldOrItalicMarker (disable cl)]) @
     new_Marker addr False c s # new_Marker (Suc addr) False c' s' # ms)"
  using pairs_ok_fresh [of addr n "pre @ op # markers passed @ [disable cl]" ms]
    pairs_ok_disable [of addr n "pre @ op # markers passed" cl ms] assms
  by simp

lemma pairs_ok_split_open:
  assumes "pairs_ok addr n (pre @ op # ms)" "mMatch op = None"
  shows "pairs_ok (addr + 2) n (pre @ disable op # new_Marker addr True c s # new_Marker (Suc addr) True c' s' # ms)"
  using pairs_ok_fresh [of addr n "pre @ [disable op]" ms] pairs_ok_disable [of addr n pre op ms] assms
  by simp

lemma find_close_pairs:
  assumes ret: "find_close rest passed op addr n = Some r"
    and op: "isUnmatchedOpenMarker (BoldOrItalicMarker op)"
    and ok: "pairs_ok addr n (pre @ op # markers passed @ markers rest)"
  shows "after_close pre r"
proof -
  have "isUnmatchedOpenMarker (BoldOrItalicMarker op) \<longrightarrow>
      pairs_ok addr n (pre @ op # markers passed @ markers rest) \<longrightarrow> after_close pre r"
  proof (rule find_close.raw_induct [where P = "\<lambda>rest passed op addr n r.
      isUnmatchedOpenMarker (BoldOrItalicMarker op) \<longrightarrow>
      pairs_ok addr n (pre @ op # markers passed @ markers rest) \<longrightarrow> after_close pre r", OF _ ret],
      intro impI, goal_cases)
    case (1 f rest passed op addr n r)
    note IH = "1"(1) and ok = "1"(4)
    from "1"(3) have op: "mOpenMarker op" "mMatch op = None" "\<not> mCannotMatch op" by simp_all
    show ?case
    proof (cases rest)
      case Nil
      with 1(2) ok show ?thesis by (auto simp: after_close_def)
    next
      case (Cons t rest')
      have next_one: "f rest' (passed @ [t]) op addr n = Some r \<Longrightarrow> ?thesis"
        using IH [of rest' "passed @ [t]" op addr n r] "1"(3) ok Cons by (simp add: markers_Cons split: option.splits)
      show ?thesis
      proof (cases "isUnmatchedCloseMarker t")
        case False
        with 1(2) Cons next_one show ?thesis by simp
      next
        case True
        then obtain cl where t: "t = BoldOrItalicMarker cl"
          and cl: "\<not> mOpenMarker cl" "mMatch cl = None" "\<not> mCannotMatch cl"
          by (rule unmatched_close_marker)
        note ok = ok [unfolded Cons t markers_simps]
        have body: "(if mSize cl = 3 \<and> mSize op \<noteq> 3 then
             f (BoldOrItalicMarker (new_Marker addr False (mTokenCharacter cl) (mSize cl - mSize op)) #
                BoldOrItalicMarker (new_Marker (addr + 1) False (mTokenCharacter cl) (mSize op)) # rest')
              (passed @ [BoldOrItalicMarker (disable cl)]) op (addr + 2) n
           else if mTokenCharacter cl = mTokenCharacter op \<and> mSize cl = mSize op then
             Some (matched (Some (this_marker cl)) n op,
                passed @ BoldOrItalicMarker (matched (Some (this_marker op)) n cl) # rest', addr, n + 1)
           else if mSize op = 3 then
             Some (disable op,
                BoldOrItalicMarker (new_Marker addr True (mTokenCharacter op) (mSize op - mSize cl)) #
                BoldOrItalicMarker (new_Marker (addr + 1) True (mTokenCharacter op) (mSize cl)) #
                passed @ BoldOrItalicMarker cl # rest', addr + 2, n)
           else f rest' (passed @ [t]) op addr n) = Some r"
          using 1(2) True unfolding Cons t list.case Let_def by (simp only: if_True marker_of.simps option.sel)
        show ?thesis
        proof (cases "mSize cl = 3 \<and> mSize op \<noteq> 3")
          case split: True
          note f = body [unfolded if_P [OF split]]
          from IH [OF f] pairs_ok_split_close [OF ok cl(2)] op show ?thesis by simp
        next
          case no_split: False
          note body = body [unfolded if_not_P [OF no_split]]
          show ?thesis
          proof (cases "mTokenCharacter cl = mTokenCharacter op \<and> mSize cl = mSize op")
            case True
            with body pairs_ok_match [of addr n pre op "markers passed" cl "markers rest'"] ok op cl
            show ?thesis by (auto simp: after_close_def)
          next
            case False
            note body = body [unfolded if_not_P [OF False]]
            show ?thesis
            proof (cases "mSize op = 3")
              case True
              with body pairs_ok_split_open [OF ok op(2)] show ?thesis by (auto simp: after_close_def)
            next
              case False
              with body next_one show ?thesis by simp
            qed
          qed
        qed
      qed
    qed
  qed
  with op ok show ?thesis by blast
qed

lemma match_markers_pairs:
  assumes ret: "match_markers rest passed addr n = Some ts"
    and ok: "pairs_ok addr n (markers passed @ markers rest)"
  shows "\<exists>addr' n'. pairs_ok addr' n' (markers ts)"
proof -
  have "pairs_ok addr n (markers passed @ markers rest) \<longrightarrow> (\<exists>addr' n'. pairs_ok addr' n' (markers ts))"
  proof (rule match_markers.raw_induct [where P = "\<lambda>rest passed addr n ts.
      pairs_ok addr n (markers passed @ markers rest) \<longrightarrow> (\<exists>addr' n'. pairs_ok addr' n' (markers ts))", OF _ ret],
      intro impI, goal_cases)
    case (1 f rest passed addr n ts)
    show ?case
    proof (cases rest)
      case Nil
      with 1 show ?thesis by auto
    next
      case (Cons t rest')
      show ?thesis
      proof (cases "isUnmatchedOpenMarker t")
        case False
        with 1 Cons show ?thesis by (simp add: markers_Cons split: option.splits)
      next
        case True
        then obtain m where t: "t = BoldOrItalicMarker m" by (rule unmatched_open_marker)
        from 1(2) Cons True t obtain op us addr' n' where
          c: "find_close rest' [] m addr n = Some (op, us, addr', n')"
          and f: "f us (passed @ [BoldOrItalicMarker op]) addr' n' = Some ts"
          by (auto split: option.splits)
        have "pairs_ok addr' n' (markers passed @ op # markers us)"
          using find_close_pairs [OF c, of "markers passed"] True t Cons 1(3) by (simp add: after_close_def)
        with 1(1) [OF f] show ?thesis by simp
      qed
    qed
  qed
  with ok show ?thesis by blast
qed

end
