(* ===== verification/Markdown_Nesting.thy ===== *)
theory Markdown_Nesting
  imports Markdown_Emphasis_Correct
begin

text \<open>
  What is left after the second loop: the matched markers are a bracket sequence, so the elements of
  the HTML nest, and the stack of open markers never runs empty under a matched close marker.
\<close>

lemma same_address:
  "distinct (map this_marker ms) \<Longrightarrow> m \<in> set ms \<Longrightarrow> k \<in> set ms \<Longrightarrow> this_marker m = this_marker k \<Longrightarrow> m = k"
  by (simp add: distinct_map inj_on_def)

section \<open>Bracket sequences of markers\<close>

text \<open>The addresses of the open markers that are not closed yet, \<open>None\<close> when a close marker is not the top's.\<close>

fun balance :: "nat list \<Rightarrow> Marker list \<Rightarrow> nat list option" where
  "balance st [] = Some st"
| "balance st (m # ms) =
     (if mMatch m = None then balance st ms
      else if mOpenMarker m then balance (this_marker m # st) ms
      else (case st of
              [] \<Rightarrow> None
            | a # st' \<Rightarrow> if mMatch m = Some a then balance st' ms else None))"

lemma balance_append: "balance st (xs @ ys) = Option.bind (balance st xs) (\<lambda>st'. balance st' ys)"
  by (induction st xs rule: balance.induct) (auto split: list.splits)

lemma balance_set: "balance st ms = Some st' \<Longrightarrow> set st' \<subseteq> set st \<union> this_marker ` set ms"
proof (induction st ms rule: balance.induct)
  case (2 st m ms)
  then show ?case by (cases st) (auto split: if_split_asm)
qed simp

definition separate :: "nat list \<Rightarrow> Marker list \<Rightarrow> bool" where
  "separate st ms \<longleftrightarrow> distinct (st @ map this_marker ms)"

lemma separate_Cons:
  "separate st (m # ms) \<Longrightarrow> separate st ms" "separate st (m # ms) \<Longrightarrow> separate (this_marker m # st) ms"
  "separate (a # st) (m # ms) \<Longrightarrow> separate st ms"
  by (auto simp: separate_def)

lemma balance_open_set:
  "balance st ms = Some st' \<Longrightarrow> a \<in> set st' \<Longrightarrow> a \<in> set st \<or> (\<exists>m\<in>set ms. mOpenMarker m \<and> this_marker m = a)"
proof (induction st ms rule: balance.induct)
  case (2 st m ms)
  then show ?case by (cases st) (auto split: if_split_asm)
qed simp

text \<open>An open marker that is not closed can be left out.\<close>

lemma balance_remove:
  assumes "balance st ms = Some st'" "x \<in> set st'" "separate st ms"
  shows "balance (filter (\<lambda>a. a \<noteq> x) st) (map (\<lambda>m. if this_marker m = x then matched None (-1) m else m) ms) =
     Some (filter (\<lambda>a. a \<noteq> x) st')"
  using assms
proof (induction ms arbitrary: st)
  case (Cons m ms)
  note IH = Cons.IH [OF _ Cons.prems(2)]
  consider "mMatch m = None" | "mMatch m \<noteq> None" "mOpenMarker m"
    | a st1 where "\<not> mOpenMarker m" "mMatch m = Some a" "st = a # st1" "balance st1 ms = Some st'"
    using Cons.prems(1) by (cases st) (auto split: if_split_asm)
  then show ?case
  proof cases
    case 1
    with IH [of st] Cons.prems separate_Cons(1) show ?thesis by simp
  next
    case 2
    with IH [of "this_marker m # st"] Cons.prems separate_Cons(2) show ?thesis by auto
  next
    case 3
    have "x \<in> set st1 \<union> this_marker ` set ms" using balance_set [OF 3(4)] Cons.prems(2) by blast
    then have "a \<noteq> x" "this_marker m \<noteq> x" using Cons.prems(3) 3(3) by (auto simp: separate_def)
    with 3 IH [of st1] Cons.prems(3) separate_Cons(3) show ?thesis by simp
  qed
qed auto

text \<open>An open marker stays on the stack exactly as long as its close marker has not come.\<close>

lemma balance_closed:
  assumes "balance st ms = Some st'" "separate st ms" "k \<in> set ms" "\<not> mOpenMarker k" "mMatch k = Some x"
  shows "x \<notin> set st'"
  using assms
proof (induction ms arbitrary: st)
  case (Cons m ms)
  show ?case
  proof (cases "k = m")
    case True
    with Cons.prems obtain st1 where st: "st = x # st1" "balance st1 ms = Some st'"
      by (cases st) (auto split: if_split_asm)
    with balance_set [OF st(2)] Cons.prems(2) show ?thesis by (auto simp: separate_def)
  next
    case False
    with Cons.prems have k: "k \<in> set ms" by simp
    consider "balance st ms = Some st'" | "balance (this_marker m # st) ms = Some st'"
      | a st1 where "st = a # st1" "balance st1 ms = Some st'"
      using Cons.prems(1) by (cases st) (auto split: if_split_asm)
    then show ?thesis
      by cases (use Cons.IH [OF _ _ k Cons.prems(4,5)] Cons.prems(2) separate_Cons in blast)+
  qed
qed simp

lemma balance_keeps:
  assumes "balance st ms = Some st'" "\<And>k. k \<in> set ms \<Longrightarrow> \<not> mOpenMarker k \<Longrightarrow> mMatch k \<noteq> Some x" "x \<in> set st"
  shows "x \<in> set st'"
  using assms
proof (induction ms arbitrary: st)
  case (Cons m ms)
  consider "balance st ms = Some st'" | "balance (this_marker m # st) ms = Some st'"
    | a st1 where "st = a # st1" "balance st1 ms = Some st'" "\<not> mOpenMarker m" "mMatch m = Some a"
    using Cons.prems(1) by (cases st) (auto split: if_split_asm)
  then show ?case
    by cases (use Cons.IH Cons.prems in force)+
qed simp

lemma balance_opened:
  assumes "balance st ms = Some st'" "\<And>k. k \<in> set ms \<Longrightarrow> \<not> mOpenMarker k \<Longrightarrow> mMatch k \<noteq> Some (this_marker m)"
    "m \<in> set ms" "mOpenMarker m" "mMatch m \<noteq> None"
  shows "this_marker m \<in> set st'"
proof -
  obtain xs ys where ms: "ms = xs @ m # ys" using assms(3) by (meson split_list)
  then obtain st1 where "balance st xs = Some st1" "balance (this_marker m # st1) ys = Some st'"
    using assms(1,4,5) by (auto simp: balance_append bind_eq_Some_conv)
  with balance_keeps [of _ ys st' "this_marker m"] assms(2) ms show ?thesis by force
qed

section \<open>The second loop\<close>

text \<open>Undoing a match keeps the pairs.\<close>

definition unpair :: "nat \<Rightarrow> nat \<Rightarrow> Marker \<Rightarrow> Marker" where
  "unpair a c m = (if this_marker m = a \<or> this_marker m = c then matched None (-1) m else m)"

lemma unpair_simps [simp]:
  "this_marker (unpair a c m) = this_marker m" "mDisabled (unpair a c m) = mDisabled m"
  "mCannotMatch (unpair a c m) = mCannotMatch m"
  by (simp_all add: unpair_def)

lemma unpair_matched:
  "mMatch (unpair a c m) \<noteq> None \<Longrightarrow> unpair a c m = m \<and> this_marker m \<noteq> a \<and> this_marker m \<noteq> c"
  by (auto simp: unpair_def split: if_split_asm)

lemma partners_unique:
  assumes "distinct (map this_marker ms)" "m \<in> set ms" "k \<in> set ms" "l \<in> set ms"
    "partners order m k \<or> partners order k m" "partners order m l \<or> partners order l m"
  shows "k = l"
proof -
  have "this_marker k = this_marker l" using assms(5,6) by (auto simp: partners_def)
  with assms(1,3,4) show ?thesis by (auto simp: distinct_map inj_on_def)
qed

lemma pairs_ok_unpair:
  assumes "pairs_ok addr n ms" "op \<in> set ms" "cl \<in> set ms" "partners (map this_marker ms) op cl"
  shows "pairs_ok addr n (map (unpair (this_marker op) (this_marker cl)) ms)" (is "pairs_ok addr n (map ?f ms)")
proof -
  note old = pairs_okD [OF assms(1)]
  have order: "map this_marker (map ?f ms) = map this_marker ms" by (induction ms) auto
  have live: "m \<in> set ms \<and> m \<noteq> op \<and> m \<noteq> cl" if "m \<in> set (map ?f ms)" "mMatch m \<noteq> None" for m
  proof -
    from that(1) obtain l where l: "l \<in> set ms" "m = ?f l" by auto
    with that(2) unpair_matched [of "this_marker op" "this_marker cl" l] show ?thesis by auto
  qed
  show ?thesis
  proof (rule pairs_okI)
    show "distinct (map this_marker (map ?f ms))" unfolding order by (rule old)
    show "paired (map ?f ms) m" if m: "m \<in> set (map ?f ms)" "mMatch m \<noteq> None" for m
    proof -
      from live [OF m] old(5) m(2) obtain k where k: "k \<in> set ms"
        "partners (map this_marker ms) m k \<or> partners (map this_marker ms) k m"
        by (auto simp: paired_def)
      have "k \<noteq> op" "k \<noteq> cl"
        using partners_unique [OF old(1) k(1), of m cl] partners_unique [OF old(1) k(1), of m op] k live [OF m] assms(2-)
        by blast+
      then have "?f k = k"
        using old(1) k(1) assms(2,3) by (auto simp: unpair_def distinct_map inj_on_def)
      with k show ?thesis unfolding paired_def order by (metis image_eqI set_map)
    qed
    show "this_marker m < addr" if "m \<in> set (map ?f ms)" for m using that old(2) by auto
    show "mCannotMatch m" if "m \<in> set (map ?f ms)" "mDisabled m" for m using that old(3) by auto
    show "mId m < n" if "m \<in> set (map ?f ms)" "mMatch m \<noteq> None" for m
      using live [OF that] old(4) [OF _ that(2)] by blast
    show "m = k" if "m \<in> set (map ?f ms)" "k \<in> set (map ?f ms)" "mMatch m \<noteq> None" "mMatch k \<noteq> None"
      "mId m = mId k" "mOpenMarker m = mOpenMarker k" for m k
      using live [OF that(1,3)] live [OF that(2,4)] old(6) [OF _ _ that(3-)] by blast
  qed
qed

text \<open>The loop: the stack's live addresses are the open brackets, and the top is live.\<close>

definition live :: "Token list \<Rightarrow> nat \<Rightarrow> bool" where
  "live ts a \<longleftrightarrow> (\<exists>m\<in>set (markers ts). this_marker m = a \<and> mMatch m \<noteq> None)"

definition unmatch_inv :: "nat \<Rightarrow> nat list \<times> Token list \<Rightarrow> bool" where
  "unmatch_inv k st \<longleftrightarrow> (case st of (stack, ts) \<Rightarrow>
     (\<exists>addr n. pairs_ok addr n (markers ts)) \<and>
     balance [] (markers (take k ts)) = Some (filter (live ts) stack) \<and>
     (stack \<noteq> [] \<longrightarrow> live ts (hd stack)) \<and> set stack \<subseteq> this_marker ` set (markers ts))"

lemma markers_update: "markers (update_marker a f ts) = map (\<lambda>m. if this_marker m = a then f m else m) (markers ts)"
  by (induction ts) (auto simp: update_marker_def markers_Cons split: Token.splits)

lemma take_update: "take k (update_marker a f ts) = update_marker a f (take k ts)"
  by (simp add: update_marker_def take_map)

lemma length_update [simp]: "length (update_marker a f ts) = length ts"
  by (simp add: update_marker_def)

lemma marker_at_iff:
  assumes "distinct (map this_marker (markers ts))"
  shows "marker_at a ts = Some m \<longleftrightarrow> m \<in> set (markers ts) \<and> this_marker m = a"
  using assms unfolding marker_at_def markers_def [symmetric]
  by (auto simp: find_Some_iff distinct_conv_nth in_set_conv_nth)

lemma markers_take_Suc:
  "k < length ts \<Longrightarrow> markers (take (Suc k) ts) = markers (take k ts) @ (case marker_of (ts ! k) of Some m \<Rightarrow> [m] | None \<Rightarrow> [])"
  by (simp add: take_Suc_conv_app_nth markers_Cons split: option.split)

lemma markers_split:
  "k < length ts \<Longrightarrow> marker_of (ts ! k) = Some m \<Longrightarrow>
   markers ts = markers (take k ts) @ m # markers (drop (Suc k) ts)"
  by (subst id_take_nth_drop [of k ts]) (simp_all add: markers_Cons)

lemma marker_of_matched:
  assumes "marker_of t = Some m"
  shows "isMatchedOpenMarker t \<longleftrightarrow> mOpenMarker m \<and> mMatch m \<noteq> None"
    "isMatchedCloseMarker t \<longleftrightarrow> \<not> mOpenMarker m \<and> mMatch m \<noteq> None"
  using assms by (cases t; simp)+

lemma marker_of_None:
  assumes "marker_of t = None"
  shows "\<not> isMatchedOpenMarker t" "\<not> isMatchedCloseMarker t"
  using assms by (cases t; simp)+

lemma subseq_pair_before:
  "subseq [a, c] (xs @ c # ys) \<Longrightarrow> c \<notin> set xs \<Longrightarrow> c \<notin> set ys \<Longrightarrow> a \<in> set xs"
proof (induction xs)
  case Nil
  then have "c \<in> set ys" by (auto simp: subseq_singleton_left dest: subseq_Cons' split: if_split_asm)
  with Nil show ?case by simp
next
  case (Cons x xs)
  then show ?case by (cases "x = a") (auto simp: subseq_Cons2_neq)
qed

text \<open>At a matched close marker its open marker is on the stack; if it is not the top the two are unmatched.\<close>

lemma unmatch_close:
  assumes ok: "pairs_ok addr n (markers ts)" and k: "k < length ts" "marker_of (ts ! k) = Some cl"
    and cl: "\<not> mOpenMarker cl" "mMatch cl \<noteq> None"
    and bal: "balance [] (markers (take k ts)) = Some st"
  obtains op where "op \<in> set (markers ts)" "partners (map this_marker (markers ts)) op cl"
    "mMatch cl = Some (this_marker op)" "this_marker op \<in> set st"
proof -
  note ms = markers_split [OF k] and old = pairs_okD [OF ok]
  have cl_in: "cl \<in> set (markers ts)" using ms by simp
  with old(5) cl(2) obtain op where op: "op \<in> set (markers ts)"
    and p: "partners (map this_marker (markers ts)) op cl"
    using cl(1) by (auto simp: paired_def partners_def)
  have before: "op \<in> set (markers (take k ts))"
  proof -
    have "this_marker op \<in> set (map this_marker (markers (take k ts)))"
      by (rule subseq_pair_before [of _ "this_marker cl" _ "map this_marker (markers (drop (Suc k) ts))"])
        (use p old(1) ms in \<open>auto simp: partners_def\<close>)
    then obtain o2 where o2: "o2 \<in> set (markers (take k ts))" "this_marker o2 = this_marker op" by auto
    have "o2 \<in> set (markers ts)" using o2(1) ms by simp
    with o2 op old(1) show ?thesis by (auto simp: distinct_map inj_on_def)
  qed
  have "mMatch l \<noteq> Some (this_marker op)" if l: "l \<in> set (markers (take k ts))" "\<not> mOpenMarker l" for l
  proof
    assume m: "mMatch l = Some (this_marker op)"
    have lin: "l \<in> set (markers ts)" using l ms by simp
    with old(5) [OF lin] m l(2) obtain o2 where o2: "o2 \<in> set (markers ts)" "partners (map this_marker (markers ts)) o2 l"
      by (auto simp: paired_def partners_def)
    with m op old(1) have "o2 = op" by (auto simp: partners_def distinct_map inj_on_def)
    with o2 p have "this_marker l = this_marker cl" by (simp add: partners_def)
    with l(1) have "this_marker cl \<in> this_marker ` set (markers (take k ts))" by (metis image_eqI)
    with ms old(1) show False by simp
  qed
  from balance_opened [OF bal this before] p have "this_marker op \<in> set st" by (auto simp: partners_def)
  with op p show thesis by (auto simp: partners_def intro!: that)
qed

lemma filter_dropWhile_not: "filter P (dropWhile (\<lambda>x. \<not> P x) xs) = filter P xs"
  by (induction xs) auto

lemma hd_dropWhile_not: "dropWhile (\<lambda>x. \<not> P x) xs \<noteq> [] \<Longrightarrow> P (hd (dropWhile (\<lambda>x. \<not> P x) xs))"
  using hd_dropWhile by blast

lemma unmatch_drop_pair:
  assumes inv: "unmatch_inv k (stack, ts)" and k: "k < length ts" "marker_of (ts ! k) = Some cl"
    and cl: "\<not> mOpenMarker cl" and op: "op \<in> set (markers ts)" "partners (map this_marker (markers ts)) op cl"
    and nottop: "hd stack \<noteq> this_marker op" and on_stack: "this_marker op \<in> set (filter (live ts) stack)"
  shows "unmatch_inv (Suc k) (stack,
    update_marker (this_marker cl) (matched None (-1)) (update_marker (this_marker op) (matched None (-1)) ts))"
    (is "unmatch_inv _ (stack, ?ts)")
proof -
  obtain addr n where ok: "pairs_ok addr n (markers ts)"
    and bal: "balance [] (markers (take k ts)) = Some (filter (live ts) stack)"
    and top: "live ts (hd stack)" and known: "set stack \<subseteq> this_marker ` set (markers ts)"
    using inv on_stack by (auto simp: unmatch_inv_def)
  note old = pairs_okD [OF ok] and ms = markers_split [OF k]
  have notin: "this_marker x \<noteq> this_marker cl" if "x \<in> set (markers (take k ts))" for x
    using old(1) imageI [OF that, of this_marker] by (subst (asm) ms) auto
  have cl_in: "cl \<in> set (markers ts)" using ms by simp
  have new: "markers ?ts = map (unpair (this_marker op) (this_marker cl)) (markers ts)"
    by (auto simp: markers_update unpair_def matched_def)
  have take_new: "markers (take k ?ts) =
      map (\<lambda>m. if this_marker m = this_marker op then matched None (-1) m else m) (markers (take k ts))"
    using notin by (auto simp: take_update markers_update)
  have clnot: "a \<noteq> this_marker cl" if "a \<in> set stack" "live ts a" for a
  proof
    assume a: "a = this_marker cl"
    from that have "a \<in> set (filter (live ts) stack)" by simp
    from balance_open_set [OF bal this] obtain m where "m \<in> set (markers (take k ts))" "this_marker m = a" by auto
    with a notin show False by blast
  qed
  have live_new: "live ?ts a \<longleftrightarrow> live ts a \<and> a \<noteq> this_marker op \<and> a \<noteq> this_marker cl" for a
    unfolding live_def new by (auto simp: unpair_def)
  have "separate [] (markers (take k ts))" using old(1) ms by (simp add: separate_def)
  with on_stack have "balance [] (markers (take k ?ts)) =
      Some (filter (\<lambda>a. a \<noteq> this_marker op) (filter (live ts) stack))"
    using balance_remove [OF bal] take_new by simp
  moreover have "filter (\<lambda>a. a \<noteq> this_marker op) (filter (live ts) stack) = filter (live ?ts) stack"
    using clnot by (auto simp: live_new intro: filter_cong)
  moreover have "marker_of (?ts ! k) = Some (matched None (-1) (matched None (-1) cl)) \<or>
      marker_of (?ts ! k) = Some (matched None (-1) cl)"
    using k by (cases "ts ! k") (auto simp: update_marker_def)
  ultimately have "balance [] (markers (take (Suc k) ?ts)) = Some (filter (live ?ts) stack)"
    using k(1) by (auto simp: markers_take_Suc balance_append)
  moreover have "this_marker ` set (markers ?ts) = this_marker ` set (markers ts)"
    unfolding new by (simp add: image_image)
  ultimately show ?thesis
    using pairs_ok_unpair [OF ok op(1) cl_in op(2)] top nottop clnot [of "hd stack"] known
    by (auto simp: unmatch_inv_def live_new new)
qed

lemma unmatch_step_inv:
  assumes inv: "unmatch_inv k (stack, ts)" and k: "k < length ts"
  shows "\<exists>stack' ts'. unmatch_step (stack, ts) k = Inr (stack', ts') \<and> unmatch_inv (Suc k) (stack', ts') \<and>
     length ts' = length ts"
proof -
  obtain addr n where ok: "pairs_ok addr n (markers ts)"
    and bal: "balance [] (markers (take k ts)) = Some (filter (live ts) stack)"
    and top: "stack \<noteq> [] \<Longrightarrow> live ts (hd stack)" and known: "set stack \<subseteq> this_marker ` set (markers ts)"
    using inv by (auto simp: unmatch_inv_def)
  note old = pairs_okD [OF ok]
  have keep: "unmatch_inv (Suc k) (stack', ts)"
    if "balance (filter (live ts) stack) (case marker_of (ts ! k) of Some m \<Rightarrow> [m] | None \<Rightarrow> []) =
      Some (filter (live ts) stack')" "stack' \<noteq> [] \<Longrightarrow> live ts (hd stack')"
      "set stack' \<subseteq> this_marker ` set (markers ts)" for stack'
    using that ok bal k by (auto simp: unmatch_inv_def markers_take_Suc balance_append)
  consider "marker_of (ts ! k) = None" | m where "marker_of (ts ! k) = Some m" "mMatch m = None"
    | m where "marker_of (ts ! k) = Some m" "mMatch m \<noteq> None" "mOpenMarker m"
    | m where "marker_of (ts ! k) = Some m" "mMatch m \<noteq> None" "\<not> mOpenMarker m" by blast
  then show ?thesis
  proof cases
    case 1
    with keep [of stack] top known marker_of_None show ?thesis by (simp add: unmatch_step_def)
  next
    case 2
    with keep [of stack] top known marker_of_matched show ?thesis by (simp add: unmatch_step_def)
  next
    case 3
    have "live ts (this_marker m)" using markers_split [OF k 3(1)] 3 by (auto simp: live_def)
    moreover have "m \<in> set (markers ts)" using markers_split [OF k 3(1)] by simp
    ultimately show ?thesis using 3 known keep [of "this_marker m # stack"] marker_of_matched
      by (simp add: unmatch_step_def)
  next
    case cl: 4
    note ms = markers_split [OF k cl(1)]
    obtain op where op: "op \<in> set (markers ts)" "partners (map this_marker (markers ts)) op m"
      "mMatch m = Some (this_marker op)" "this_marker op \<in> set (filter (live ts) stack)"
      by (rule unmatch_close [OF ok k cl(1) cl(3,2) bal]) blast
    then obtain a below where stack: "stack = a # below" by (cases stack) auto
    obtain t where t: "t \<in> set (markers ts)" "this_marker t = a" "mMatch t \<noteq> None"
      using top stack by (auto simp: live_def)
    have at: "marker_at a ts = Some t" using marker_at_iff [OF old(1)] t by simp
    have step: "unmatch_step (stack, ts) k =
        (if mId m \<noteq> mId t then Inr (stack, update_marker (this_marker m) (matched None (-1))
           (update_marker (this_marker op) (matched None (-1)) ts))
         else Inr (dropWhile (\<lambda>a. mMatch (the (marker_at a ts)) = None) below, ts))"
      using cl marker_of_matched [OF cl(1)] at op(3) by (simp add: unmatch_step_def stack)
    have is_open: "\<exists>o1\<in>set (markers ts). mOpenMarker o1 \<and> this_marker o1 = b"
      if "b \<in> set (filter (live ts) stack)" for b
      using balance_open_set [OF bal that] ms by auto
    have "mOpenMarker t"
      using is_open [of a] stack top t old(1) by (auto simp: distinct_map inj_on_def)
    then have same: "mId t = mId m \<Longrightarrow> t = op"
      using old(6) [OF t(1) op(1) t(3)] op(2) by (auto simp: partners_def)
    show ?thesis
    proof (cases "mId m = mId t")
      case True
      let ?stack = "dropWhile (\<lambda>a. \<not> live ts a) below"
      have "marker_at b ts = Some l \<Longrightarrow> mMatch l = None \<longleftrightarrow> \<not> live ts b" for b l
        using marker_at_iff [OF old(1)] old(1) by (auto simp: live_def distinct_map inj_on_def)
      moreover have "\<exists>l. marker_at b ts = Some l" if "b \<in> set below" for b
        using that known stack marker_at_iff [OF old(1)] by auto
      ultimately have drop: "dropWhile (\<lambda>a. mMatch (the (marker_at a ts)) = None) below = ?stack"
        by (intro dropWhile_cong) force+
      have "unmatch_inv (Suc k) (?stack, ts)"
      proof (rule keep)
        show "balance (filter (live ts) stack) (case marker_of (ts ! k) of Some m \<Rightarrow> [m] | None \<Rightarrow> []) =
            Some (filter (live ts) ?stack)"
          using stack top cl op(3) same True t(2) by (simp add: filter_dropWhile_not)
        show "?stack \<noteq> [] \<Longrightarrow> live ts (hd ?stack)" by (rule hd_dropWhile_not)
        show "set ?stack \<subseteq> this_marker ` set (markers ts)"
          using known stack set_dropWhileD by fastforce
      qed
      with step drop True show ?thesis by simp
    next
      case False
      then have "hd stack \<noteq> this_marker op"
        using same_address [OF old(1) t(1) op(1)] t(2) op(2) stack by (auto simp: partners_def)
      with unmatch_drop_pair [OF inv k cl(1,3) op(1,2) _ op(4)] step False show ?thesis by simp
    qed
  qed
qed

lemma unmatch_loop_inv:
  assumes "unmatch_inv k (stack, ts)" "k \<le> length ts"
  shows "\<exists>stack' ts'. unmatch_loop (stack, ts) [k..<length ts] = Inr (stack', ts') \<and>
     unmatch_inv (length ts) (stack', ts') \<and> length ts' = length ts"
  using assms
proof (induction "length ts - k" arbitrary: k stack ts)
  case 0
  then show ?case by simp
next
  case (Suc d)
  then have k: "k < length ts" by simp
  obtain stack' ts' where step: "unmatch_step (stack, ts) k = Inr (stack', ts')"
    and inv: "unmatch_inv (Suc k) (stack', ts')" and len: "length ts' = length ts"
    using unmatch_step_inv [OF Suc.prems(1) k] by blast
  from Suc.hyps(1) [of ts' "Suc k" stack'] Suc.hyps(2) inv len k step show ?case
    by (auto simp: upt_rec [of k "length ts"])
qed

lemma unmatch_balanced:
  assumes "pairs_ok addr n (markers ts)"
  shows "\<exists>ts'. unmatch ts = Inr ts' \<and> length ts' = length ts \<and> (\<exists>addr n. pairs_ok addr n (markers ts')) \<and>
     balance [] (markers ts') = Some []"
proof -
  have "unmatch_inv 0 ([], ts)" using assms by (auto simp: unmatch_inv_def)
  from unmatch_loop_inv [OF this] obtain stack ts' where
    loop: "unmatch_loop ([], ts) [0..<length ts] = Inr (stack, ts')"
    and inv: "unmatch_inv (length ts) (stack, ts')" and len: "length ts' = length ts" by auto
  then obtain addr n where ok: "pairs_ok addr n (markers ts')"
    and bal: "balance [] (markers ts') = Some (filter (live ts') stack)"
    by (auto simp: unmatch_inv_def)
  have closed: "a \<notin> set (filter (live ts') stack)" for a
  proof
    assume a: "a \<in> set (filter (live ts') stack)"
    then obtain m where m: "m \<in> set (markers ts')" "this_marker m = a" "mMatch m \<noteq> None" by (auto simp: live_def)
    obtain o1 where "o1 \<in> set (markers ts')" "mOpenMarker o1" "this_marker o1 = a"
      using balance_open_set [OF bal a] by auto
    with same_address [OF pairs_okD(1) [OF ok]] m have "mOpenMarker m" by blast
    with m pairs_okD(5) [OF ok m(1)] obtain k where k: "k \<in> set (markers ts')" "\<not> mOpenMarker k" "mMatch k = Some a"
      by (auto simp: paired_def partners_def)
    from balance_closed [OF bal _ k] pairs_okD(1) [OF ok] a show False by (simp add: separate_def)
  qed
  have "filter (live ts') stack = []"
  proof (cases "filter (live ts') stack")
    case (Cons a as)
    then have "a \<in> set (filter (live ts') stack)" by (metis list.set_intros(1))
    with closed show ?thesis by blast
  qed
  with bal ok loop len show ?thesis by (auto simp: unmatch_def)
qed

section \<open>The elements nest\<close>

text \<open>
  The tags that a marker writes: whether each opens or closes, and its element. \<open>tags_nest\<close> checks a
  sequence of tags, with the elements that are open, the innermost first.
\<close>

definition elements :: "nat \<Rightarrow> string list" where
  "elements s = (if s = 1 then [''em''] else if s = 2 then [''strong''] else [''strong'', ''em''])"

definition marker_tags :: "Marker \<Rightarrow> (bool \<times> string) list" where
  "marker_tags m =
     (if mDisabled m \<or> mMatch m = None then []
      else if mOpenMarker m then map (Pair True) (elements (mSize m))
      else map (Pair False) (rev (elements (mSize m))))"

definition write_tag :: "bool \<times> string \<Rightarrow> string" where
  "write_tag t = (if fst t then ''<'' else ''</'') @ snd t @ ''>''"

fun tags_nest :: "string list \<Rightarrow> (bool \<times> string) list \<Rightarrow> bool" where
  "tags_nest st [] \<longleftrightarrow> st = []"
| "tags_nest st ((True, e) # tags) \<longleftrightarrow> tags_nest (e # st) tags"
| "tags_nest [] ((False, e) # tags) \<longleftrightarrow> False"
| "tags_nest (d # st) ((False, e) # tags) \<longleftrightarrow> d = e \<and> tags_nest st tags"

lemma Marker_writeAsHtml_tags:
  "Marker_writeAsHtml m =
     (if mDisabled m \<or> mMatch m \<noteq> None then concat (map write_tag (marker_tags m))
      else replicate (mSize m) (mTokenCharacter m))"
  by (auto simp: Marker_writeAsHtml_def marker_tags_def write_tag_def elements_def)

lemma tags_nest_open: "tags_nest st (map (Pair True) es @ tags) \<longleftrightarrow> tags_nest (rev es @ st) tags"
  by (induction es arbitrary: st) auto

lemma tags_nest_close: "tags_nest (es @ st) (map (Pair False) es @ tags) \<longleftrightarrow> tags_nest st tags"
  by (induction es) auto

text \<open>The elements that are open are those of the addresses on the stack.\<close>

lemma balance_tags:
  assumes "balance st ms = Some []" "set ms \<subseteq> set all" "distinct (map this_marker all)"
    "\<And>m. m \<in> set all \<Longrightarrow> mMatch m \<noteq> None \<Longrightarrow> paired all m"
    "\<And>a. a \<in> set st \<Longrightarrow> \<exists>m\<in>set all. this_marker m = a \<and> mOpenMarker m \<and> es a = rev (elements (mSize m))"
    "\<And>m. m \<in> set all \<Longrightarrow> mOpenMarker m \<Longrightarrow> es (this_marker m) = rev (elements (mSize m))"
  shows "tags_nest (concat (map es st)) (concat (map marker_tags ms))"
  using assms(1,2,5)
proof (induction ms arbitrary: st)
  case (Cons m ms)
  have m: "m \<in> set all" using Cons.prems(2) by simp
  consider "mMatch m = None" "balance st ms = Some []"
    | "mMatch m \<noteq> None" "mOpenMarker m" "balance (this_marker m # st) ms = Some []"
    | a st1 where "\<not> mOpenMarker m" "mMatch m = Some a" "st = a # st1" "balance st1 ms = Some []"
    using Cons.prems(1) by (cases st) (auto split: if_split_asm)
  then show ?case
  proof cases
    case 1
    with Cons show ?thesis by (simp add: marker_tags_def [of m])
  next
    case 2
    with assms(4) [OF m] have "\<not> mDisabled m" by (auto simp: paired_def partners_def)
    moreover have "tags_nest (concat (map es (this_marker m # st))) (concat (map marker_tags ms))"
    proof (rule Cons.IH [OF 2(3)])
      show "set ms \<subseteq> set all" using Cons.prems(2) by simp
      show "\<exists>k\<in>set all. this_marker k = a \<and> mOpenMarker k \<and> es a = rev (elements (mSize k))"
        if "a \<in> set (this_marker m # st)" for a
        using that Cons.prems(3) [of a] assms(6) [OF m 2(2)] m 2(2) by auto
    qed
    ultimately show ?thesis using 2 assms(6) [OF m] by (auto simp: marker_tags_def [of m] tags_nest_open)
  next
    case 3
    with assms(4) [OF m] obtain k where k: "k \<in> set all" "partners (map this_marker all) k m" "this_marker k = a"
      by (auto simp: paired_def partners_def)
    then have "es a = rev (elements (mSize m))" "\<not> mDisabled m"
      using assms(6) [OF k(1)] by (auto simp: partners_def)
    with Cons 3 show ?thesis by (simp add: marker_tags_def [of m] tags_nest_close)
  qed
qed simp

lemma unmatch_tags_nest:
  assumes "pairs_ok addr n (markers ts)"
  shows "\<exists>ts'. unmatch ts = Inr ts' \<and> length ts' = length ts \<and> tags_nest [] (concat (map marker_tags (markers ts')))"
proof -
  obtain ts' addr n where u: "unmatch ts = Inr ts'" "length ts' = length ts"
    and ok: "pairs_ok addr n (markers ts')" and bal: "balance [] (markers ts') = Some []"
    using unmatch_balanced [OF assms] by blast
  note old = pairs_okD [OF ok]
  let ?es = "\<lambda>a. rev (elements (mSize (the (marker_at a ts'))))"
  have "tags_nest (concat (map ?es [])) (concat (map marker_tags (markers ts')))"
  proof (rule balance_tags [OF bal subset_refl old(1,5)])
    show "?es (this_marker m) = rev (elements (mSize m))" if "m \<in> set (markers ts')" for m
      using marker_at_iff [OF old(1), of "this_marker m" m] that by simp
  qed auto
  with u show ?thesis by auto
qed

end
