(* ===== verification/Markdown_Termination.thy ===== *)
theory Markdown_Termination
  imports Markdown_Document Markdown_Nesting
begin

text \<open>
  When the conversion of a document ends: every loop but the matching of emphasis markers ends for
  every input, if the regular expressions behave as documented, and the matching ends unless a text
  has a run of three markers that can open and a run of three of the other character that can close.
\<close>

section \<open>What is used of the regular expressions\<close>

text \<open>
  The expressions that are searched for in a loop match no empty text; a group of a whole match is not
  longer than the subject, and shorter where the expression wants more than the group; the runs
  of emphasis characters have one to three characters.
\<close>

definition searched :: "string list" where
  "searched = [cReplaced, cHtmlToken, cAttributeStrings, cCodeSpan ! 0, cCodeSpan ! 1, cLinkExpression,
     cEmphasisExpression, cHtmlTokenSource]"

definition search_ok :: "regex \<Rightarrow> string \<Rightarrow> bool" where
  "search_ok rx e \<longleftrightarrow> (\<forall>s pos m. rx_search rx e s = Some (pos, m) \<longrightarrow> pos < length s \<and> cap m 0 \<noteq> [])"

definition shrinks :: "regex \<Rightarrow> string \<Rightarrow> nat \<Rightarrow> nat \<Rightarrow> bool" where
  "shrinks rx e i d \<longleftrightarrow> (\<forall>s m. rx_match rx e s = Some m \<longrightarrow> length (cap m i) + d \<le> length s)"

definition match_ok :: "regex \<Rightarrow> bool" where
  "match_ok rx \<longleftrightarrow>
     (\<forall>e i. shrinks rx e i 0) \<and> shrinks rx cBlockQuoteExpression 2 1 \<and>
     shrinks rx cUnorderedListExpression 3 2 \<and> shrinks rx cOrderedListExpression 3 2 \<and>
     (\<forall>s m. rx_match rx cUnorderedListExpression s = Some m \<longrightarrow> cap m 2 \<in> {''*'', ''+'', ''-''}) \<and>
     (\<forall>n. \<forall>c\<in>{''*'', ''+'', ''-''}. shrinks rx (next_unordered n c) 1 2) \<and>
     (\<forall>n. shrinks rx (next_ordered n) 1 2) \<and>
     (\<forall>st. shrinks rx (codeBlockAfterBlankLineExpression st) 1 1)"

definition runs_ok :: "regex \<Rightarrow> bool" where
  "runs_ok rx \<longleftrightarrow> (\<forall>s pos m. rx_search rx cEmphasisExpression s = Some (pos, m) \<longrightarrow>
     (if capture m 3 \<noteq> None then length (cap m 3) \<in> {1, 2, 3}
      else if capture m 4 \<noteq> None then length (cap m 4) \<in> {1, 2, 3} else length (cap m 1) \<in> {1, 2, 3}))"

definition regex_ok :: "regex \<Rightarrow> bool" where
  "regex_ok rx \<longleftrightarrow>
     (\<forall>e\<in>set searched. search_ok rx e) \<and> runs_ok rx \<and> match_ok rx"

section \<open>The loop over the matches\<close>

lemma scan_ends:
  assumes "\<And>s pos m. search s = Some (pos, m) \<Longrightarrow> pos < length s"
    and "\<And>s pos m st. search s = Some (pos, m) \<Longrightarrow> ends (turn st (take pos s) m)"
    and "\<And>s pos m st st' n. search s = Some (pos, m) \<Longrightarrow> turn st (take pos s) m = ret (st', n) \<Longrightarrow> 0 < n"
  shows "ends (scan s search turn st)"
proof (induction "length s" arbitrary: s st rule: less_induct)
  case less
  show ?case
  proof (cases "search s")
    case None
    then show ?thesis by (subst scan.simps) simp
  next
    case (Some r)
    then obtain pos m where r: "search s = Some (pos, m)" by (cases r) auto
    have "ends (scan (drop (pos + n) s) search turn st')" if "turn st (take pos s) m = ret (st', n)" for st' n
      by (rule less) (use assms(1) [OF r] assms(3) [OF r that] in simp)
    with r assms(2) [OF r] show ?thesis by (subst scan.simps) auto
  qed
qed

lemma scan_invariant:
  assumes "scan s search turn st = ret (st', rest)" "I st"
    and step: "\<And>s pos m st st' n. search s = Some (pos, m) \<Longrightarrow> I st \<Longrightarrow> turn st (take pos s) m = ret (st', n) \<Longrightarrow> I st'"
  shows "I st'"
proof -
  have ret: "scan s search turn st = Some (Inr (st', rest))" using assms(1) by (simp add: ret_def)
  have "I st \<longrightarrow> (case (Inr (st', rest) :: (_ \<times> string) outcome) of Inl e \<Rightarrow> True | Inr (st', rest) \<Rightarrow> I st')"
  proof (rule scan.raw_induct [where P = "\<lambda>s search' turn' st r. search' = search \<longrightarrow> turn' = turn \<longrightarrow>
        I st \<longrightarrow> (case r of Inl e \<Rightarrow> True | Inr (st', rest) \<Rightarrow> I st')", OF _ ret, THEN mp, THEN mp], goal_cases)
    case (1 f s search' turn' st r)
    note IH = "1"(1) and body = "1"(2)
    show ?case
    proof (intro impI)
      assume eqs: "search' = search" "turn' = turn" and I: "I st"
      show "case r of Inl e \<Rightarrow> True | Inr (st', rest) \<Rightarrow> I st'"
      proof (cases "search s")
        case None
        with body eqs I show ?thesis by (auto simp: ret_def split: sum.split)
      next
        case (Some q)
        obtain pos m where q: "q = (pos, m)" by (cases q)
        with body Some eqs have b: "run_bind (turn st (take pos s) m)
            (\<lambda>(st', n). f (drop (pos + n) s) search turn st') = Some r" by simp
        show ?thesis
        proof (cases r)
          case (Inr x)
          with b have "run_bind (turn st (take pos s) m)
            (\<lambda>(st', n). f (drop (pos + n) s) search turn st') = ret x" by (simp add: ret_def)
          then obtain st1 n where t: "turn st (take pos s) m = ret (st1, n)"
            and "f (drop (pos + n) s) search turn st1 = ret x" by (auto simp: run_bind_eq_ret)
          with IH [of "drop (pos + n) s" search turn st1 r] step [OF _ I t] Some q Inr
          show ?thesis by (simp add: ret_def)
        qed simp
      qed
    qed
  qed simp_all
  with assms(2) show ?thesis by simp
qed

text \<open>A turn that uses up its match.\<close>

lemma scan_match_ends:
  assumes "search_ok rx e"
    and "\<And>st pre m. ends (turn st pre m)"
    and "\<And>st pre m st' n. cap m 0 \<noteq> [] \<Longrightarrow> turn st pre m = ret (st', n) \<Longrightarrow> 0 < n"
  shows "ends (scan s (rx_search rx e) turn st)"
proof (rule scan_ends)
  fix s pos m st st' n
  assume s: "rx_search rx e s = Some (pos, m)"
  with assms(1) have "pos < length s \<and> cap m 0 \<noteq> []" by (auto simp: search_ok_def)
  then show "pos < length s" "turn st (take pos s) m = ret (st', n) \<Longrightarrow> 0 < n" using assms(3) by blast+
qed (rule assms(2))

lemma scan_text_ends:
  assumes "search_ok rx e"
    and "\<And>st pre m. ends (turn st pre m)"
    and "\<And>st pre m st' n. cap m 0 \<noteq> [] \<Longrightarrow> turn st pre m = ret (st', n) \<Longrightarrow> 0 < n"
  shows "ends (scan_text (rx_search rx e) turn st s)"
  using scan_match_ends [OF assms] by (auto simp: scan_text_def split: prod.split)

section \<open>Spans\<close>

lemma searched_ok:
  assumes "regex_ok rx"
  shows "search_ok rx cReplaced" "search_ok rx cHtmlToken" "search_ok rx cAttributeStrings"
    "search_ok rx (cCodeSpan ! 0)" "search_ok rx (cCodeSpan ! 1)" "search_ok rx cLinkExpression"
    "search_ok rx cEmphasisExpression" "search_ok rx cHtmlTokenSource"
  using assms by (simp_all add: regex_ok_def searched_def)

lemma reference_ends [simp]: "ends (reference ref replacements)"
  by (simp add: reference_def)

lemma processed_items_end [simp]:
  assumes "regex_ok rx"
  shows "ends (encodeProcessedItems rx src replacements)" "ends (restoreProcessedItems rx src replacements)"
  unfolding encodeProcessedItems_def restoreProcessedItems_def ends_bind
  by (intro conjI scan_match_ends searched_ok [OF assms]; auto simp: run_bind_eq_ret split: prod.split)+

lemma processAttributes_ends [simp]: "regex_ok rx \<Longrightarrow> ends (processAttributes rx s replacements)"
  unfolding processAttributes_def by (rule scan_text_ends [OF searched_ok(3)]) auto

lemma processHtmlTagAttributes_ends: "regex_ok rx \<Longrightarrow> ends (processHtmlTagAttributes rx s replacements)"
  unfolding processHtmlTagAttributes_def
  by (rule scan_text_ends [OF searched_ok(2)]) (auto simp: run_bind_eq_ret split: if_split_asm)

lemma processCodeSpans_ends: "regex_ok rx \<Longrightarrow> ends (processCodeSpans rx s replacements)"
proof -
  assume ok: "regex_ok rx"
  have "ends (processCodeSpans_pass rx e s r)" if "search_ok rx e" for e s r
    unfolding processCodeSpans_pass_def
    by (rule scan_text_ends [OF that]) (auto simp: ok run_bind_eq_ret)
  then show ?thesis using searched_ok [OF ok] by (auto simp: processCodeSpans_def)
qed

lemma bracketed_ends [simp]: "regex_ok rx \<Longrightarrow> ends (bracketed rx m replacements)"
  by (auto simp: bracketed_def Let_def)

lemma links_turn_ends: "regex_ok rx \<Longrightarrow> ends (links_turn rx idTable st pre m)"
  by (auto simp: links_turn_def Let_def split: prod.split option.split)

lemma links_turn_progress: "cap m 0 \<noteq> [] \<Longrightarrow> links_turn rx idTable st pre m = ret (st', n) \<Longrightarrow> 0 < n"
  by (auto simp: links_turn_def Let_def run_bind_eq_ret split: prod.splits option.splits if_split_asm)

lemma processLinksImagesAndTags_ends: "regex_ok rx \<Longrightarrow> ends (processLinksImagesAndTags rx s replacements idTable)"
  unfolding processLinksImagesAndTags_def
  by (rule scan_text_ends [OF searched_ok(6)]) (auto simp: links_turn_ends links_turn_progress)

lemma emphasis_tokens_ends: "regex_ok rx \<Longrightarrow> ends (emphasis_tokens rx src)"
  unfolding emphasis_tokens_def ends_bind
  by (intro conjI scan_match_ends searched_ok(7)) (auto simp: emphasis_turn_def Let_def split: prod.splits)

section \<open>Emphasis\<close>

text \<open>The markers of a text are new: each has its own address, and none is matched.\<close>

definition fresh_markers :: "nat \<Rightarrow> Marker list \<Rightarrow> bool" where
  "fresh_markers addr ms \<longleftrightarrow> distinct (map this_marker ms) \<and>
     (\<forall>m\<in>set ms. this_marker m < addr \<and> mMatch m = None \<and> \<not> mDisabled m \<and> \<not> mCannotMatch m)"

lemma fresh_pairs: "fresh_markers addr ms \<Longrightarrow> pairs_ok addr n ms"
  by (auto simp: fresh_markers_def pairs_ok_def)

lemma markers_raw_text [simp]: "markers (raw_text s) = []" "sizes_ok (raw_text s)"
  by (simp_all add: raw_text_def markers_Cons sizes_ok_def)

lemma markers_marker_token [simp]:
  "markers (marker_token addr b s # ts) = new_Marker addr b (if s = [] then CHR 0x00 else hd s) (length s) # markers ts"
  by (simp add: marker_token_def)

lemma fresh_markers_add: "fresh_markers addr ms \<Longrightarrow> fresh_markers (Suc addr) (ms @ [new_Marker addr b c s])"
  by (fastforce simp: fresh_markers_def)

lemma markers_RawText [simp]: "markers (RawText s b # ts) = markers ts"
  by (simp add: markers_Cons)

lemma emphasis_turn_fresh:
  assumes "fresh_markers addr (markers tgt)" "emphasis_turn (addr, tgt) pre m = ret ((addr', tgt'), n)"
  shows "fresh_markers addr' (markers tgt')"
proof -
  note one = fresh_markers_add [OF assms(1)]
  note two = fresh_markers_add [OF one]
  show ?thesis using assms(2) one two
    by (auto simp: emphasis_turn_def Let_def split: if_split_asm)
qed

lemma emphasis_tokens_fresh:
  assumes "emphasis_tokens rx src = ret (addr, ts)"
  shows "fresh_markers addr (markers ts)"
proof -
  obtain tgt rest where s: "scan src (rx_search rx cEmphasisExpression) emphasis_turn (0, []) = ret ((addr, tgt), rest)"
    and ts: "ts = tgt @ raw_text rest"
    using assms by (auto simp: emphasis_tokens_def run_bind_eq_ret)
  have "case (addr, tgt) of (addr, tgt) \<Rightarrow> fresh_markers addr (markers tgt)"
    by (rule scan_invariant [OF s]) (auto simp: fresh_markers_def [of _ "[]"] intro: emphasis_turn_fresh)
  with ts show ?thesis by simp
qed

lemma emphasis_tokens_sizes:
  assumes "runs_ok rx" "emphasis_tokens rx src = ret (addr, ts)"
  shows "sizes_ok ts"
proof -
  obtain tgt rest where s: "scan src (rx_search rx cEmphasisExpression) emphasis_turn (0, []) = ret ((addr, tgt), rest)"
    and ts: "ts = tgt @ raw_text rest"
    using assms(2) by (auto simp: emphasis_tokens_def run_bind_eq_ret)
  have "case (addr, tgt) of (addr, tgt) \<Rightarrow> sizes_ok tgt"
  proof (rule scan_invariant [OF s])
    fix s pos m st st' n
    assume r: "rx_search rx cEmphasisExpression s = Some (pos, m)" and I: "case st of (addr, tgt) \<Rightarrow> sizes_ok tgt"
      and t: "emphasis_turn st (take pos s) m = ret (st', n)"
    have ok: "if capture m 3 \<noteq> None then length (cap m 3) \<in> {1, 2, 3}
      else if capture m 4 \<noteq> None then length (cap m 4) \<in> {1, 2, 3} else length (cap m 1) \<in> {1, 2, 3}"
      using assms(1) r unfolding runs_ok_def by blast
    then show "case st' of (addr, tgt) \<Rightarrow> sizes_ok tgt" using I t
      by (auto simp: emphasis_turn_def Let_def marker_token_def sizes_ok_Cons split: if_split_asm prod.splits)
  qed simp
  with ts show ?thesis by simp
qed

text \<open>What a text is matched to nests, if the matching ends; it ends unless two runs of three clash.\<close>

lemma match_emphasis_nests:
  assumes "emphasis_tokens rx src = ret (addr, ts)" "match_emphasis ts addr = Some r"
  shows "\<exists>us. r = Inr us \<and> tags_nest [] (concat (map marker_tags (markers us)))"
proof -
  obtain ts' where m: "match_markers ts [] addr 0 = Some ts'" and r: "r = unmatch ts'"
    using assms(2) by (auto simp: match_emphasis_def split: option.splits)
  have "pairs_ok addr 0 (markers [] @ markers ts)"
    using fresh_pairs [OF emphasis_tokens_fresh [OF assms(1)]] by simp
  from match_markers_pairs [OF m this] obtain addr' n' where "pairs_ok addr' n' (markers ts')" by blast
  from unmatch_tags_nest [OF this] r show ?thesis by auto
qed

definition spans_clash :: "regex \<Rightarrow> LinkIds \<Rightarrow> string \<Rightarrow> bool" where
  "spans_clash rx idTable s \<longleftrightarrow> (\<exists>replacements str addr ts.
     span_stages rx idTable s = ret (replacements, str) \<and> emphasis_tokens rx str = ret (addr, ts) \<and>
     \<not> threes_agree ts)"

lemma match_emphasis_ends:
  assumes "regex_ok rx" "emphasis_tokens rx str = ret (addr, ts)" "threes_agree ts"
  shows "ends (match_emphasis ts addr)"
proof -
  have "sizes_ok ([] @ ts)" using emphasis_tokens_sizes [OF _ assms(2)] assms(1) by (simp add: regex_ok_def)
  from match_markers_ends [OF this assms(3), of addr 0] show ?thesis by (auto simp: match_emphasis_def)
qed

text \<open>An open run of three and a close run of three of the other character after it hang the text.\<close>

lemma match_markers_skips:
  "list_all (\<lambda>t. \<not> isUnmatchedOpenMarker t) before \<Longrightarrow>
   match_markers (before @ rest) passed addr n = match_markers rest (passed @ before) addr n"
  by (induction before arbitrary: passed) (simp_all add: match_markers_skip)

lemma bold_hangs:
  assumes "emphasis_tokens rx src = ret (addr, before @ BoldOrItalicMarker op # mid @ BoldOrItalicMarker cl # after)"
    and "list_all (\<lambda>t. \<not> isUnmatchedOpenMarker t) before" "no_close mid"
    and "mOpenMarker op" "\<not> mOpenMarker cl" "mSize op = 3" "mSize cl = 3" "mTokenCharacter op \<noteq> mTokenCharacter cl"
  shows "processBoldAndItalicSpans rx src replacements = None"
proof -
  have fresh: "fresh_markers addr (markers (before @ BoldOrItalicMarker op # mid @ BoldOrItalicMarker cl # after))"
    by (rule emphasis_tokens_fresh [OF assms(1)])
  then have "isUnmatchedOpenMarker (BoldOrItalicMarker op)" "isUnmatchedCloseMarker (BoldOrItalicMarker cl)"
    using assms(4,5) by (auto simp: fresh_markers_def token_simps)
  then have "match_markers (before @ BoldOrItalicMarker op # mid @ BoldOrItalicMarker cl # after) [] addr 0 = None"
    using match_markers_diverges [of op cl mid after before] assms(2,3,6-8) by (simp add: match_markers_skips)
  with assms(1) show ?thesis by (simp add: processBoldAndItalicSpans_def match_emphasis_def)
qed

lemma encode_token_ends [simp]: "regex_ok rx \<Longrightarrow> ends (encode_token rx replacements t)"
  by (simp add: encode_token_def split: option.split)

lemma RawText_spans_end:
  assumes ok: "regex_ok rx" and no: "\<not> spans_clash rx idTable s"
  shows "ends (RawText_processSpanElements rx idTable s markup)"
proof -
  have stages: "ends (span_stages rx idTable s)"
    by (auto simp: span_stages_def ok processHtmlTagAttributes_ends processCodeSpans_ends processLinksImagesAndTags_ends)
  have "ends (processBoldAndItalicSpans rx str replacements)" if "span_stages rx idTable s = ret (replacements, str)"
    for replacements str
    using that no match_emphasis_ends [OF ok] emphasis_tokens_ends [OF ok]
    by (auto simp: processBoldAndItalicSpans_def spans_clash_def ok intro!: ends_run_map)
  with stages show ?thesis by (auto simp: RawText_processSpanElements_def)
qed

section \<open>The spans of a tree\<close>

text \<open>The texts of a tree that are processed for spans.\<close>

function span_texts :: "Token \<Rightarrow> string list" where
  "span_texts t =
     (case subTokens t of
        Some ts \<Rightarrow> concat (map span_texts ts)
      | None \<Rightarrow> (case t of RawText s True \<Rightarrow> [s] | _ \<Rightarrow> []))"
  by pat_completeness auto
termination
  by (relation "measure size") (auto simp: subTokens_smaller)

declare span_texts.simps [simp del]

lemma processSpanElements_ends:
  assumes "regex_ok rx" "\<And>s. s \<in> set (span_texts t) \<Longrightarrow> \<not> spans_clash rx idTable s"
  shows "ends (processSpanElements rx idTable t)"
  using assms(2)
proof (induction "size t" arbitrary: t rule: less_induct)
  case less
  show ?case
  proof (cases "subTokens t")
    case None
    show ?thesis
    proof (cases t)
      case (RawText s markup)
      have "ends (RawText_processSpanElements rx idTable s markup)"
      proof (cases markup)
        case True
        with less.prems RawText None show ?thesis
          by (intro RawText_spans_end assms(1)) (simp add: span_texts.simps)
      qed (simp add: RawText_processSpanElements_def)
      with None RawText show ?thesis by (subst processSpanElements.simps) simp
    qed (use None in \<open>subst processSpanElements.simps, simp\<close>)+
  next
    case (Some ts)
    have "ends (run_map (processSpanElements rx idTable) ts)"
    proof (rule ends_run_map)
      fix u assume u: "u \<in> set ts"
      have "span_texts t = concat (map span_texts ts)" using Some by (subst span_texts.simps) simp
      then have "\<not> spans_clash rx idTable s" if "s \<in> set (span_texts u)" for s
        using u that less.prems [of s] by auto
      then show "ends (processSpanElements rx idTable u)" by (rule less.hyps [OF subTokens_smaller [OF Some u]])
    qed
    with Some show ?thesis by (subst processSpanElements.simps) simp
  qed
qed

section \<open>The passes over the lines\<close>

lemma parseInlineHtmlText_ends:
  assumes "regex_ok rx"
  shows "ends (parseInlineHtmlText_loop s rx r)"
proof (induction "length s" arbitrary: s r rule: less_induct)
  case less
  show ?case
  proof (cases "rx_search rx cHtmlTokenSource s")
    case None
    then show ?thesis by (subst parseInlineHtmlText_loop.simps) simp
  next
    case (Some q)
    then obtain pos m where q: "rx_search rx cHtmlTokenSource s = Some (pos, m)" by (cases q) auto
    then have "pos < length s \<and> cap m 0 \<noteq> []" using searched_ok(8) [OF assms] by (auto simp: search_ok_def)
    then have "length (drop (pos + length (cap m 0)) s) < length s" by (cases "cap m 0") auto
    from less.hyps [OF this] q show ?thesis by (subst parseInlineHtmlText_loop.simps) simp
  qed
qed

lemma html_lines_ends:
  "ts \<noteq> [] \<Longrightarrow> (\<And>t. ends (convert t)) \<Longrightarrow> ends (html_lines convert last_line is_first ts)"
  by (induction convert last_line is_first ts rule: html_lines.induct) (auto split: prod.split)

lemma html_lines_rest:
  "html_lines convert last_line is_first ts = ret (contents, n, ts') \<Longrightarrow> ts' \<noteq> [] \<and> length ts' \<le> length ts"
  by (induction convert last_line is_first ts arbitrary: contents n rule: html_lines.induct)
    (fastforce simp: run_bind_eq_ret split: if_split_asm)+

lemma parseInlineHtml_ends:
  assumes "regex_ok rx" "ts \<noteq> []"
  shows "ends (parseInlineHtml rx ts)"
proof -
  have "ends (html_line rx t)" "ends (comment_line t)" for t
    using parseInlineHtmlText_ends [OF assms(1)]
    by (auto simp: html_line_def comment_line_def parseInlineHtmlText_def split: option.split)
  then show ?thesis using assms(2)
    by (auto simp: parseInlineHtml_def Let_def html_lines_ends split: option.split prod.split)
qed

lemma parseInlineHtml_rest:
  "parseInlineHtml rx ts = ret (r, ts') \<Longrightarrow> ts \<noteq> [] \<Longrightarrow> ts' \<noteq> [] \<and> length ts' \<le> length ts"
  by (auto simp: parseInlineHtml_def Let_def run_bind_eq_ret split: option.splits if_split_asm dest: html_lines_rest)

lemma parseReference_rest:
  "parseReference rx ts ids = (True, ts', ids') \<Longrightarrow> ts \<noteq> [] \<Longrightarrow> length (tl ts') < length ts"
  by (auto simp: parseReference_def split: option.splits if_split_asm)

lemma inline_turn_ends: "regex_ok rx \<Longrightarrow> ts \<noteq> [] \<Longrightarrow> ends (inline_turn rx processed ids ts)"
  by (auto simp: inline_turn_def parseInlineHtml_ends split: option.split prod.split bool.split)

lemma inline_turn_rest:
  "inline_turn rx processed ids ts = ret (processed', ids', ts') \<Longrightarrow> ts \<noteq> [] \<Longrightarrow> length ts' < length ts"
  by (auto simp: inline_turn_def run_bind_eq_ret split: option.splits prod.splits bool.splits if_split_asm
      dest!: parseInlineHtml_rest parseReference_rest)
    (auto simp: neq_Nil_conv)

lemma inline_loop_ends:
  assumes "regex_ok rx"
  shows "ends (inline_loop ts rx processed ids)"
proof (induction "length ts" arbitrary: ts processed ids rule: less_induct)
  case less
  show ?case
  proof (cases "ts = []")
    case True
    then show ?thesis by (subst inline_loop.simps) simp
  next
    case False
    have "ends (inline_loop (snd (snd r)) rx (fst r) (fst (snd r)))" if "inline_turn rx processed ids ts = ret r" for r
      by (rule less) (use inline_turn_rest [of rx processed ids ts "fst r" "fst (snd r)" "snd (snd r)"] that False in simp)
    with False inline_turn_ends [OF assms False] show ?thesis by (subst inline_loop.simps) auto
  qed
qed

section \<open>Lists\<close>

lemma end_item_simps [simp]: "indent (end_item st) = indent st"
  by (simp add: end_item_def)

lemma item_code_lines_rest: "item_code_lines rx code ts = Inr (s, rest) \<Longrightarrow> length rest \<le> length ts"
  by (induction rx code ts arbitrary: s rule: item_code_lines.induct)
    (fastforce simp: outcome_bind_def split: if_split_asm option.splits sum.splits)+

definition turn_rest :: "list_turn \<Rightarrow> Token list" where
  "turn_rest turn = (case turn of Go_on _ ts \<Rightarrow> ts | Sublist _ ts \<Rightarrow> ts | Stop _ ts \<Rightarrow> ts)"

lemma list_turn_rest:
  assumes "list_turn_of rx st rest = Inr turn" "rest \<noteq> []"
  shows "length (turn_rest turn) \<le> length rest"
    "turn = Go_on st' ts \<Longrightarrow> length ts < length rest" "turn = Sublist st' ts \<Longrightarrow> ts \<noteq> []"
proof -
  have blank: "blank_turn rx st rest = Inr turn \<Longrightarrow> length (turn_rest turn) \<le> length rest \<and>
      (turn = Go_on st' ts \<longrightarrow> length ts < length rest) \<and> (turn = Sublist st' ts \<longrightarrow> ts \<noteq> [])"
    by (auto simp: blank_turn_def turn_rest_def outcome_bind_def
        split: list.splits option.splits if_split_asm sum.splits prod.splits dest!: item_code_lines_rest)
  have "text_turn rx st line rest = Inr turn \<Longrightarrow> length (turn_rest turn) \<le> length rest \<and>
      (turn = Go_on st' ts \<longrightarrow> length ts < length rest) \<and> (turn = Sublist st' ts \<longrightarrow> ts \<noteq> [])" for line
    using assms(2) by (auto simp: text_turn_def turn_rest_def split: option.splits if_split_asm)
  with blank show "length (turn_rest turn) \<le> length rest"
    "turn = Go_on st' ts \<Longrightarrow> length ts < length rest" "turn = Sublist st' ts \<Longrightarrow> ts \<noteq> []"
    using assms by (auto simp: list_turn_of_def turn_rest_def split: if_split_asm option.splits)
qed

lemma list_loop_rest: "list_loop rest rx st = ret (st', ts) \<Longrightarrow> length ts \<le> length rest"
proof (induction rule: list_loop_induct)
  case (sub rest st st1 ts1 sub st2 ts2 p st' ts)
  then show ?case using list_turn_rest(1) [of rx st rest] by (fastforce simp: turn_rest_def)
qed (auto dest: list_turn_rest(1) simp: turn_rest_def)

lemma list_loop_ends: "ends (list_loop rest rx st)"
proof (induction "length rest" arbitrary: rest st rule: less_induct)
  case less
  show ?case
  proof (cases "rest = []")
    case True
    then show ?thesis by (subst list_loop.simps) simp
  next
    case False
    show ?thesis
    proof (cases "list_turn_of rx st rest")
      case (Inl e)
      with False show ?thesis by (subst list_loop.simps) simp
    next
      case (Inr turn)
      note short = list_turn_rest [OF Inr False]
      show ?thesis
      proof (cases turn)
        case (Stop st1 ts1)
        with False Inr show ?thesis by (subst list_loop.simps) simp
      next
        case (Go_on st1 ts1)
        with less.hyps [OF short(2) [OF Go_on]] False Inr show ?thesis by (subst list_loop.simps) simp
      next
        case (Sublist st1 ts1)
        have ts1: "length (tl ts1) < length rest"
          using short(1) short(3) [OF Sublist] Sublist by (cases ts1) (auto simp: turn_rest_def)
        have "ends (list_loop (snd (list_end ts1 r)) rx (add_sub [p] st1))"
          if r: "list_loop (tl ts1) rx sub = ret r" and p: "fst (list_end ts1 r) = Some p" for sub r p
        proof -
          have "snd (list_end ts1 r) = snd r"
            using p list_end_rest [of ts1 r p "snd (list_end ts1 r)"] by (metis prod.collapse)
          moreover have "length (snd r) \<le> length (tl ts1)" using list_loop_rest [of "tl ts1" rx sub "fst r" "snd r"] r by simp
          ultimately show ?thesis using less.hyps ts1 by simp
        qed
        with less.hyps [OF ts1] False Inr Sublist show ?thesis
          by (subst list_loop.simps) (auto split: option.split)
      qed
    qed
  qed
qed

section \<open>Blocks in blocks\<close>

text \<open>
  A container that is made of lines is searched for blocks again: its texts are shorter than the lines.
\<close>

function tok_weight :: "Token \<Rightarrow> nat" where
  "tok_weight t =
     Suc (case subTokens t of
        Some ts \<Rightarrow> sum_list (map tok_weight ts)
      | None \<Rightarrow> (case Token_text t of None \<Rightarrow> 0 | Some s \<Rightarrow> length s))"
  by pat_completeness auto
termination
  by (relation "measure size") (auto simp: subTokens_smaller)

declare tok_weight.simps [simp del]

abbreviation tok_weights :: "Token list \<Rightarrow> nat" where
  "tok_weights ts \<equiv> sum_list (map tok_weight ts)"

lemma tok_weight_text: "Token_text t = Some s \<Longrightarrow> tok_weight t = Suc (length s)"
  by (subst tok_weight.simps) (cases t; auto simp: Token_text_def)

lemma tok_weight_sub: "subTokens t = Some ts \<Longrightarrow> tok_weight t = Suc (tok_weights ts)"
  by (simp add: tok_weight.simps [of t])

lemma tok_weight_pos: "0 < tok_weight t"
  by (subst tok_weight.simps) simp

lemma tok_weight_simps [simp]:
  "tok_weight (RawText s b) = Suc (length s)" "tok_weight (BlankLine s) = Suc (length s)"
  "tok_weight (CodeBlock s) = Suc (length s)" "tok_weight (ListItem ts b) = Suc (tok_weights ts)"
  by (simp_all add: tok_weight_text Token_text_def tok_weight_sub)

lemma tok_weights_tl: "ts \<noteq> [] \<Longrightarrow> tok_weights (tl ts) < tok_weights ts"
  by (cases ts) (auto simp: tok_weight_pos)

lemma tok_weights_tl_le: "tok_weights (tl ts) \<le> tok_weights ts"
  by (cases ts) auto

definition list_weight :: "ListState \<Rightarrow> nat" where
  "list_weight st = tok_weights (listTokens st) +
     (if subItemTokens st = [] then 0 else Suc (tok_weights (subItemTokens st)))"

definition list_ok :: "regex \<Rightarrow> ListState \<Rightarrow> bool" where
  "list_ok rx st \<longleftrightarrow> subItemTokens st \<noteq> [] \<and> shrinks rx (nextItemExpression st) 1 2"

lemma shrinksD: "shrinks rx e i d \<Longrightarrow> rx_match rx e s = Some m \<Longrightarrow> length (cap m i) + d \<le> length s"
  by (simp add: shrinks_def)

lemma list_weight_simps [simp]:
  "list_weight (end_item st) = list_weight st"
  "list_weight (count_item st) = list_weight st" "list_weight (paragraph_mode st) = list_weight st"
  "list_weight (next_item s st) = list_weight st + length s + 2"
  "subItemTokens st \<noteq> [] \<Longrightarrow> list_weight (add_sub ts st) = list_weight st + tok_weights ts"
  by (simp_all add: list_weight_def end_item_def count_item_def paragraph_mode_def next_item_def add_sub_def Let_def)

lemma list_ok_simps [simp]:
  "list_ok rx (count_item st) = list_ok rx st" "list_ok rx (paragraph_mode st) = list_ok rx st"
  "list_ok rx st \<Longrightarrow> list_ok rx (next_item s st)" "list_ok rx st \<Longrightarrow> list_ok rx (add_sub ts st)"
  by (simp_all add: list_ok_def end_item_def count_item_def paragraph_mode_def next_item_def add_sub_def Let_def)

lemma text_of_weight: "text_of t = Inr s \<Longrightarrow> tok_weight t = Suc (length s)"
  by (auto simp: text_of_def tok_weight_text split: option.splits)

lemma bind_SomeD: "Option.bind (Token_text t) f = Some m \<Longrightarrow> \<exists>s. Token_text t = Some s \<and> f s = Some m"
  by (simp add: bind_eq_Some_conv)

lemma item_code_lines_weight:
  "item_code_lines rx code ts = Inr (s, rest) \<Longrightarrow> shrinks rx code 1 1 \<Longrightarrow>
   length s + tok_weights rest \<le> tok_weights ts"
proof (induction rx code ts arbitrary: s rule: item_code_lines.induct)
  case (2 rx code t)
  then show ?case
    by (force split: if_split_asm option.splits dest!: bind_SomeD dest: shrinksD simp: tok_weight_text)
next
  case (3 rx code t u ts)
  show ?case
  proof (cases "Token_isBlankLine t")
    case True
    with "3.prems" obtain line where u: "text_of u = Inr line"
      by (cases "text_of u") (auto simp: outcome_bind_def)
    show ?thesis
    proof (cases "rx_match rx code line")
      case None
      with "3.prems" True u show ?thesis by simp
    next
      case (Some m)
      then obtain s1 where r: "item_code_lines rx code ts = Inr (s1, rest)" and s: "s = [LF] @ cap m 1 @ [LF] @ s1"
        using "3.prems" True u by (cases "item_code_lines rx code ts") auto
      have "length (cap m 1) < length line" using shrinksD [OF "3.prems"(2) Some] by simp
      with "3.IH"(1) [OF True Some r "3.prems"(2)] text_of_weight [OF u] s tok_weight_pos [of t]
      show ?thesis by simp
    qed
  next
    case False
    show ?thesis
    proof (cases "Option.bind (Token_text t) (rx_match rx code)")
      case None
      with "3.prems" False show ?thesis by simp
    next
      case (Some m)
      then obtain line where line: "Token_text t = Some line" "rx_match rx code line = Some m"
        by (auto dest: bind_SomeD)
      obtain s1 where r: "item_code_lines rx code (u # ts) = Inr (s1, rest)" and s: "s = cap m 1 @ [LF] @ s1"
        using "3.prems" False Some by (cases "item_code_lines rx code (u # ts)") auto
      have "length (cap m 1) < length line" using shrinksD [OF "3.prems"(2) line(2)] by simp
      with "3.IH"(2) [OF False Some r "3.prems"(2)] tok_weight_text [OF line(1)] s show ?thesis by simp
    qed
  qed
qed simp

text \<open>The turns of a list's loop, and what it starts from, take their text from the lines they use.\<close>

lemma match_ok_facts:
  assumes "match_ok rx"
  shows "shrinks rx e i 0" "shrinks rx cBlockQuoteExpression 2 1" "shrinks rx cUnorderedListExpression 3 2"
    "shrinks rx cOrderedListExpression 3 2"
    "rx_match rx cUnorderedListExpression s = Some m \<Longrightarrow> cap m 2 \<in> {''*'', ''+'', ''-''}"
    "c \<in> {''*'', ''+'', ''-''} \<Longrightarrow> shrinks rx (next_unordered n c) 1 2"
    "shrinks rx (next_ordered n) 1 2" "shrinks rx (codeBlockAfterBlankLineExpression st) 1 1"
  using assms unfolding match_ok_def by blast+

lemma match_okD:
  assumes "match_ok rx" "rx_match rx e s = Some m"
  shows "length (cap m i) \<le> length s"
  using shrinksD [OF match_ok_facts(1) [OF assms(1)] assms(2), of i] by simp

lemma list_start_ok:
  assumes "match_ok rx" "list_start rx sub t = Some st"
  shows "list_ok rx st \<and> list_weight st < tok_weight t"
proof -
  obtain line where line: "markup_line t = Some line"
    using assms(2) by (auto simp: list_start_def split: option.splits)
  then have w: "tok_weight t = Suc (length line)"
    by (auto simp: markup_line_def tok_weight_text split: if_split_asm)
  consider m where "rx_match rx cUnorderedListExpression line = Some m"
      "st = new_ListState False (length (cap m 1)) (next_unordered (length (cap m 1)) (take 1 (cap m 2))) (cap m 3)"
    | m where "rx_match rx cOrderedListExpression line = Some m"
      "st = new_ListState True (length (cap m 1)) (next_ordered (length (cap m 1))) (cap m 3)"
    using assms(2) line by (auto simp: list_start_def Let_def split: option.splits if_split_asm)
  then show ?thesis
  proof cases
    case 1
    have m: "length (cap m 3) + 2 \<le> length line" by (rule shrinksD [OF match_ok_facts(3) [OF assms(1)] 1(1)])
    have "take 1 (cap m 2) \<in> {''*'', ''+'', ''-''}" using match_ok_facts(5) [OF assms(1) 1(1)] by auto
    from match_ok_facts(6) [OF assms(1) this] 1(2) have "shrinks rx (nextItemExpression st) 1 2"
      by (simp add: new_ListState_def)
    with m 1(2) w show ?thesis by (simp add: list_ok_def list_weight_def new_ListState_def)
  next
    case 2
    have "length (cap m 3) + 2 \<le> length line" by (rule shrinksD [OF match_ok_facts(4) [OF assms(1)] 2(1)])
    moreover have "shrinks rx (nextItemExpression st) 1 2"
      using match_ok_facts(7) [OF assms(1)] 2(2) by (simp add: new_ListState_def)
    ultimately show ?thesis using 2(2) w by (simp add: list_ok_def list_weight_def new_ListState_def)
  qed
qed

definition turn_ok :: "regex \<Rightarrow> ListState \<Rightarrow> Token list \<Rightarrow> list_turn \<Rightarrow> bool" where
  "turn_ok rx st rest turn \<longleftrightarrow>
     (case turn of
        Stop st' ts \<Rightarrow> list_weight st' + tok_weights ts \<le> list_weight st + tok_weights rest
      | Go_on st' ts \<Rightarrow> list_ok rx st' \<and> list_weight st' + tok_weights ts \<le> list_weight st + tok_weights rest
      | Sublist st' ts \<Rightarrow> list_ok rx st' \<and> list_weight st' + tok_weights ts \<le> list_weight st + tok_weights rest)"

lemma next_item_shrinks:
  "list_ok rx st \<Longrightarrow> rx_match rx (nextItemExpression st) line = Some m \<Longrightarrow> length (cap m 1) + 2 \<le> length line"
  using shrinksD [of rx "nextItemExpression st" 1 2 line m] by (simp add: list_ok_def)

lemma blank_turn_ok:
  assumes "match_ok rx" "list_ok rx st" "blank_turn rx st rest = Inr turn"
  shows "turn_ok rx st rest turn"
proof (cases "\<exists>t u ts line. rest = t # u # ts \<and> Token_text u = Some line")
  case False
  with assms(3) show ?thesis
    by (auto simp: blank_turn_def turn_ok_def split: list.splits option.splits)
next
  case True
  then obtain t u ts line where rest: "rest = t # u # ts" and u: "Token_text u = Some line" by blast
  note wu = tok_weight_text [OF u]
  have nonempty: "subItemTokens st \<noteq> []" using assms(2) by (simp add: list_ok_def)
  consider "turn = Sublist (count_item (paragraph_mode st)) (u # ts)"
    | m where "rx_match rx (nextItemExpression st) line = Some m" "turn = Go_on (next_item (cap m 1) (paragraph_mode st)) ts"
    | m where "rx_match rx (continuedAfterBlankLineExpression st) line = Some m"
      "turn = Go_on (add_sub [BlankLine [], RawText (cap m 1) True] st) ts"
    | m s ts' where "rx_match rx (codeBlockAfterBlankLineExpression st) line = Some m"
      "item_code_lines rx (codeBlockAfterBlankLineExpression st) ts = Inr (s, ts')"
      "turn = Go_on (add_sub [BlankLine [], CodeBlock (cap m 1 @ [LF] @ s)] (count_item (paragraph_mode st))) ts'"
    | "turn = Stop (end_item st) rest"
    using assms(3) rest u
    by (auto simp: blank_turn_def outcome_bind_def split: option.splits if_split_asm sum.splits)
  then show ?thesis
  proof cases
    case 1
    with assms(2) rest show ?thesis by (simp add: turn_ok_def)
  next
    case 2
    with assms(2) rest wu next_item_shrinks [OF assms(2) 2(1)] show ?thesis by (simp add: turn_ok_def)
  next
    case 3
    with assms(2) rest wu match_okD [OF assms(1) 3(1), of 1] nonempty tok_weight_pos [of t] show ?thesis
      by (simp add: turn_ok_def)
  next
    case 4
    note code = match_ok_facts(8) [OF assms(1)]
    from item_code_lines_weight [OF 4(2) code] shrinksD [OF code 4(1)] assms(2) 4(3) rest wu nonempty
    show ?thesis using tok_weight_pos [of t] by (simp add: turn_ok_def count_item_def paragraph_mode_def
        list_weight_def add_sub_def list_ok_def)
  next
    case 5
    then show ?thesis by (simp add: turn_ok_def)
  qed
qed

lemma text_turn_ok:
  assumes "match_ok rx" "list_ok rx st" "text_turn rx st line rest = Inr turn" "rest \<noteq> []"
    "Token_text (hd rest) = Some line"
  shows "turn_ok rx st rest turn"
proof -
  obtain t ts where rest: "rest = t # ts" using assms(4) by (cases rest) auto
  have wt: "tok_weight t = Suc (length line)" using assms(5) rest tok_weight_text by simp
  have nonempty: "subItemTokens st \<noteq> []" using assms(2) by (simp add: list_ok_def)
  consider "turn = Sublist (count_item st) rest"
    | m where "rx_match rx (nextItemExpression st) line = Some m" "turn = Go_on (next_item (cap m 1) st) ts"
    | "turn = Stop (end_item st) rest"
    | m where "rx_match rx cContinuedItemExpression line = Some m" "turn = Go_on (add_sub [RawText (cap m 1) True] st) ts"
    using assms(3) rest by (auto simp: text_turn_def split: option.splits if_split_asm)
  then show ?thesis
  proof cases
    case 1
    with assms(2) show ?thesis by (simp add: turn_ok_def)
  next
    case 2
    with assms(2) rest wt next_item_shrinks [OF assms(2) 2(1)] show ?thesis by (simp add: turn_ok_def)
  next
    case 3
    then show ?thesis by (simp add: turn_ok_def)
  next
    case 4
    with assms(2) rest wt nonempty match_okD [OF assms(1) 4(1), of 1] show ?thesis by (simp add: turn_ok_def)
  qed
qed

lemma list_turn_ok:
  assumes "match_ok rx" "list_ok rx st" "list_turn_of rx st rest = Inr turn" "rest \<noteq> []"
  shows "turn_ok rx st rest turn"
  using assms blank_turn_ok [OF assms(1,2)] text_turn_ok [OF assms(1,2)]
  by (auto simp: list_turn_of_def turn_ok_def split: if_split_asm option.splits)

lemma allow_paragraphs_weight [simp]: "tok_weight (allow_paragraphs t) = tok_weight t"
  by (cases t) simp_all

lemma new_list_weight:
  "subItemTokens st = [] \<Longrightarrow> subTokens (new_list st) = Some us \<Longrightarrow> tok_weights us = list_weight st"
  by (auto simp: new_list_def Let_def list_weight_def comp_def split: if_split_asm)

lemma subTokens_new_list: "\<exists>us. subTokens (new_list st) = Some us"
  by (simp add: new_list_def Let_def)

lemma list_end_weight:
  assumes "list_end ts (st, rest) = (Some p, rest')"
  shows "\<exists>us. subTokens p = Some us \<and> tok_weights us = list_weight st"
proof -
  have p: "p = new_list (end_item st)"
    using assms by (auto simp: list_end_def Let_def split: if_split_asm)
  obtain us where us: "subTokens p = Some us" using subTokens_new_list p by blast
  have "subItemTokens (end_item st) = []" by (simp add: end_item_def)
  from new_list_weight [OF this us [unfolded p]] us show ?thesis by auto
qed

lemma list_loop_weight:
  assumes "list_loop rest rx st = ret (st', ts)" "match_ok rx" "list_ok rx st"
  shows "list_weight st' + tok_weights ts \<le> list_weight st + tok_weights rest"
  using assms(1,3)
proof (induction rule: list_loop_induct)
  case (stop rest st st' ts)
  from list_turn_ok [OF assms(2) stop(3,2,1)] show ?case by (simp add: turn_ok_def)
next
  case (go rest st st1 ts1 st' ts)
  from list_turn_ok [OF assms(2) go(4,2,1)] go(3) show ?case by (simp add: turn_ok_def)
next
  case (sub rest st st1 ts1 sub st2 ts2 p st' ts)
  from list_turn_ok [OF assms(2) sub(7,2,1)]
  have st1: "list_ok rx st1" "list_weight st1 + tok_weights ts1 \<le> list_weight st + tok_weights rest"
    by (simp_all add: turn_ok_def)
  have ts1: "ts1 \<noteq> []" using list_turn_rest(3) [OF sub(2,1)] by blast
  from list_start_ok [OF assms(2) sub(3)]
  have start: "list_ok rx sub" "list_weight sub < tok_weight (hd ts1)" by blast+
  obtain us where "subTokens p = Some us" "tok_weights us = list_weight st2"
    using list_end_weight [OF sub(4)] by blast
  then have p: "tok_weight p = Suc (list_weight st2)" by (simp add: tok_weight_sub)
  have "list_weight (add_sub [p] st1) = list_weight st1 + tok_weight p"
    using st1(1) by (simp add: list_ok_def)
  moreover have "tok_weights ts1 = tok_weight (hd ts1) + tok_weights (tl ts1)" using ts1 by (cases ts1) simp_all
  ultimately show ?case using sub(5) [OF start(1)] start(2) sub(6) [OF list_ok_simps(4) [OF st1(1)]] st1(2) p
    by simp
qed simp

lemma parseListBlock_weight:
  assumes "parseListBlock rx sub ts = ret (Some p, rest)" "match_ok rx" "ts \<noteq> []"
  shows "\<exists>us. subTokens p = Some us \<and> tok_weights us + tok_weights rest < tok_weights ts"
proof -
  obtain st st2 ts2 where l: "list_start rx sub (hd ts) = Some st" "list_loop (tl ts) rx st = ret (st2, ts2)"
    and e: "list_end ts (st2, ts2) = (Some p, rest)"
    using assms(1) by (auto simp: parseListBlock_def run_bind_eq_ret split: option.splits)
  from list_start_ok [OF assms(2) l(1)] have "list_ok rx st" "list_weight st < tok_weight (hd ts)" by blast+
  moreover from list_loop_weight [OF l(2) assms(2) this(1)]
  have "list_weight st2 + tok_weights ts2 \<le> list_weight st + tok_weights (tl ts)" .
  moreover have "rest = ts2" using list_end_rest [OF e] by simp
  moreover have "tok_weights ts = tok_weight (hd ts) + tok_weights (tl ts)" using assms(3) by (cases ts) simp_all
  ultimately show ?thesis using list_end_weight [OF e] by fastforce
qed

lemma quote_match_weight:
  assumes "match_ok rx" "quote_match rx e t = Inr (Some m)"
  shows "Suc (length (cap m 2)) \<le> tok_weight t"
proof -
  obtain s where s: "text_of t = Inr s" "rx_match rx e s = Some m"
    using assms(2) by (cases "text_of t") (auto simp: quote_match_def)
  show ?thesis using text_of_weight [OF s(1)] match_okD [OF assms(1) s(2), of 2] by simp
qed

lemma quote_token_weight [simp]: "tok_weight (quote_token rx s) = Suc (length s)"
  by (simp add: quote_token_def)

lemma quote_lines_weight:
  "quote_lines rx e ts = ret (sub, rest) \<Longrightarrow> match_ok rx \<Longrightarrow> tok_weights sub + tok_weights rest \<le> tok_weights ts"
proof (induction ts arbitrary: sub rule: length_induct)
  case (1 ts)
  note IH = "1"(1) [rule_format, OF _ _ "1"(3)]
  show ?case
  proof (cases ts)
    case Nil
    with 1 show ?thesis by simp
  next
    case (Cons t ts')
    show ?thesis
    proof (cases "Token_isBlankLine t")
      case True
      show ?thesis
      proof (cases ts')
        case Nil
        with 1 Cons True show ?thesis by simp
      next
        case (Cons u us)
        with "1"(2) \<open>ts = t # ts'\<close> True consider "sub = []" "rest = ts"
          | m sub' where "quote_match rx e u = Inr (Some m)" "quote_lines rx e us = ret (sub', rest)"
            "sub = BlankLine [] # RawText (cap m 2) True # sub'"
          by (cases "quote_match rx e u") (auto simp: run_bind_eq_ret split: option.splits if_split_asm)
        then show ?thesis
        proof cases
          case 2
          have "Suc (length (cap m 2)) \<le> tok_weight u" by (rule quote_match_weight [OF "1"(3) 2(1)])
          with IH [OF _ 2(2)] 2(3) tok_weight_pos [of t] \<open>ts = t # ts'\<close> Cons show ?thesis by simp
        qed simp
      qed
    next
      case False
      with "1"(2) Cons consider "sub = []" "rest = ts"
        | m sub' where "quote_match rx e t = Inr (Some m)" "quote_lines rx e ts' = ret (sub', rest)"
          "sub = quote_token rx (cap m 2) # sub'"
        by (cases "quote_match rx e t") (auto simp: run_bind_eq_ret split: option.splits if_split_asm)
      then show ?thesis
      proof cases
        case 2
        have "Suc (length (cap m 2)) \<le> tok_weight t" by (rule quote_match_weight [OF "1"(3) 2(1)])
        with IH [OF _ 2(2)] 2(3) Cons show ?thesis by simp
      qed simp
    qed
  qed
qed

lemma quote_lines_ends: "ends (quote_lines rx e ts)"
proof (induction ts rule: length_induct)
  case (1 ts)
  then have IH: "length us < length ts \<Longrightarrow> ends (quote_lines rx e us)" for us by blast
  show ?case
  proof (cases ts)
    case (Cons t ts')
    have "ends (quote_lines rx e ts')" by (rule IH) (simp add: Cons)
    moreover have "ends (quote_lines rx e us)" if "ts' = u # us" for u us by (rule IH) (simp add: Cons that)
    ultimately show ?thesis by (cases ts') (auto simp: Cons split: option.split)
  qed simp
qed

lemma parseBlockQuote_weight:
  assumes "parseBlockQuote rx ts = ret (Some p, rest)" "match_ok rx" "ts \<noteq> []"
  shows "\<exists>us. subTokens p = Some us \<and> tok_weights us + tok_weights rest < tok_weights ts"
proof -
  obtain line m sub where line: "markup_line (hd ts) = Some line" and m: "rx_match rx cBlockQuoteExpression line = Some m"
    and q: "quote_lines rx (quote_continuation (countQuoteLevel (cap m 1))) (tl ts) = ret (sub, rest)"
    and p: "p = BlockQuote (RawText (cap m 2) True # sub)"
    using assms(1) by (auto simp: parseBlockQuote_def run_bind_eq_ret bind_eq_Some_conv split: option.splits)
  have "tok_weight (hd ts) = Suc (length line)"
    using line by (auto simp: markup_line_def tok_weight_text split: if_split_asm)
  moreover have "length (cap m 2) < length line"
    using shrinksD [OF match_ok_facts(2) [OF assms(2)] m] by simp
  moreover have "tok_weights ts = tok_weight (hd ts) + tok_weights (tl ts)" using assms(3) by (cases ts) simp_all
  ultimately show ?thesis using quote_lines_weight [OF q assms(2)] p by simp
qed

lemma isCodeBlockLine_weight: "isCodeBlockLine ts = Some (s, rest) \<Longrightarrow> tok_weights rest < tok_weights ts"
proof (induction ts arbitrary: s)
  case (Cons t ts)
  consider s' where "isCodeBlockLine ts = Some (s', rest)" | "rest = ts"
    using Cons.prems by (auto split: if_split_asm option.splits)
  then show ?case
  proof cases
    case 1
    then show ?thesis using Cons.IH by (simp add: trans_less_add2)
  next
    case 2
    then show ?thesis by (simp add: tok_weight_pos)
  qed
qed simp

lemma code_block_lines_weight: "code_block_lines ts = (out, rest) \<Longrightarrow> tok_weights rest \<le> tok_weights ts"
proof (induction ts arbitrary: out rule: code_block_lines.induct)
  case (1 ts)
  show ?case
  proof (cases "isCodeBlockLine ts")
    case None
    with "1.prems" show ?thesis by (subst (asm) code_block_lines.simps) simp
  next
    case (Some r)
    obtain s ts1 where r: "r = (s, ts1)" by (cases r)
    obtain out1 where "code_block_lines ts1 = (out1, rest)"
      using "1.prems" Some r by (subst (asm) code_block_lines.simps) (auto split: prod.splits)
    from "1.IH" [OF Some r [symmetric] this] isCodeBlockLine_weight [OF Some [unfolded r]] show ?thesis by simp
  qed
qed

lemma parseCodeBlock_weight:
  assumes "parseCodeBlock ts = (Some p, rest)"
  shows "subTokens p = None \<and> tok_weights rest < tok_weights ts"
proof -
  obtain s ts1 where c: "isCodeBlockLine ts = Some (s, ts1)"
    using assms by (auto simp: parseCodeBlock_def split: if_split_asm)
  obtain out where p: "p = CodeBlock out" and l: "code_block_lines ts = (out, rest)"
    using assms by (auto simp: parseCodeBlock_def split: if_split_asm prod.splits)
  obtain out1 where "code_block_lines ts1 = (out1, rest)"
    using l c by (subst (asm) code_block_lines.simps) (auto split: prod.splits)
  from code_block_lines_weight [OF this] isCodeBlockLine_weight [OF c] p show ?thesis by simp
qed

lemma parse_block_weight:
  assumes "parse_block rx ts = ret (Some p, rest)" "match_ok rx" "ts \<noteq> []"
  shows "tok_weights (tl rest) < tok_weights ts"
    "subTokens p = Some us \<Longrightarrow> tok_weights us + tok_weights (tl rest) < tok_weights ts"
proof -
  have "tok_weights (tl rest) < tok_weights ts \<and>
      (subTokens p = Some us \<longrightarrow> tok_weights us + tok_weights (tl rest) < tok_weights ts)"
  proof (cases "fst (parseHeader rx ts)")
    case (Some h)
    then have "p = h" "rest = snd (parseHeader rx ts)"
      using assms(1) by (auto simp: parse_block_def split: prod.splits option.splits)
    moreover have "subTokens h = None" "snd (parseHeader rx ts) = ts \<or> snd (parseHeader rx ts) = tl ts"
      using Some by (auto simp: parseHeader_def split: option.splits list.splits)
    ultimately show ?thesis
      using tok_weights_tl [OF assms(3)] tok_weights_tl_le [of "tl ts"] by auto
  next
    case header: None
    show ?thesis
    proof (cases "parseHorizontalRule rx ts")
      case (Some h)
      then have "p = h" "rest = ts" using header assms(1) by (auto simp: parse_block_def split: prod.splits)
      moreover have "subTokens h = None" using Some by (auto simp: parseHorizontalRule_def split: option.splits if_split_asm)
      ultimately show ?thesis using tok_weights_tl [OF assms(3)] by auto
    next
      case None
      with header assms(1) consider "parseListBlock rx False ts = ret (Some p, rest)"
        | "parseBlockQuote rx ts = ret (Some p, rest)" | "parseCodeBlock ts = (Some p, rest)"
        by (fastforce simp: parse_block_def run_bind_eq_ret split: prod.splits if_split_asm)
      then show ?thesis
      proof cases
        case 1
        from parseListBlock_weight [OF 1 assms(2,3)] tok_weights_tl_le [of rest] show ?thesis by fastforce
      next
        case 2
        from parseBlockQuote_weight [OF 2 assms(2,3)] tok_weights_tl_le [of rest] show ?thesis by fastforce
      next
        case 3
        from parseCodeBlock_weight [OF 3] tok_weights_tl_le [of rest] show ?thesis by simp
      qed
    qed
  qed
  then show "tok_weights (tl rest) < tok_weights ts"
    "subTokens p = Some us \<Longrightarrow> tok_weights us + tok_weights (tl rest) < tok_weights ts" by blast+
qed

lemma parse_block_ends: "ends (parse_block rx ts)"
  by (auto simp: parse_block_def parseListBlock_def parseBlockQuote_def list_loop_ends quote_lines_ends
      split: prod.split option.split)

lemma blocks_loop_ends:
  assumes "match_ok rx"
  shows "ends (blocks_loop ts rx processed)"
proof (induction "tok_weights ts" arbitrary: ts processed rule: less_induct)
  case less
  show ?case
  proof (cases ts)
    case Nil
    then show ?thesis by (subst blocks_loop.simps) simp
  next
    case (Cons t ts')
    then have ts: "ts \<noteq> []" by simp
    have tail: "ends (blocks_loop ts' rx p)" for p
      by (rule less) (use Cons tok_weight_pos [of t] in simp)
    show ?thesis
    proof (cases "Token_text t = None")
      case False
      have "ends (blocks_loop (tl rest) rx q)" "subTokens p = Some us \<Longrightarrow> ends (blocks_loop us rx [])"
        if "parse_block rx ts = ret (Some p, rest)" for p rest q us
        by (rule less; use parse_block_weight [OF that assms ts] in force)+
      with False Cons parse_block_ends [of rx ts] tail show ?thesis
        by (subst blocks_loop.simps) (auto split: option.split)
    next
      case True
      have "ends (blocks_loop us rx [])" if "subTokens t = Some us" for us
        by (rule less) (use tok_weight_sub [OF that] Cons in simp)
      with True Cons tail show ?thesis
        by (subst blocks_loop.simps) (auto simp: isContainer_def)
    qed
  qed
qed

section \<open>The document\<close>

theorem Document_write_ends:
  assumes ok: "regex_ok rx"
    and no: "\<And>ts ids t s. document_tree rx doc = ret (ts, ids) \<Longrightarrow> t \<in> set ts \<Longrightarrow> s \<in> set (span_texts t) \<Longrightarrow>
      \<not> spans_clash rx ids s"
  shows "ends (Document_write rx doc)"
proof -
  have "match_ok rx" using ok by (simp add: regex_ok_def)
  then have tree: "ends (document_tree rx doc)"
    by (auto simp: document_tree_def inline_loop_ends [OF ok] blocks_loop_ends split: prod.split)
  have "ends (span_tokens rx ids ts)" if "document_tree rx doc = ret (ts, ids)" for ts ids
    unfolding span_tokens_def ends_bind
    using processSpanElements_ends [OF ok] no [OF that] by (auto intro!: ends_run_map)
  with tree show ?thesis by (auto simp: Document_write_def Document_process_def split: prod.split)
qed

end
