(* ===== verification/Server_Liveness.thy ===== *)
theory Server_Liveness
  imports Server_Loop Markdown_Correct Markdown_Termination
begin

text \<open>
  When the callbacks of the server return: a handler of every class but \<open>HoldingHandler\<close> does, if the
  peers of the proxy stop redirecting and no Markdown file has clashing runs of emphasis markers.
\<close>

section \<open>The Markdown converter\<close>

definition clash_free :: "regex \<Rightarrow> string \<Rightarrow> bool" where
  "clash_free rx contents \<longleftrightarrow>
     (\<forall>ts ids t s. document_tree rx (read_document rx contents) = ret (ts, ids) \<longrightarrow> t \<in> set ts \<longrightarrow>
       s \<in> set (span_texts t) \<longrightarrow> \<not> spans_clash rx ids s)"

lemma markdown_html_ends:
  assumes "regex_ok rx" "clash_free rx contents"
  shows "ends (markdown_html rx contents)"
proof -
  have "ends (Document_write rx (read_document rx contents))"
    by (rule Document_write_ends [OF assms(1)]) (use assms(2) in \<open>auto simp: clash_free_def\<close>)
  then show ?thesis by (auto simp: markdown_html_read split: prod.split)
qed

section \<open>The handlers\<close>

definition files_end :: "environment \<Rightarrow> bool" where
  "files_end e \<longleftrightarrow> regex_ok (regex_engine e) \<and>
     (\<forall>p c. fs_open e p = Some c \<longrightarrow> fs_extension e p = ''.md'' \<longrightarrow> clash_free (regex_engine e) c)"

lemma find_file_open: "find_file e d p = Inr (Some (a, c)) \<Longrightarrow> fs_open e a = Some c"
  by (simp add: find_file_Some)

lemma StaticHandler_ends:
  assumes "files_end e"
  shows "ends (StaticHandler_HandleRequest e h q (Some r))"
proof -
  have "ends (serve_file e a c r)"
    if "find_file e (root h) (root h @ drop (length (static_uri_prefix h)) (uri q)) = Inr (Some (a, c))" for a c
    using assms find_file_open [OF that] markdown_html_ends by (auto simp: serve_file_def files_end_def Let_def)
  then show ?thesis
    by (auto simp: StaticHandler_HandleRequest_def Let_def NotFoundHandler_HandleRequest_def
        split: sum.split option.split)
qed

text \<open>The connections made for one request are counted; at some count no answer is a redirect.\<close>

definition redirects_end :: "environment \<Rightarrow> bool" where
  "redirects_end e \<longleftrightarrow> (\<exists>k. \<forall>h q p r h'. proxy_turn e k h q p \<noteq> Inr (None, r, h'))"

lemma proxy_loop_ends:
  assumes "\<And>h q p r h'. proxy_turn e (n + d) h q p \<noteq> Inr (None, r, h')"
  shows "ends (proxy_loop e n h q p)"
  using assms
proof (induction d arbitrary: n h p)
  case 0
  then show ?case by (subst proxy_loop.simps) (auto split: sum.split option.split)
next
  case (Suc d)
  have "ends (proxy_loop e (Suc n) h' q p')" for h' p'
    by (rule Suc.IH) (use Suc.prems in simp)
  then show ?case by (subst proxy_loop.simps) (auto split: sum.split option.split)
qed

lemma ProxyHandler_ends: "redirects_end e \<Longrightarrow> ends (ProxyHandler_HandleRequest e h q p)"
  unfolding redirects_end_def ProxyHandler_HandleRequest_def using proxy_loop_ends [of e 0] by auto

lemma ends_lift [simp]: "ends (lift_handle wrap res) \<longleftrightarrow> ends res" "ends (map_option f m) \<longleftrightarrow> ends m"
  by (auto simp: lift_handle_def ends_def)

lemma HandleRequest_ends:
  assumes "class_of h \<noteq> HoldingHandler" "files_end e" "redirects_end e"
  shows "ends (HandleRequest e h q (Some r))"
  using assms StaticHandler_ends ProxyHandler_ends
  by (cases h) (simp_all add: EchoHandler_HandleRequest_def NotFoundHandler_HandleRequest_def
      StatusHandler_HandleRequest_def S3Handler_HandleRequest_def)

section \<open>The callbacks\<close>

text \<open>The status of the server that the handlers see has no part in it.\<close>

lemma proxy_turn_with_status: "proxy_turn (with_status a st e) n h q p = proxy_turn e n h q p"
  by (simp add: proxy_turn_def with_status_def)

lemma with_status_ends [simp]:
  "files_end (with_status a st e) = files_end e" "redirects_end (with_status a st e) = redirects_end e"
  by (simp_all add: files_end_def redirects_end_def proxy_turn_with_status) (simp_all add: with_status_def)

definition no_holding :: "Server \<Rightarrow> bool" where
  "no_holding srv \<longleftrightarrow> (\<forall>k h. map_find (server_handlers srv) k = Some h \<longrightarrow> class_of h \<noteq> HoldingHandler)"

lemma no_holding_routes:
  assumes "no_holding srv" "same_routes srv srv'"
  shows "no_holding srv'"
  unfolding no_holding_def
proof (intro allI impI)
  fix k h assume "map_find (server_handlers srv') k = Some h"
  then obtain g where "map_find (server_handlers srv) k = Some g" "class_of g = class_of h"
    using assms(2) [unfolded same_routes_def, rule_format, of k] by auto
  with assms(1) show "class_of h \<noteq> HoldingHandler" by (auto simp: no_holding_def)
qed

lemma serve_ends:
  assumes "no_holding srv" "files_end e" "redirects_end e"
  shows "ends (serve e a srv q)"
proof (cases "outcome_bind (referer_prefix (request_headers q) (uri q)) (choose_handler (server_handlers srv))")
  case (Inl ft)
  show ?thesis unfolding serve_def Inl by simp
next
  case (Inr kh)
  obtain k h where kh: "kh = (k, h)" by (cases kh)
  with Inr obtain u where "choose_handler (server_handlers srv) u = Inr (k, h)"
    by (auto simp: outcome_bind_def split: sum.splits)
  then have "class_of h \<noteq> HoldingHandler"
    using assms(1) choose_handler_find unfolding no_holding_def by blast
  then show ?thesis unfolding serve_def Inr kh using assms(2,3) by (simp add: HandleRequest_ends)
qed

lemma handle_read_ends:
  assumes "no_holding srv" "files_end e" "redirects_end e"
  shows "ends (handle_read e a srv error buf n)"
  using serve_ends [OF assms] by (auto simp: handle_read_def split: sum.split)

lemma complete_read_ends:
  assumes "reachable e a srv (Running s)" "server_inv srv" "no_holding srv" "files_end e" "redirects_end e"
  shows "\<exists>p. complete_read e a c error buf n s = Some p"
proof -
  have "same_routes srv (server s)" using reachable_inv [OF assms(1,2)] by (simp add: loop_inv_def)
  then have "ends (handle_read e a (server s) error buf n)"
    using handle_read_ends [OF no_holding_routes [OF assms(3)] assms(4,5)] by blast
  then show ?thesis by (auto simp: complete_read_def ends_def)
qed

end
