(* ===== verification/Server_Threads.thy ===== *)
theory Server_Threads
  imports Server_Liveness
begin

text \<open>
  The five threads of \<open>Server::run\<close>. All of them run the \<open>io_service\<close>, so callbacks of
  different connections overlap. A callback of a read is cut where other threads can get in between:
  it begins, it has chosen the handler, called it and handed the text of the response to
  \<open>async_write\<close>, it has read the counters, it has written them and returns.

  No lock guards what the callbacks share. Two accesses that come next, of which one writes, are a data
  race, undefined behaviour. A run that goes on after one goes on with one of the outcomes it can have;
  a count that another thread overwrites is lost. The string that \<open>ToString\<close> returns is an
  object of its own, which is destroyed when \<open>do_write\<close> returns; a write that goes on after that
  reads it again. What is undefined behaviour is a step of a relation of its own, \<open>goes_wrong\<close>.
\<close>

section \<open>A read, in two parts\<close>

text \<open>The request that was read, and the entry of the table that it goes to.\<close>

definition route :: "nat \<Rightarrow> Server \<Rightarrow> string \<Rightarrow> nat \<Rightarrow> (Request \<times> string \<times> handler) outcome" where
  "route a srv buffer n =
     outcome_bind (Request_Parse_status (take n buffer) (Some a)) (\<lambda>request.
       outcome_bind (outcome_bind (referer_prefix (request_headers request) (uri request))
           (choose_handler (server_handlers srv)))
         (\<lambda>(key, h). Inr (request, key, h)))"

text \<open>\<open>handle_read\<close> up to \<open>do_write(response)\<close>, and what follows it.\<close>

definition respond ::
  "environment \<Rightarrow> nat \<Rightarrow> Server \<Rightarrow> string \<Rightarrow> nat \<Rightarrow> (string \<times> Response \<times> Server) outcome option" where
  "respond e a srv buffer n =
     (case route a srv buffer n of
        Inl ft \<Rightarrow> Some (Inl ft)
      | Inr (request, key, h) \<Rightarrow>
          map_option (\<lambda>out. outcome_bind out (\<lambda>(_, p, h').
              on_response p (\<lambda>response.
                Inr (uri request, response,
                     srv\<lparr>server_handlers := map_put key h' (server_handlers srv)\<rparr>))))
            (HandleRequest (with_status a (server_status_object srv) e) h request (Some new_Response)))"

definition count_response :: "string \<Rightarrow> Response \<Rightarrow> Server \<Rightarrow> Server outcome" where
  "count_response u response srv =
     outcome_bind (GetResponseCode response) (\<lambda>code.
       Inr (srv\<lparr>server_status_object := UpdateStatus u code (server_status_object srv)\<rparr>))"

text \<open>The two parts are the whole callback.\<close>

lemma handle_read_parts:
  "handle_read e a srv False buf n =
     map_option (\<lambda>out. outcome_bind out (\<lambda>(u, r, srv').
         outcome_bind (count_response u r srv') (\<lambda>srv''. Inr (True, Some (Response_ToString r), srv''))))
       (respond e a srv buf n)"
proof (cases "route a srv buf n")
  case (Inl ft)
  then show ?thesis
    unfolding handle_read_def respond_def route_def serve_def
    by (auto simp: outcome_bind_def split: sum.splits)
next
  case (Inr t)
  obtain q k h where t: "t = (q, k, h)" by (cases t)
  from Inr have p: "Request_Parse_status (take n buf) (Some a) = Inr q"
    and c: "outcome_bind (referer_prefix (request_headers q) (uri q)) (choose_handler (server_handlers srv)) = Inr (k, h)"
    unfolding route_def t by (auto simp: outcome_bind_def split: sum.splits)
  have s: "serve e a srv q = map_option (\<lambda>out. outcome_bind out (\<lambda>(_, p, h').
        on_response p (\<lambda>response. outcome_bind (GetResponseCode response) (\<lambda>code.
          Inr (Response_ToString response, srv\<lparr>server_handlers := map_put k h' (server_handlers srv),
            server_status_object := UpdateStatus (uri q) code (server_status_object srv)\<rparr>)))))
      (HandleRequest (with_status a (server_status_object srv) e) h q (Some new_Response))"
    unfolding serve_def c by simp
  have eq: "outcome_bind (outcome_bind out (\<lambda>(_, p, h'). on_response p (\<lambda>response.
        outcome_bind (GetResponseCode response) (\<lambda>code.
        Inr (Response_ToString response, srv\<lparr>server_handlers := map_put k h' (server_handlers srv),
          server_status_object := UpdateStatus (uri q) code (server_status_object srv)\<rparr>)))))
        (\<lambda>(text, srv'). Inr (True, Some text, srv')) =
      outcome_bind (outcome_bind out (\<lambda>(_, p, h'). on_response p (\<lambda>r.
        Inr (uri q, r, srv\<lparr>server_handlers := map_put k h' (server_handlers srv)\<rparr>))))
      (\<lambda>(u, r, srv'). outcome_bind (count_response u r srv') (\<lambda>srv''. Inr (True, Some (Response_ToString r), srv'')))" for out
    by (cases out) (auto simp: on_response_def count_response_def outcome_bind_def split: option.splits sum.splits)
  have "handle_read e a srv False buf n = map_option (\<lambda>out. outcome_bind out (\<lambda>(text, srv').
      Inr (True, Some text, srv'))) (serve e a srv q)" by (simp add: handle_read_def p)
  then show ?thesis unfolding respond_def Inr t s by (simp add: option.map_comp comp_def eq)
qed

section \<open>States\<close>

text \<open>
  A connection has one operation outstanding at a time. \<open>Sending t p k\<close>: \<open>async_write\<close> was
  given a buffer over the string at the address \<open>p\<close>, whose text is \<open>t\<close>, and the socket has
  taken \<open>k\<close> bytes of it; \<open>Over\<close>: no operation refers to the connection any more and it is
  destroyed, with the text and the number of bytes that were sent.
\<close>

datatype connection =
    Receiving
  | Handling
  | Sending string nat nat
  | Over "(string \<times> nat) option"

text \<open>
  A thread is in the event loop, in the callback of the read of a connection before \<open>do_write\<close>, in
  one after it (with the URI and the response, its locals), in \<open>UpdateStatus\<close> with the URI, the
  code and the counters as it has read them, or \<open>io_service::run\<close> has returned.
\<close>

datatype thread =
    Waiting
  | In_read nat string nat
  | Counting string Response
  | Storing string ResponseCode ServerStatus
  | Exited

text \<open>
  The strings are numbered in the order they are made; \<open>None\<close> is one that has been destroyed.
\<close>

record pool =
  pool_server :: Server
  pool_accepting :: bool
  pool_connections :: "connection list"
  threads :: "thread list"
  pool_strings :: "string option list"

text \<open>The process: serving, aborted, or exited with a code.\<close>

datatype program = Serving pool | Aborted fault | Exit int

definition set_connection :: "nat \<Rightarrow> connection \<Rightarrow> pool \<Rightarrow> pool" where
  "set_connection c x s = s\<lparr>pool_connections := (pool_connections s)[c := x]\<rparr>"

definition set_thread :: "nat \<Rightarrow> thread \<Rightarrow> pool \<Rightarrow> pool" where
  "set_thread i t s = s\<lparr>threads := (threads s)[i := t]\<rparr>"

section \<open>Operations\<close>

definition NUM_OF_THREADS :: nat where
  "NUM_OF_THREADS = 5"

definition BUFFER_SIZE :: nat where
  "BUFFER_SIZE = 1024"

text \<open>\<open>Server::run\<close> on a new server, whose constructor has started to accept.\<close>

definition Server_run :: "Server \<Rightarrow> pool" where
  "Server_run srv = \<lparr>pool_server = srv, pool_accepting = True, pool_connections = [],
     threads = replicate NUM_OF_THREADS Waiting, pool_strings = []\<rparr>"

text \<open>\<open>Connection::start\<close>, which is \<open>do_read\<close>, on the connection that was accepted.\<close>

definition Connection_start :: "pool \<Rightarrow> pool" where
  "Connection_start s = s\<lparr>pool_connections := pool_connections s @ [Receiving]\<rparr>"

definition accept_connection :: "bool \<Rightarrow> pool \<Rightarrow> bool \<times> pool" where
  "accept_connection error s =
     (let s1 = s\<lparr>pool_accepting := False\<rparr> in
      if error then (False, s1) else (True, (Connection_start s1)\<lparr>pool_accepting := True\<rparr>))"

text \<open>The beginning of \<open>handle_read\<close>: after an error it returns at once.\<close>

definition begin_read :: "nat \<Rightarrow> nat \<Rightarrow> bool \<Rightarrow> string \<Rightarrow> nat \<Rightarrow> pool \<Rightarrow> pool" where
  "begin_read i c error buffer n s =
     (if error then set_connection c (Over None) s
      else set_thread i (In_read c buffer n) (set_connection c Handling s))"

text \<open>
  Strings in memory: a new one, one that is read, and one that is destroyed. Reading a string that is
  destroyed is undefined behaviour.
\<close>

definition make_string :: "string \<Rightarrow> pool \<Rightarrow> nat \<times> pool" where
  "make_string t s = (length (pool_strings s), s\<lparr>pool_strings := pool_strings s @ [Some t]\<rparr>)"

definition destroy_string :: "nat \<Rightarrow> pool \<Rightarrow> pool" where
  "destroy_string p s = s\<lparr>pool_strings := (pool_strings s)[p := None]\<rparr>"

definition read_string :: "nat \<Rightarrow> pool \<Rightarrow> string outcome" where
  "read_string p s =
     (if p < length (pool_strings s)
      then (case pool_strings s ! p of None \<Rightarrow> Inl Undefined_behaviour | Some t \<Rightarrow> Inr t)
      else Inl Undefined_behaviour)"

text \<open>
  \<open>async_write\<close> from the string at \<open>p\<close>: the socket takes some of the text at once. When that
  was not all, it takes more whenever it is ready, from the string at the same address.
\<close>

definition async_write :: "nat \<Rightarrow> nat \<Rightarrow> nat \<Rightarrow> pool \<Rightarrow> pool outcome" where
  "async_write c p k s =
     outcome_bind (read_string p s) (\<lambda>t. Inr (set_connection c (Sending t p (min k (length t))) s))"

definition continue_write :: "nat \<Rightarrow> nat \<Rightarrow> nat \<Rightarrow> nat \<Rightarrow> pool \<Rightarrow> pool outcome" where
  "continue_write c p k j s = async_write c p (k + j) s"

text \<open>
  \<open>do_write\<close> is one expression: the temporary that \<open>ToString\<close> returns is made before
  \<open>async_write\<close> is called, and destroyed at the end of the expression.
\<close>

definition do_write :: "nat \<Rightarrow> Response \<Rightarrow> nat \<Rightarrow> pool \<Rightarrow> pool outcome" where
  "do_write c response k s =
     (case make_string (Response_ToString response) s of
        (p, s1) \<Rightarrow> outcome_bind (async_write c p k s1) (\<lambda>s2. Inr (destroy_string p s2)))"

text \<open>The handler of connection \<open>c\<close> has come to an end in thread \<open>i\<close>.\<close>

definition finish_response ::
  "nat \<Rightarrow> nat \<Rightarrow> nat \<Rightarrow> (string \<times> Response \<times> Server) outcome \<Rightarrow> pool \<Rightarrow> program" where
  "finish_response i c k out s =
     (case outcome_bind out (\<lambda>(u, r, srv). outcome_bind (do_write c r k (s\<lparr>pool_server := srv\<rparr>)) (\<lambda>s'.
         Inr (set_thread i (Counting u r) s'))) of
        Inl ft \<Rightarrow> Aborted ft
      | Inr s' \<Rightarrow> Serving s')"

text \<open>
  The count, \<open>UpdateStatus(request->uri(), response.GetResponseCode())\<close>, in the two steps that let
  another thread in between: the counters are read, and they are written.
\<close>

definition begin_count :: "nat \<Rightarrow> string \<Rightarrow> Response \<Rightarrow> pool \<Rightarrow> program" where
  "begin_count i u r s =
     (case GetResponseCode r of
        Inl ft \<Rightarrow> Aborted ft
      | Inr code \<Rightarrow> Serving (set_thread i (Storing u code (server_status_object (pool_server s))) s))"

definition finish_count :: "nat \<Rightarrow> string \<Rightarrow> ResponseCode \<Rightarrow> ServerStatus \<Rightarrow> pool \<Rightarrow> pool" where
  "finish_count i u code st s =
     set_thread i Waiting (s\<lparr>pool_server := (pool_server s)\<lparr>server_status_object := UpdateStatus u code st\<rparr>\<rparr>)"

text \<open>
  \<open>handle_write\<close>: the write is complete, or an error ended it; either way nothing refers to the
  connection any more.
\<close>

definition finish_write :: "nat \<Rightarrow> string \<Rightarrow> nat \<Rightarrow> pool \<Rightarrow> bool \<times> pool" where
  "finish_write c t k s = (handle_write (k < length t) k, set_connection c (Over (Some (t, k))) s)"

text \<open>The \<open>io_service\<close> has no work: no operation is outstanding and no callback runs.\<close>

fun is_over :: "connection \<Rightarrow> bool" where
  "is_over (Over w) = True"
| "is_over _ = False"

definition no_work :: "pool \<Rightarrow> bool" where
  "no_work s \<longleftrightarrow> \<not> pool_accepting s \<and> list_all is_over (pool_connections s) \<and>
     list_all (\<lambda>t. t = Waiting \<or> t = Exited) (threads s)"

section \<open>Steps\<close>

text \<open>A thread that runs no callback takes the next completion, whichever it is.\<close>

definition in_state :: "pool \<Rightarrow> nat \<Rightarrow> thread \<Rightarrow> bool" where
  "in_state s i t \<longleftrightarrow> i < length (threads s) \<and> threads s ! i = t"

definition in_phase :: "pool \<Rightarrow> nat \<Rightarrow> connection \<Rightarrow> bool" where
  "in_phase s c x \<longleftrightarrow> c < length (pool_connections s) \<and> pool_connections s ! c = x"

inductive callback :: "environment \<Rightarrow> nat \<Rightarrow> program \<Rightarrow> program \<Rightarrow> bool" for e a where
  accepts: "in_state s i Waiting \<Longrightarrow> pool_accepting s \<Longrightarrow>
    callback e a (Serving s) (Serving (snd (accept_connection error s)))"
| begins: "in_state s i Waiting \<Longrightarrow> in_phase s c Receiving \<Longrightarrow> length buf = BUFFER_SIZE \<Longrightarrow>
    n \<le> BUFFER_SIZE \<Longrightarrow> callback e a (Serving s) (Serving (begin_read i c error buf n s))"
| responds: "in_state s i (In_read c buf n) \<Longrightarrow> respond e a (pool_server s) buf n = Some out \<Longrightarrow>
    callback e a (Serving s) (finish_response i c k out s)"
| counts: "in_state s i (Counting u r) \<Longrightarrow> callback e a (Serving s) (begin_count i u r s)"
| stores: "in_state s i (Storing u code st) \<Longrightarrow> callback e a (Serving s) (Serving (finish_count i u code st s))"
| continues: "in_state s i Waiting \<Longrightarrow> in_phase s c (Sending t p k) \<Longrightarrow> k < length t \<Longrightarrow>
    continue_write c p k j s = Inr s' \<Longrightarrow> callback e a (Serving s) (Serving s')"
| writes: "in_state s i Waiting \<Longrightarrow> in_phase s c (Sending t p k) \<Longrightarrow>
    callback e a (Serving s) (Serving (snd (finish_write c t k s)))"
| exits: "in_state s i Waiting \<Longrightarrow> no_work s \<Longrightarrow>
    callback e a (Serving s) (Serving (set_thread i Exited s))"
| returns: "list_all (\<lambda>t. t = Exited) (threads s) \<Longrightarrow> callback e a (Serving s) (Exit 0)"

inductive_cases callback_Serving: "callback e a (Serving s) (Serving s')"
inductive_cases callback_Aborted: "callback e a (Serving s) (Aborted ft)"
inductive_cases callback_Exit: "callback e a (Serving s) (Exit n)"
inductive_simps callback_ended [simp]: "callback e a (Aborted ft) p" "callback e a (Exit n) p"

section \<open>Races\<close>

text \<open>
  What the callbacks share and change: the server's status, the host of a \<open>ProxyHandler\<close>, which a
  redirect overwrites, and the tables of tags of the Markdown converter, which its first use fills. The
  rest of the table of handlers is only read.
\<close>

datatype location = Status_counters | Proxy_host string | Tag_tables

text \<open>
  A call whose first turn returns a status has left the host alone. Any other may have overwritten it, also
  one that throws, since the host is set while the header fields are read.
\<close>

definition redirected :: "environment \<Rightarrow> ProxyHandler \<Rightarrow> Request \<Rightarrow> bool" where
  "redirected e h request \<longleftrightarrow>
     (case proxy_turn e 0 h request (Some new_Response) of Inr (Some _, _, _) \<Rightarrow> False | _ \<Rightarrow> True)"

definition converts :: "environment \<Rightarrow> StaticHandler \<Rightarrow> Request \<Rightarrow> bool" where
  "converts e h request \<longleftrightarrow>
     under_prefix (static_uri_prefix h) (uri request) \<and>
     (case find_file e (root h) (root h @ drop (length (static_uri_prefix h)) (uri request)) of
        Inr (Some (absolute_path, _)) \<Rightarrow> fs_extension e absolute_path = ''.md''
      | _ \<Rightarrow> False)"

text \<open>
  The accesses that a thread has before it, each with whether it writes. A Markdown file counts as a
  write of the tables of tags, whether or not it has a tag and whether or not they are filled already.
\<close>

fun accesses :: "environment \<Rightarrow> nat \<Rightarrow> Server \<Rightarrow> thread \<Rightarrow> (location \<times> bool) list" where
  "accesses e a srv (In_read c buf n) =
     (case route a srv buf n of
        Inl _ \<Rightarrow> []
      | Inr (request, key, h) \<Rightarrow>
          (case h of
             Status_object _ \<Rightarrow> [(Status_counters, False)]
           | Proxy_object p \<Rightarrow> [(Proxy_host key, redirected e p request)]
           | Static_object g \<Rightarrow> (if converts e g request then [(Tag_tables, True)] else [])
           | _ \<Rightarrow> []))"
| "accesses e a srv (Counting u r) = [(Status_counters, True)]"
| "accesses e a srv (Storing u code st) = [(Status_counters, True)]"
| "accesses e a srv _ = []"

definition conflict :: "(location \<times> bool) list \<Rightarrow> (location \<times> bool) list \<Rightarrow> bool" where
  "conflict xs ys \<longleftrightarrow> list_ex (\<lambda>(l, w). list_ex (\<lambda>(l', w'). l = l' \<and> (w \<or> w')) ys) xs"

definition racy :: "environment \<Rightarrow> nat \<Rightarrow> pool \<Rightarrow> bool" where
  "racy e a s \<longleftrightarrow>
     list_ex (\<lambda>j. list_ex (\<lambda>i. conflict (accesses e a (pool_server s) (threads s ! i))
         (accesses e a (pool_server s) (threads s ! j))) [0..<j]) [0..<length (threads s)]"

inductive goes_wrong :: "environment \<Rightarrow> nat \<Rightarrow> program \<Rightarrow> program \<Rightarrow> bool" for e a where
  races: "racy e a s \<Longrightarrow> goes_wrong e a (Serving s) (Aborted Undefined_behaviour)"
| dangles: "in_state s i Waiting \<Longrightarrow> in_phase s c (Sending t p k) \<Longrightarrow> k < length t \<Longrightarrow>
    continue_write c p k j s = Inl ft \<Longrightarrow> goes_wrong e a (Serving s) (Aborted ft)"

inductive_simps goes_wrong_iff: "goes_wrong e a (Serving s) p"
inductive_simps goes_wrong_ended [simp]: "goes_wrong e a (Aborted ft) p" "goes_wrong e a (Exit n) p"

definition pool_step :: "environment \<Rightarrow> nat \<Rightarrow> program \<Rightarrow> program \<Rightarrow> bool" where
  "pool_step e a p p' \<longleftrightarrow> callback e a p p' \<or> goes_wrong e a p p'"

definition pool_reachable :: "environment \<Rightarrow> nat \<Rightarrow> Server \<Rightarrow> program \<Rightarrow> bool" where
  "pool_reachable e a srv p \<longleftrightarrow> (pool_step e a)\<^sup>*\<^sup>* (Serving (Server_run srv)) p"

end
