(* ===== verification/Transitions.thy ===== *)
theory Transitions
  imports Main
begin

text \<open>
  Step relations: what holds in every state that is reached, and when the runs of one relation are runs of
  another.
\<close>

section \<open>Invariants\<close>

locale invariant =
  fixes step :: "'s \<Rightarrow> 's \<Rightarrow> bool" and I :: "'s \<Rightarrow> bool"
  assumes preserved: "step p q \<Longrightarrow> I p \<Longrightarrow> I q"
begin

lemma reached: "step\<^sup>*\<^sup>* p q \<Longrightarrow> I p \<Longrightarrow> I q"
  by (induction rule: rtranclp_induct) (auto intro: preserved)

end

section \<open>Simulations\<close>

text \<open>Each step of the concrete relation is some steps of the abstract one.\<close>

locale simulation =
  fixes cstep :: "'c \<Rightarrow> 'c \<Rightarrow> bool" and astep :: "'a \<Rightarrow> 'a \<Rightarrow> bool" and rel :: "'c \<Rightarrow> 'a \<Rightarrow> bool"
  assumes simulates: "cstep c c' \<Longrightarrow> rel c a \<Longrightarrow> \<exists>a'. astep\<^sup>*\<^sup>* a a' \<and> rel c' a'"
begin

lemma runs: "cstep\<^sup>*\<^sup>* c c' \<Longrightarrow> rel c a \<Longrightarrow> \<exists>a'. astep\<^sup>*\<^sup>* a a' \<and> rel c' a'"
proof (induction rule: rtranclp_induct)
  case (step p q)
  then obtain b where b: "astep\<^sup>*\<^sup>* a b" "rel p b" by blast
  from simulates [OF step.hyps(2) b(2)] obtain d where "astep\<^sup>*\<^sup>* b d" "rel q d" by blast
  with b(1) show ?case by (meson rtranclp_trans)
qed blast

end

end
