(* ===== verification/Threads_Safety.thy ===== *)
theory Threads_Safety
  imports Server_Threads Transitions
begin

text \<open>
  What holds in every state of the five threads, also after a race that went well. What needs that there
  is no race, the counters, is in \<open>Threads_Serial\<close>.
\<close>

section \<open>What a callback changes\<close>

lemma route_find: "route a srv buf n = Inr (q, k, h) \<Longrightarrow> map_find (server_handlers srv) k = Some h"
  by (auto simp: route_def dest: choose_handler_find)

lemma respondE:
  assumes "respond e a srv buf n = Some (Inr (u, r, srv'))"
  obtains q k h s h' where "route a srv buf n = Inr (q, k, h)"
    "HandleRequest (with_status a (server_status_object srv) e) h q (Some new_Response) =
       Some (Inr (s, Some r, h'))"
    "u = uri q" "srv' = srv\<lparr>server_handlers := map_put k h' (server_handlers srv)\<rparr>"
proof -
  obtain q k h where 1: "route a srv buf n = Inr (q, k, h)"
    using assms by (auto simp: respond_def split: sum.splits)
  then obtain s p h' where 2: "HandleRequest (with_status a (server_status_object srv) e) h q (Some new_Response) =
      Some (Inr (s, p, h'))"
    using assms by (auto simp: respond_def)
  with 1 assms have "p = Some r \<and> u = uri q \<and> srv' = srv\<lparr>server_handlers := map_put k h' (server_handlers srv)\<rparr>"
    by (cases p) (auto simp: respond_def)
  with 1 2 that show thesis by blast
qed

lemma respond_keeps:
  assumes "respond e a srv buf n = Some (Inr (u, r, srv'))"
  shows "server_status_object srv' = server_status_object srv \<and> same_routes srv srv' \<and>
    (server_inv srv \<longrightarrow> server_inv srv')"
  using assms
proof (rule respondE)
  fix q k h s h'
  assume r: "route a srv buf n = Inr (q, k, h)"
    and h: "HandleRequest (with_status a (server_status_object srv) e) h q (Some new_Response) = Some (Inr (s, Some r, h'))"
    and srv': "srv' = srv\<lparr>server_handlers := map_put k h' (server_handlers srv)\<rparr>"
  show ?thesis
    using route_find [OF r] HandleRequest_class [OF h]
    by (auto simp: srv' server_inv_def same_routes_def map_ok_put map_find_put)
qed

lemma count_responseE:
  assumes "count_response u r srv = Inr srv'"
  obtains code where "GetResponseCode r = Inr code"
    "srv' = srv\<lparr>server_status_object := UpdateStatus u code (server_status_object srv)\<rparr>"
  using assms by (auto simp: count_response_def)

lemma count_response_keeps:
  assumes "count_response u r srv = Inr srv'"
  shows "server_handlers srv' = server_handlers srv \<and> same_routes srv srv' \<and> (server_inv srv \<longrightarrow> server_inv srv') \<and>
    num_requests (server_status_object srv') = num_requests (server_status_object srv) + 1"
  using assms
  by (rule count_responseE) (simp add: same_routes_def server_inv_def status_inv_UpdateStatus, simp add: UpdateStatus_eq)

lemma same_routes_trans: "same_routes r s \<Longrightarrow> same_routes s t \<Longrightarrow> same_routes r t"
  by (simp add: same_routes_def)

section \<open>The invariant\<close>

fun reads :: "thread \<Rightarrow> nat option" where
  "reads (In_read c buf n) = Some c"
| "reads _ = None"

fun is_counting :: "thread \<Rightarrow> bool" where
  "is_counting (Counting u r) = True"
| "is_counting (Storing u code st) = True"
| "is_counting _ = False"

fun thread_ok :: "thread \<Rightarrow> bool" where
  "thread_ok (In_read c buf n) \<longleftrightarrow> length buf = BUFFER_SIZE \<and> n \<le> BUFFER_SIZE"
| "thread_ok (Storing u code st) \<longleftrightarrow> status_inv st"
| "thread_ok _ \<longleftrightarrow> True"

fun connection_ok :: "connection \<Rightarrow> bool" where
  "connection_ok (Sending t p k) \<longleftrightarrow> k \<le> length t"
| "connection_ok (Over (Some (t, k))) \<longleftrightarrow> k \<le> length t"
| "connection_ok _ \<longleftrightarrow> True"

fun has_answer :: "connection \<Rightarrow> bool" where
  "has_answer (Sending t p k) = True"
| "has_answer (Over w) = (w \<noteq> None)"
| "has_answer _ = False"

text \<open>
  Every connection whose read is handled is handled by exactly one thread, and no other is; between two
  callbacks no string that was given to \<open>async_write\<close> is left.
\<close>

definition one_reader :: "pool \<Rightarrow> bool" where
  "one_reader s \<longleftrightarrow> (\<forall>c. length (filter (\<lambda>t. reads t = Some c) (threads s)) = (if in_phase s c Handling then 1 else 0))"

definition pool_inv :: "Server \<Rightarrow> pool \<Rightarrow> bool" where
  "pool_inv srv s \<longleftrightarrow> server_inv (pool_server s) \<and> same_routes srv (pool_server s) \<and>
     length (threads s) = NUM_OF_THREADS \<and> list_all thread_ok (threads s) \<and>
     list_all connection_ok (pool_connections s) \<and> one_reader s \<and> list_all (\<lambda>x. x = None) (pool_strings s) \<and>
     (Exited \<in> set (threads s) \<longrightarrow> no_work s)"

definition program_inv :: "Server \<Rightarrow> program \<Rightarrow> bool" where
  "program_inv srv p \<longleftrightarrow> (\<forall>s. p = Serving s \<longrightarrow> pool_inv srv s)"

lemma set_ops [simp]:
  "threads (set_connection c x s) = threads s" "pool_server (set_connection c x s) = pool_server s"
  "pool_accepting (set_connection c x s) = pool_accepting s"
  "pool_connections (set_connection c x s) = (pool_connections s)[c := x]"
  "threads (set_thread i t s) = (threads s)[i := t]" "pool_server (set_thread i t s) = pool_server s"
  "pool_accepting (set_thread i t s) = pool_accepting s"
  "pool_connections (set_thread i t s) = pool_connections s"
  "pool_strings (set_connection c x s) = pool_strings s" "pool_strings (set_thread i t s) = pool_strings s"
  by (simp_all add: set_connection_def set_thread_def)

text \<open>What \<open>do_write\<close> leaves behind: the string is destroyed, the connection has its address.\<close>

abbreviation sending :: "pool \<Rightarrow> Response \<Rightarrow> nat \<Rightarrow> connection" where
  "sending s r k \<equiv> Sending (Response_ToString r) (length (pool_strings s)) (min k (length (Response_ToString r)))"

lemma do_write_eq:
  "do_write c r k s = Inr (set_connection c (sending s r k) (s\<lparr>pool_strings := pool_strings s @ [None]\<rparr>))"
  by (simp add: do_write_def make_string_def async_write_def read_string_def destroy_string_def set_connection_def)

lemma finish_response_simps [simp]:
  "finish_response i c k (Inl ft) s = Aborted ft"
  "finish_response i c k (Inr (u, r, srv)) s = Serving (set_thread i (Counting u r)
     (set_connection c (sending s r k) (s\<lparr>pool_server := srv, pool_strings := pool_strings s @ [None]\<rparr>)))"
  by (simp_all add: finish_response_def do_write_eq)

lemma no_string:
  assumes "list_all (\<lambda>x. x = None) (pool_strings s)"
  shows "read_string p s = Inl Undefined_behaviour" "continue_write c p k j s = Inl Undefined_behaviour"
  using assms by (auto simp: read_string_def continue_write_def async_write_def list_all_length)

lemma list_all_update: "list_all P xs \<Longrightarrow> P x \<Longrightarrow> list_all P (xs[i := x])"
  by (auto simp: list_all_iff dest!: subsetD [OF set_update_subset_insert])

text \<open>How the counts over threads and connections change.\<close>

lemma threads_update:
  assumes "in_state s i t"
  shows "length (filter P ((threads s)[i := t'])) + (if P t then 1 else 0) =
    length (filter P (threads s)) + (if P t' then 1 else 0)"
  using filter_update [of i "threads s" P t'] assms by (auto simp: in_state_def)

lemma connections_update:
  assumes "in_phase s c x"
  shows "length (filter P ((pool_connections s)[c := x'])) + (if P x then 1 else 0) =
    length (filter P (pool_connections s)) + (if P x' then 1 else 0)"
  using filter_update [of c "pool_connections s" P x'] assms by (auto simp: in_phase_def)

lemma in_phase_set [simp]:
  "in_phase (set_connection c x s) d y \<longleftrightarrow>
    (if d = c then c < length (pool_connections s) \<and> x = y else in_phase s d y)"
  by (auto simp: in_phase_def nth_list_update)

lemma in_phase_thread [simp]: "in_phase (set_thread i t s) c x = in_phase s c x"
  by (simp add: in_phase_def)

lemma not_exited:
  assumes "pool_inv srv s" "\<not> no_work s"
  shows "Exited \<notin> set (threads s)"
  using assms by (auto simp: pool_inv_def)

lemma busy_work:
  "in_state s i (In_read c buf n) \<Longrightarrow> \<not> no_work s" "in_state s i (Counting u r) \<Longrightarrow> \<not> no_work s"
  "in_state s i (Storing u code st) \<Longrightarrow> \<not> no_work s"
  by (auto simp: no_work_def in_state_def list_all_length)

lemma busy_connection: "in_phase s c x \<Longrightarrow> \<not> is_over x \<Longrightarrow> \<not> no_work s"
  by (auto simp: no_work_def in_phase_def list_all_length)

lemma set_update_other: "y \<in> set (xs[i := x]) \<Longrightarrow> y \<noteq> x \<Longrightarrow> y \<in> set xs"
  by (auto dest: subsetD [OF set_update_subset_insert])

lemma one_readerE:
  assumes "one_reader s" "in_state s i (In_read c buf n)"
  shows "in_phase s c Handling"
proof -
  have "In_read c buf n \<in> set (filter (\<lambda>t. reads t = Some c) (threads s))"
    using assms(2) nth_mem by (fastforce simp: in_state_def)
  then have "length (filter (\<lambda>t. reads t = Some c) (threads s)) \<noteq> 0"
    by (auto simp: filter_empty_conv intro!: bexI [of _ "In_read c buf n"])
  then show ?thesis using assms(1) unfolding one_reader_def by metis
qed

section \<open>Every callback keeps it\<close>

text \<open>A change of a thread that neither reads nor counts, before and after.\<close>

lemma one_reader_thread:
  assumes "one_reader s" "in_state s i t" "reads t = reads t'"
  shows "one_reader (set_thread i t' s)"
  using assms(1) threads_update [OF assms(2), of "\<lambda>t. reads t = Some c" t' for c] assms(3)
  by (auto simp: one_reader_def)

text \<open>A change of a connection whose read is not handled, before and after.\<close>

lemma one_reader_connection:
  assumes "one_reader s" "in_phase s c x" "x \<noteq> Handling" "x' \<noteq> Handling"
  shows "one_reader (set_connection c x' s)"
  using assms by (auto simp: one_reader_def in_phase_def nth_list_update)

lemma one_reader_server [simp]:
  "one_reader (s\<lparr>pool_server := srv\<rparr>) = one_reader s" "one_reader (s\<lparr>pool_strings := l\<rparr>) = one_reader s"
  by (simp_all add: one_reader_def in_phase_def)

lemma one_reader_begin:
  assumes "one_reader s" "in_state s i Waiting" "in_phase s c Receiving"
  shows "one_reader (set_thread i (In_read c buf n) (set_connection c Handling s))"
proof -
  have "length (filter (\<lambda>t. reads t = Some d) ((threads s)[i := In_read c buf n])) =
      length (filter (\<lambda>t. reads t = Some d) (threads s)) + (if c = d then 1 else 0)" for d
    using threads_update [OF assms(2), of "\<lambda>t. reads t = Some d" "In_read c buf n"] by simp
  moreover have "\<not> in_phase s c Handling" using assms(3) by (simp add: in_phase_def)
  ultimately show ?thesis using assms(1,3) by (auto simp: one_reader_def in_phase_def)
qed

lemma one_reader_end:
  assumes "one_reader s" "in_state s i (In_read c buf n)" "x \<noteq> Handling" "reads t = None"
  shows "one_reader (set_thread i t (set_connection c x s))"
proof -
  have 1: "length (filter (\<lambda>t. reads t = Some d) ((threads s)[i := t])) + (if c = d then 1 else 0) =
      length (filter (\<lambda>t. reads t = Some d) (threads s))" for d
    using threads_update [OF assms(2), of "\<lambda>t. reads t = Some d" t] assms(4) by simp
  have 2: "in_phase s c Handling" by (rule one_readerE [OF assms(1,2)])
  have 3: "length (filter (\<lambda>t. reads t = Some d) (threads s)) = (if in_phase s d Handling then 1 else 0)" for d
    using assms(1) unfolding one_reader_def by blast
  have "length (filter (\<lambda>t. reads t = Some d) ((threads s)[i := t])) =
      (if d \<noteq> c \<and> in_phase s d Handling then 1 else 0)" for d
    using 1 [of d] 2 3 [of d] by (simp split: if_splits)
  then show ?thesis using assms(3) by (auto simp: one_reader_def)
qed

lemma pool_inv_accept:
  assumes "pool_inv srv s" "pool_accepting s"
  shows "pool_inv srv (snd (accept_connection error s))"
proof -
  have "\<not> no_work s" using assms(2) by (simp add: no_work_def)
  with assms have "Exited \<notin> set (threads s)" by (auto simp: pool_inv_def)
  moreover have "in_phase (Connection_start s) c Handling = in_phase s c Handling" for c
    by (auto simp: Connection_start_def in_phase_def nth_append)
  ultimately show ?thesis
    using assms(1)
    by (auto simp: accept_connection_def Let_def Connection_start_def pool_inv_def one_reader_def
        in_phase_def nth_append)
qed

lemma pool_inv_begin:
  assumes "pool_inv srv s" "in_state s i Waiting" "in_phase s c Receiving"
    and "length buf = BUFFER_SIZE" "n \<le> BUFFER_SIZE"
  shows "pool_inv srv (begin_read i c error buf n s)"
proof (cases error)
  case True
  have x: "Exited \<notin> set (threads s)" by (rule not_exited [OF assms(1) busy_connection [OF assms(3)]]) simp
  have "one_reader (set_connection c (Over None) s)"
    using assms(1) one_reader_connection [OF _ assms(3)] by (simp add: pool_inv_def)
  with x True assms(1) show ?thesis by (auto simp: begin_read_def pool_inv_def intro: list_all_update)
next
  case False
  let ?s = "set_thread i (In_read c buf n) (set_connection c Handling s)"
  have x: "Exited \<notin> set (threads s)" by (rule not_exited [OF assms(1) busy_connection [OF assms(3)]]) simp
  have "one_reader ?s" using one_reader_begin assms(1-3) by (auto simp: pool_inv_def)
  then show ?thesis
    using x False assms(1,4,5)
    by (auto simp: begin_read_def pool_inv_def list_all_update dest: set_update_other)
qed

lemma pool_inv_respond:
  assumes "pool_inv srv s" "in_state s i (In_read c buf n)"
    and "respond e a (pool_server s) buf n = Some out" "finish_response i c k out s = Serving s'"
  shows "pool_inv srv s'"
proof -
  obtain u r srv1 where out: "out = Inr (u, r, srv1)" using assms(4) by (cases out) auto
  let ?s = "s\<lparr>pool_server := srv1, pool_strings := pool_strings s @ [None]\<rparr>"
  have s': "s' = set_thread i (Counting u r) (set_connection c (sending s r k) ?s)"
    using assms(4) by (simp add: out)
  have k: "same_routes srv srv1" "server_inv srv1"
    using respond_keeps [of e a "pool_server s" buf n u r srv1] assms(1,3) same_routes_trans
    by (auto simp: out pool_inv_def)
  have x: "Exited \<notin> set (threads s)" by (rule not_exited [OF assms(1) busy_work(1) [OF assms(2)]])
  have i: "in_state ?s i (In_read c buf n)" using assms(2) by (simp add: in_state_def)
  have o: "one_reader ?s" using assms(1) by (simp add: pool_inv_def)
  have "one_reader s'" unfolding s' by (rule one_reader_end [OF o i]) simp_all
  then show ?thesis
    using x assms(1) k by (auto simp: s' pool_inv_def list_all_update dest: set_update_other)
qed

text \<open>A thread that goes on with a count.\<close>

lemma pool_inv_thread:
  assumes "pool_inv srv s" "in_state s i t" "\<not> no_work s" "reads t = None" "reads t' = None" "thread_ok t'"
    and "same_routes srv srv1" "server_inv srv1" "t' \<noteq> Exited"
  shows "pool_inv srv (set_thread i t' (s\<lparr>pool_server := srv1\<rparr>))"
proof -
  have i: "in_state (s\<lparr>pool_server := srv1\<rparr>) i t" using assms(2) by (simp add: in_state_def)
  have x: "Exited \<notin> set (threads s)" by (rule not_exited [OF assms(1,3)])
  have "one_reader (set_thread i t' (s\<lparr>pool_server := srv1\<rparr>))"
    by (rule one_reader_thread [OF _ i]) (use assms(1,4,5) in \<open>simp_all add: pool_inv_def\<close>)
  then show ?thesis
    using x assms(1,6-9) by (auto simp: pool_inv_def list_all_update dest: set_update_other)
qed

lemma pool_inv_count:
  assumes "pool_inv srv s" "in_state s i (Counting u r)" "begin_count i u r s = Serving s'"
  shows "pool_inv srv s'"
proof -
  obtain code where s': "s' = set_thread i (Storing u code (server_status_object (pool_server s))) s"
    using assms(3) by (auto simp: begin_count_def split: sum.splits)
  have "status_inv (server_status_object (pool_server s))" using assms(1) by (simp add: pool_inv_def server_inv_def)
  then show ?thesis
    using pool_inv_thread [OF assms(1,2) busy_work(2) [OF assms(2)], of _ "pool_server s"] assms(1)
    by (simp add: s' pool_inv_def)
qed

lemma pool_inv_store:
  assumes "pool_inv srv s" "in_state s i (Storing u code st)"
  shows "pool_inv srv (finish_count i u code st s)"
proof -
  have "status_inv st" using assms by (metis in_state_def list_all_length pool_inv_def thread_ok.simps(2))
  then have "server_inv ((pool_server s)\<lparr>server_status_object := UpdateStatus u code st\<rparr>)"
      "same_routes srv ((pool_server s)\<lparr>server_status_object := UpdateStatus u code st\<rparr>)"
    using assms(1) by (simp_all add: pool_inv_def server_inv_def same_routes_def status_inv_UpdateStatus)
  then show ?thesis
    using pool_inv_thread [OF assms busy_work(3) [OF assms(2)]] by (simp add: finish_count_def)
qed

lemma pool_inv_write:
  assumes "pool_inv srv s" "in_phase s c (Sending t p k)"
  shows "pool_inv srv (snd (finish_write c t k s))"
proof -
  have x: "Exited \<notin> set (threads s)" by (rule not_exited [OF assms(1) busy_connection [OF assms(2)]]) simp
  have "connection_ok (Sending t p k)"
    using assms by (metis in_phase_def list_all_length pool_inv_def)
  then have "connection_ok (Over (Some (t, k)))" by simp
  moreover have "one_reader (set_connection c (Over (Some (t, k))) s)"
    using assms(1) one_reader_connection [OF _ assms(2)] by (simp add: pool_inv_def)
  ultimately show ?thesis using x assms(1) by (auto simp: finish_write_def pool_inv_def intro: list_all_update)
qed

lemma pool_inv_exit:
  assumes "pool_inv srv s" "in_state s i Waiting" "no_work s"
  shows "pool_inv srv (set_thread i Exited s)"
proof -
  have "one_reader (set_thread i Exited s)"
    using assms(1) one_reader_thread [OF _ assms(2)] by (simp add: pool_inv_def)
  moreover have "no_work (set_thread i Exited s)"
    using assms(3) by (simp add: no_work_def list_all_update)
  ultimately show ?thesis using assms(1) by (simp add: pool_inv_def list_all_update)
qed

text \<open>A write never goes on: its string is destroyed.\<close>

lemma no_continues:
  assumes "pool_inv srv s"
  shows "continue_write c p k j s = Inl Undefined_behaviour"
  by (rule no_string) (use assms in \<open>simp add: pool_inv_def\<close>)

lemma pool_inv_callback:
  "callback e a (Serving s) (Serving s') \<Longrightarrow> pool_inv srv s \<Longrightarrow> pool_inv srv s'"
proof (erule callback_Serving)
qed (auto simp: no_continues intro: pool_inv_accept pool_inv_begin pool_inv_respond pool_inv_count pool_inv_store pool_inv_write pool_inv_exit)

interpretation pool: invariant "pool_step e a" "program_inv srv" for e a srv
proof
  fix p q assume "pool_step e a p q" "program_inv srv p"
  then show "program_inv srv q"
    by (cases p) (auto simp: program_inv_def pool_step_def goes_wrong_iff dest: pool_inv_callback)
qed

lemma pool_inv_run: "server_inv srv \<Longrightarrow> pool_inv srv (Server_run srv)"
  by (simp add: Server_run_def pool_inv_def same_routes_def one_reader_def in_phase_def
      list_all_iff NUM_OF_THREADS_def)

lemma pool_reachable_inv:
  assumes "pool_reachable e a srv (Serving s)" "server_inv srv"
  shows "pool_inv srv s"
  using pool.reached [of e a "Serving (Server_run srv)" "Serving s" srv] assms pool_inv_run
  by (simp add: pool_reachable_def program_inv_def)

end
