(* ===== verification/Threads_Serial.thy ===== *)
theory Threads_Serial
  imports Threads_Safety
begin

text \<open>
  In a run of the five threads without a data race every answer is counted exactly once, and it is a run of \<open>Server_Loop\<close>, where a callback is one
  step: what the server keeps, what the connections are answered and how a run can end are the same.
\<close>

section \<open>Handlers that do not look at the status\<close>

lemma proxy_loop_cong:
  assumes ret: "proxy_loop e n h q p = Some y" and turns: "\<And>n h p. proxy_turn e n h q p = proxy_turn e' n h q p"
  shows "proxy_loop e' n h q p = Some y"
proof -
  let ?Q = "\<lambda>e n h q p y. (\<forall>n h p. proxy_turn e n h q p = proxy_turn e' n h q p) \<longrightarrow> proxy_loop e' n h q p = Some y"
  have "?Q e n h q p y"
  proof (rule proxy_loop.raw_induct [where P = ?Q, OF _ ret], intro impI, goal_cases)
    case (1 f e n h q p y)
    note turns = "1"(3)
    show ?case
      using "1"(2) "1"(1) [THEN mp, OF _ turns]
      by (subst proxy_loop.simps) (auto simp: turns [rule_format, symmetric] split: sum.splits option.splits)
  qed
  with turns show ?thesis by blast
qed

lemma proxy_loop_with_status: "proxy_loop (with_status a st e) n h q p = proxy_loop e n h q p"
proof -
  have "proxy_loop (with_status a st e) n h q p = Some y \<longleftrightarrow> proxy_loop e n h q p = Some y" for y
    using proxy_loop_cong [of "with_status a st e" n h q p y e]
      proxy_loop_cong [of e n h q p y "with_status a st e"] by (auto simp: proxy_turn_with_status)
  then show ?thesis by (metis option.exhaust)
qed

lemma with_status_fields:
  "fs_exists (with_status a st e) = fs_exists e" "fs_is_regular_file (with_status a st e) = fs_is_regular_file e"
  "fs_canonical (with_status a st e) = fs_canonical e" "fs_filename (with_status a st e) = fs_filename e"
  "fs_extension (with_status a st e) = fs_extension e" "fs_open (with_status a st e) = fs_open e"
  "regex_engine (with_status a st e) = regex_engine e" "popen_output (with_status a st e) = popen_output e"
  by (simp_all add: with_status_def)

lemma StaticHandler_with_status:
  "StaticHandler_HandleRequest (with_status a st e) h q p = StaticHandler_HandleRequest e h q p"
  unfolding StaticHandler_HandleRequest_def NotFoundHandler_HandleRequest_def find_file_def serve_file_def
    with_status_fields ..

lemma S3Handler_with_status: "S3Handler_HandleRequest (with_status a st e) h q p = S3Handler_HandleRequest e h q p"
  unfolding S3Handler_HandleRequest_def GetS3Object_def with_status_fields ..

lemma HandleRequest_with_status:
  assumes "class_of h \<noteq> StatusHandler"
  shows "HandleRequest (with_status a st e) h q p = HandleRequest e h q p"
  using assms
  by (cases h)
     (simp_all add: EchoHandler_HandleRequest_def NotFoundHandler_HandleRequest_def
       HoldingHandler_HandleRequest_def ProxyHandler_HandleRequest_def proxy_loop_with_status
       StaticHandler_with_status S3Handler_with_status)

text \<open>So it does not matter to them whether a request of another connection has been counted yet.\<close>

lemma route_cong: "server_handlers srv = server_handlers srv' \<Longrightarrow> route a srv buf n = route a srv' buf n"
  by (simp add: route_def)

lemma respond_early:
  assumes "\<And>q k h. route a srv buf n = Inr (q, k, h) \<Longrightarrow> class_of h \<noteq> StatusHandler"
    and "server_handlers srv' = server_handlers srv" "respond e a srv buf n = Some (Inl ft)"
  shows "respond e a srv' buf n = Some (Inl ft)"
proof (cases "route a srv buf n")
  case (Inl ft')
  then show ?thesis using assms(3) route_cong [OF assms(2), of a buf n] by (simp add: respond_def)
next
  case (Inr t)
  obtain q k h where t: "t = (q, k, h)" by (cases t)
  with assms(1) Inr have h: "class_of h \<noteq> StatusHandler" by blast
  obtain out where "HandleRequest e h q (Some new_Response) = Some out"
      "outcome_bind out (\<lambda>(_, p, h'). on_response p (\<lambda>r. Inr (uri q, r, srv\<lparr>server_handlers := map_put k h' (server_handlers srv)\<rparr>))) = Inl ft"
    using assms(3) Inr t HandleRequest_with_status [OF h] by (auto simp: respond_def)
  then show ?thesis
    using Inr t route_cong [OF assms(2), of a buf n] HandleRequest_with_status [OF h]
    by (cases out) (auto simp: respond_def on_response_def split: option.splits)
qed

section \<open>The state without the threads\<close>

text \<open>
  The requests that were answered and not counted yet are counted, and a connection whose read is
  handled has not been read yet.
\<close>

fun pending :: "thread list \<Rightarrow> (string \<times> ResponseCode outcome) list" where
  "pending [] = []"
| "pending (Counting u r # ts) = (u, GetResponseCode r) # pending ts"
| "pending (Storing u code st # ts) = (u, Inr code) # pending ts"
| "pending (_ # ts) = pending ts"

definition count_code :: "string \<Rightarrow> ResponseCode outcome \<Rightarrow> Server \<Rightarrow> Server outcome" where
  "count_code u out srv =
     outcome_bind out (\<lambda>code. Inr (srv\<lparr>server_status_object := UpdateStatus u code (server_status_object srv)\<rparr>))"

fun count_all :: "(string \<times> ResponseCode outcome) list \<Rightarrow> Server \<Rightarrow> Server outcome" where
  "count_all [] srv = Inr srv"
| "count_all ((u, out) # l) srv = outcome_bind (count_code u out srv) (count_all l)"

lemma count_code_response: "count_code u (GetResponseCode r) srv = count_response u r srv"
  by (simp add: count_code_def count_response_def)

lemma count_code_keeps: "count_code u out srv = Inr srv' \<Longrightarrow> server_handlers srv' = server_handlers srv"
  by (auto simp: count_code_def)

fun serial_phase :: "connection \<Rightarrow> phase" where
  "serial_phase Receiving = Reading"
| "serial_phase Handling = Reading"
| "serial_phase (Sending t p k) = Writing t"
| "serial_phase (Over w) = Closed (map_option fst w)"

definition serial :: "pool \<Rightarrow> process" where
  "serial s =
     (case count_all (pending (threads s)) (pool_server s) of
        Inl ft \<Rightarrow> Crashed ft
      | Inr srv \<Rightarrow> Running \<lparr>server = srv, accepting = pool_accepting s,
          connections = map serial_phase (pool_connections s)\<rparr>)"

lemma pending_append [simp]: "pending (xs @ ys) = pending xs @ pending ys"
  by (induction xs rule: pending.induct) simp_all

lemma pending_single: "\<not> is_counting t \<Longrightarrow> pending (t # ts) = pending ts"
  by (cases t) simp_all

lemma pending_none: "pending ts = [] \<longleftrightarrow> (\<forall>t \<in> set ts. \<not> is_counting t)"
  by (induction ts rule: pending.induct) simp_all

lemma pending_update:
  assumes "in_state s i t" "\<not> is_counting t" "\<not> is_counting t'"
  shows "pending ((threads s)[i := t']) = pending (threads s)"
proof -
  have i: "i < length (threads s)" "threads s ! i = t" using assms(1) by (simp_all add: in_state_def)
  have "pending ((threads s)[i := t']) = pending (take i (threads s)) @ pending (drop (Suc i) (threads s))"
    using i(1) assms(3) by (simp add: upd_conv_take_nth_drop pending_single)
  also have "\<dots> = pending (take i (threads s) @ threads s ! i # drop (Suc i) (threads s))"
    using i(2) assms(2) by (simp add: pending_single)
  finally show ?thesis using i(1) by (simp add: id_take_nth_drop [symmetric])
qed

section \<open>Races\<close>

lemma racy_iff:
  "racy e a s \<longleftrightarrow> (\<exists>i j. i < j \<and> j < length (threads s) \<and>
     conflict (accesses e a (pool_server s) (threads s ! i)) (accesses e a (pool_server s) (threads s ! j)))"
  unfolding racy_def list_ex_iff set_upt by (metis atLeastLessThan_iff zero_le)

lemma conflict_sym: "conflict xs ys = conflict ys xs"
  by (auto simp: conflict_def list_ex_iff)

lemma race_freeD:
  assumes "\<not> racy e a s" "in_state s i t" "in_state s j t'" "i \<noteq> j"
  shows "\<not> conflict (accesses e a (pool_server s) t) (accesses e a (pool_server s) t')"
  using assms conflict_sym unfolding racy_iff in_state_def by (metis nat_neq_iff)

text \<open>Without a race only one thread counts, and meanwhile none reads the status.\<close>

lemma counting_accesses: "is_counting t \<Longrightarrow> accesses e a srv t = [(Status_counters, True)]"
  by (cases t) simp_all

lemma one_counts:
  assumes "\<not> racy e a s" "in_state s i t" "is_counting t"
  shows "pending (threads s) = pending [t] \<and> pending ((threads s)[i := Waiting]) = []"
proof -
  have i: "i < length (threads s)" "threads s ! i = t" using assms(2) by (simp_all add: in_state_def)
  have other: "\<not> is_counting (threads s ! j)" if j: "j < length (threads s)" "j \<noteq> i" for j
    using race_freeD [OF assms(1,2), of j "threads s ! j"] j counting_accesses assms(3)
    by (auto simp: in_state_def conflict_def)
  have "pending (take i (threads s)) = []"
    unfolding pending_none using other by (auto simp: in_set_conv_nth)
  moreover have "pending (drop (Suc i) (threads s)) = []"
    unfolding pending_none using other by (auto simp: in_set_conv_nth)
  moreover have "threads s = take i (threads s) @ [t] @ drop (Suc i) (threads s)"
    using i by (metis append_Cons append_Nil id_take_nth_drop)
  ultimately show ?thesis
    using i(1) by (metis append_Nil append_Nil2 append_Cons is_counting.simps(3) pending_append pending_single
        upd_conv_take_nth_drop)
qed

lemma pending_counting:
  assumes "pending (threads s) \<noteq> []"
  obtains i t where "in_state s i t" "is_counting t"
  using assms by (auto simp: pending_none in_state_def in_set_conv_nth)

lemma no_status_read:
  assumes "\<not> racy e a s" "in_state s i (In_read c buf n)" "pending (threads s) \<noteq> []"
    and "route a (pool_server s) buf n = Inr (q, k, h)"
  shows "class_of h \<noteq> StatusHandler"
proof
  assume "class_of h = StatusHandler"
  then obtain g where g: "h = Status_object g" by (cases h) auto
  obtain j t where j: "in_state s j t" "is_counting t" using pending_counting [OF assms(3)] by blast
  then have "j \<noteq> i" using assms(2) by (auto simp: in_state_def)
  then show False using race_freeD [OF assms(1) j(1) assms(2)] assms(4) g counting_accesses [OF j(2)]
    by (simp add: conflict_def)
qed

section \<open>What holds without a race\<close>

text \<open>
  The counters that a thread has read are still those of the server, and the answers that were given are
  those that are counted and those that a thread is about to count.
\<close>

definition settled :: "pool \<Rightarrow> bool" where
  "settled s \<longleftrightarrow> (\<forall>u code st. Storing u code st \<in> set (threads s) \<longrightarrow> st = server_status_object (pool_server s))"

definition counted :: "Server \<Rightarrow> pool \<Rightarrow> bool" where
  "counted srv s \<longleftrightarrow>
     num_requests (server_status_object (pool_server s)) + of_nat (length (filter is_counting (threads s))) =
     num_requests (server_status_object srv) + of_nat (length (filter has_answer (pool_connections s)))"

definition quiet_inv :: "Server \<Rightarrow> pool \<Rightarrow> bool" where
  "quiet_inv srv s \<longleftrightarrow> pool_inv srv s \<and> settled s \<and> counted srv s"

text \<open>A change of a thread, or of a connection, that does not concern the counting.\<close>

lemma settled_thread:
  "settled s \<Longrightarrow> (\<And>u code st. t = Storing u code st \<Longrightarrow> st = server_status_object (pool_server s)) \<Longrightarrow>
    settled (set_thread i t s)"
  unfolding settled_def set_ops by (metis set_update_other)

lemma settled_updates [simp]:
  "settled (set_connection c x s) = settled s" "settled (s\<lparr>pool_strings := l\<rparr>) = settled s"
  "server_status_object srv = server_status_object (pool_server s) \<Longrightarrow> settled (s\<lparr>pool_server := srv\<rparr>) = settled s"
  by (simp_all add: settled_def)

lemma counted_thread:
  assumes "counted srv s" "in_state s i t" "is_counting t = is_counting t'"
  shows "counted srv (set_thread i t' s)"
  using assms(1,3) threads_update [OF assms(2), of is_counting t'] by (auto simp: counted_def)

lemma counted_connection:
  assumes "counted srv s" "in_phase s c x" "has_answer x = has_answer x'"
  shows "counted srv (set_connection c x' s)"
  using assms(1,3) connections_update [OF assms(2), of has_answer x'] by (auto simp: counted_def)

lemma quiet_begin:
  assumes "quiet_inv srv s" "in_state s i Waiting" "in_phase s c Receiving"
  shows "settled (begin_read i c error buf n s) \<and> counted srv (begin_read i c error buf n s)"
proof -
  have c: "counted srv (set_connection c x s)" if "\<not> has_answer x" for x
    by (rule counted_connection [OF _ assms(3)]) (use assms(1) that in \<open>simp_all add: quiet_inv_def\<close>)
  have "counted srv (set_thread i (In_read c buf n) (set_connection c Handling s))"
    by (rule counted_thread [OF c, of _ _ Waiting]) (use assms(2) in \<open>simp_all add: in_state_def\<close>)
  with c [of "Over None"] assms(1) show ?thesis
    by (auto simp: begin_read_def quiet_inv_def intro: settled_thread)
qed

lemma quiet_respond:
  assumes "quiet_inv srv s" "in_state s i (In_read c buf n)"
    and "respond e a (pool_server s) buf n = Some out" "finish_response i c k out s = Serving s'"
  shows "settled s' \<and> counted srv s'"
proof -
  obtain u r srv1 where out: "out = Inr (u, r, srv1)" using assms(4) by (cases out) auto
  let ?s = "s\<lparr>pool_server := srv1, pool_strings := pool_strings s @ [None]\<rparr>"
  have s': "s' = set_thread i (Counting u r) (set_connection c (sending s r k) ?s)"
    using assms(4) by (simp add: out)
  have st: "server_status_object srv1 = server_status_object (pool_server s)"
    using respond_keeps [of e a "pool_server s" buf n u r srv1] assms(3) by (simp add: out)
  have i: "in_state ?s i (In_read c buf n)" using assms(2) by (simp add: in_state_def)
  have h: "in_phase ?s c Handling"
    using one_readerE assms(1,2) by (auto simp: quiet_inv_def pool_inv_def in_phase_def)
  have "counted srv s'"
    using assms(1) st threads_update [OF i, of is_counting "Counting u r"]
      connections_update [OF h, of has_answer "sending s r k"]
    by (simp add: s' quiet_inv_def counted_def)
  moreover have "settled s'"
    unfolding s' by (rule settled_thread) (use assms(1) st in \<open>simp_all add: quiet_inv_def\<close>)
  ultimately show ?thesis by blast
qed

lemma quiet_count:
  assumes "quiet_inv srv s" "in_state s i (Counting u r)" "begin_count i u r s = Serving s'"
  shows "settled s' \<and> counted srv s'"
proof -
  obtain code where s': "s' = set_thread i (Storing u code (server_status_object (pool_server s))) s"
    using assms(3) by (auto simp: begin_count_def split: sum.splits)
  have "counted srv s'"
    unfolding s' by (rule counted_thread [OF _ assms(2)]) (use assms(1) in \<open>simp_all add: quiet_inv_def\<close>)
  moreover have "settled s'"
    unfolding s' by (rule settled_thread) (use assms(1) in \<open>simp_all add: quiet_inv_def\<close>)
  ultimately show ?thesis by blast
qed

lemma stored_current:
  "quiet_inv srv s \<Longrightarrow> in_state s i (Storing u code st) \<Longrightarrow> st = server_status_object (pool_server s)"
  unfolding quiet_inv_def settled_def in_state_def by (metis nth_mem)

lemma quiet_store:
  assumes "quiet_inv srv s" "\<not> racy e a s" "in_state s i (Storing u code st)"
  shows "settled (finish_count i u code st s) \<and> counted srv (finish_count i u code st s)"
proof -
  have st: "st = server_status_object (pool_server s)" by (rule stored_current [OF assms(1,3)])
  have "pending ((threads s)[i := Waiting]) = []" using one_counts [OF assms(2,3)] by simp
  then have "settled (finish_count i u code st s)"
    unfolding settled_def pending_none finish_count_def by force
  moreover have "length (filter is_counting (threads s)) = Suc (length (filter is_counting ((threads s)[i := Waiting])))"
    using threads_update [OF assms(3), of is_counting Waiting] by simp
  ultimately show ?thesis
    using assms(1) by (simp add: finish_count_def quiet_inv_def counted_def st UpdateStatus_eq algebra_simps)
qed

lemma quiet_write:
  assumes "quiet_inv srv s" "in_phase s c (Sending t p k)"
  shows "settled (snd (finish_write c t k s)) \<and> counted srv (snd (finish_write c t k s))"
  using assms(1) counted_connection [OF _ assms(2), of srv "Over (Some (t, k))"]
  by (simp add: finish_write_def quiet_inv_def)

lemma quiet_exit:
  assumes "quiet_inv srv s" "in_state s i Waiting"
  shows "settled (set_thread i Exited s) \<and> counted srv (set_thread i Exited s)"
  using assms(1) counted_thread [OF _ assms(2), of srv Exited]
  by (auto simp: quiet_inv_def intro: settled_thread)

lemma quiet_accept:
  assumes "quiet_inv srv s"
  shows "settled (snd (accept_connection error s)) \<and> counted srv (snd (accept_connection error s))"
  using assms by (auto simp: accept_connection_def Let_def Connection_start_def quiet_inv_def settled_def counted_def)

lemma quiet_inv_callback:
  assumes "callback e a (Serving s) (Serving s')" "\<not> racy e a s" "quiet_inv srv s"
  shows "quiet_inv srv s'"
proof -
  have inv: "pool_inv srv s" using assms(3) by (simp add: quiet_inv_def)
  have "settled s' \<and> counted srv s'"
    using assms(1)
    by (rule callback_Serving)
       (metis assms(2,3) quiet_begin quiet_respond quiet_count quiet_store quiet_write quiet_exit quiet_accept
          no_continues [OF inv] sum.distinct(1))+
  with pool_inv_callback [OF assms(1) inv] show ?thesis by (simp add: quiet_inv_def)
qed

section \<open>The simulation\<close>

definition race_free :: "environment \<Rightarrow> nat \<Rightarrow> program \<Rightarrow> bool" where
  "race_free e a p \<longleftrightarrow> (\<forall>s. p = Serving s \<longrightarrow> \<not> racy e a s)"

text \<open>A callback from a state without a race to another one.\<close>

definition quiet_step :: "environment \<Rightarrow> nat \<Rightarrow> program \<Rightarrow> program \<Rightarrow> bool" where
  "quiet_step e a p p' \<longleftrightarrow> callback e a p p' \<and> race_free e a p \<and> race_free e a p'"

definition represents :: "Server \<Rightarrow> program \<Rightarrow> process \<Rightarrow> bool" where
  "represents srv p q \<longleftrightarrow> (\<forall>s. p = Serving s \<longrightarrow> quiet_inv srv s) \<and>
     (case p of Serving s \<Rightarrow> q = serial s | Aborted ft \<Rightarrow> (\<exists>ft'. q = Crashed ft') | Exit n \<Rightarrow> True)"

text \<open>A change that does not concern the counting.\<close>

lemma serial_step:
  assumes "pending (threads s') = pending (threads s)" "pool_server s' = pool_server s"
    and "\<And>srv. step e a (Running \<lparr>server = srv, accepting = pool_accepting s, connections = map serial_phase (pool_connections s)\<rparr>)
      (Running \<lparr>server = srv, accepting = pool_accepting s', connections = map serial_phase (pool_connections s')\<rparr>)"
  shows "(step e a)\<^sup>*\<^sup>* (serial s) (serial s')"
  using assms by (cases "count_all (pending (threads s)) (pool_server s)") (auto simp: serial_def)

lemma in_phase_serial:
  "in_phase s c x \<Longrightarrow> c < length (map serial_phase (pool_connections s)) \<and>
    map serial_phase (pool_connections s) ! c = serial_phase x"
  by (simp add: in_phase_def)

lemma serial_accept: "(step e a)\<^sup>*\<^sup>* (serial s) (serial (snd (accept_connection error s)))"
  if "pool_accepting s"
proof (rule serial_step)
  fix srv
  let ?s = "\<lparr>server = srv, accepting = pool_accepting s, connections = map serial_phase (pool_connections s)\<rparr>"
  have "step e a (Running ?s) (Running (snd (handle_accept error ?s)))" by (rule accept_step) (simp add: that)
  then show "step e a (Running ?s) (Running \<lparr>server = srv, accepting = pool_accepting (snd (accept_connection error s)),
      connections = map serial_phase (pool_connections (snd (accept_connection error s)))\<rparr>)"
    by (simp add: handle_accept_def accept_connection_def Let_def start_accept_def Connection_start_def split: if_splits)
qed (simp_all add: accept_connection_def Let_def Connection_start_def)

lemma serial_begin:
  assumes "in_state s i Waiting" "in_phase s c Receiving" "length buf = BUFFER_SIZE" "n \<le> BUFFER_SIZE"
  shows "(step e a)\<^sup>*\<^sup>* (serial s) (serial (begin_read i c error buf n s))"
proof (cases error)
  case True
  have "(step e a)\<^sup>*\<^sup>* (serial s) (serial (set_connection c (Over None) s))"
  proof (rule serial_step)
    fix srv
    let ?s = "\<lparr>server = srv, accepting = pool_accepting s, connections = map serial_phase (pool_connections s)\<rparr>"
    have "complete_read e a c True buf n ?s = Some (Running (set_phase c (Closed None) ?s))"
      by (simp add: complete_read_def handle_read_def)
    then have "step e a (Running ?s) (Running (set_phase c (Closed None) ?s))"
      using read_step [of c ?s buf n e a True] in_phase_serial [OF assms(2)] assms(3,4)
      by (simp add: BUFFER_SIZE_def)
    then show "step e a (Running ?s) (Running \<lparr>server = srv, accepting = pool_accepting (set_connection c (Over None) s),
        connections = map serial_phase (pool_connections (set_connection c (Over None) s))\<rparr>)"
      by (simp add: set_phase_def map_update)
  qed simp_all
  with True show ?thesis by (simp add: begin_read_def)
next
  case False
  have "map serial_phase ((pool_connections s)[c := Handling]) = map serial_phase (pool_connections s)"
    using in_phase_serial [OF assms(2)] by (simp add: map_update list_update_same_conv)
  moreover have "pending ((threads s)[i := In_read c buf n]) = pending (threads s)"
    by (rule pending_update [OF assms(1)]) simp_all
  ultimately have "serial (begin_read i c error buf n s) = serial s"
    using False by (simp add: begin_read_def serial_def split: sum.split)
  then show ?thesis by simp
qed

lemma serial_write:
  assumes "in_phase s c (Sending t p k)"
  shows "(step e a)\<^sup>*\<^sup>* (serial s) (serial (snd (finish_write c t k s)))"
proof (rule serial_step)
  fix srv
  let ?s = "\<lparr>server = srv, accepting = pool_accepting s, connections = map serial_phase (pool_connections s)\<rparr>"
  have "step e a (Running ?s) (Running (set_phase c (Closed (Some t)) ?s))"
    by (rule write_step) (use in_phase_serial [OF assms] in simp_all)
  then show "step e a (Running ?s) (Running \<lparr>server = srv, accepting = pool_accepting (snd (finish_write c t k s)),
      connections = map serial_phase (pool_connections (snd (finish_write c t k s)))\<rparr>)"
    by (simp add: finish_write_def set_phase_def map_update)
qed (simp_all add: finish_write_def)

text \<open>
  The callback of a read is the one step of \<open>complete_read\<close> where its handler comes to an end: at that
  point no other thread is about to count.
\<close>

lemma serial_respond:
  assumes "pool_inv srv s" "in_state s i (In_read c buf n)" "respond e a (pool_server s) buf n = Some (Inr (u, r, srv1))"
    and "pending (threads s) = []"
    and "finish_response i c k (Inr (u, r, srv1)) s = Serving s'"
  shows "(step e a)\<^sup>*\<^sup>* (serial s) (serial s')"
proof -
  let ?s = "\<lparr>server = pool_server s, accepting = pool_accepting s, connections = map serial_phase (pool_connections s)\<rparr>"
  have s: "serial s = Running ?s" by (simp add: serial_def assms(4))
  have h: "in_phase s c Handling" using one_readerE assms(1,2) by (auto simp: pool_inv_def)
  have ok: "length buf = 1024" "n \<le> 1024"
    using assms(1,2) by (auto simp: pool_inv_def list_all_length in_state_def BUFFER_SIZE_def dest!: spec [of _ i])
  have s': "s' = set_thread i (Counting u r) (set_connection c (sending s r k)
      (s\<lparr>pool_server := srv1, pool_strings := pool_strings s @ [None]\<rparr>))"
    using assms(5) by simp
  have "pending (threads s') = [(u, GetResponseCode r)]"
  proof -
    have i: "i < length (threads s)" using assms(2) by (simp add: in_state_def)
    have "pending ((threads s)[i := Counting u r]) =
        pending (take i (threads s)) @ (u, GetResponseCode r) # pending (drop (Suc i) (threads s))"
      using i by (simp add: upd_conv_take_nth_drop)
    moreover have "pending (take i (threads s)) @ pending (drop i (threads s)) = []"
      using assms(4) by (metis append_take_drop_id pending_append)
    moreover have "drop i (threads s) = In_read c buf n # drop (Suc i) (threads s)"
      using assms(2) by (metis Cons_nth_drop_Suc in_state_def)
    ultimately show ?thesis by (simp add: s')
  qed
  then have ser: "serial s' = (case count_response u r srv1 of Inl ft \<Rightarrow> Crashed ft
      | Inr srv2 \<Rightarrow> Running (set_phase c (Writing (Response_ToString r)) (?s\<lparr>server := srv2\<rparr>)))"
    by (auto simp: serial_def s' count_code_response set_phase_def map_update outcome_bind_def split: sum.split)
  have "complete_read e a c False buf n ?s = Some (serial s')"
    unfolding ser complete_read_def using assms(3)
    by (cases "count_response u r srv1") (simp_all add: handle_read_parts)
  then have "step e a (Running ?s) (serial s')"
    using read_step [of c ?s buf n e a False] in_phase_serial [OF h] ok by simp
  then show ?thesis by (simp add: s)
qed

text \<open>A handler that throws ends the process, before or after the request of another thread is counted.\<close>

lemma serial_throw:
  assumes "pool_inv srv s" "\<not> racy e a s" "in_state s i (In_read c buf n)"
    and "respond e a (pool_server s) buf n = Some (Inl ft)"
  shows "\<exists>ft'. (step e a)\<^sup>*\<^sup>* (serial s) (Crashed ft')"
proof (cases "count_all (pending (threads s)) (pool_server s)")
  case (Inl ft')
  then show ?thesis by (auto simp: serial_def)
next
  case (Inr srv1)
  let ?s = "\<lparr>server = srv1, accepting = pool_accepting s, connections = map serial_phase (pool_connections s)\<rparr>"
  have h: "in_phase s c Handling" using one_readerE assms(1,3) by (auto simp: pool_inv_def)
  have ok: "length buf = 1024" "n \<le> 1024"
    using assms(1,3) by (auto simp: pool_inv_def list_all_length in_state_def BUFFER_SIZE_def dest!: spec [of _ i])
  have "respond e a srv1 buf n = Some (Inl ft)"
  proof (cases "pending (threads s) = []")
    case True
    then show ?thesis using Inr assms(4) by simp
  next
    case False
    have same: "count_all l srv = Inr srv' \<Longrightarrow> server_handlers srv' = server_handlers srv" for l srv srv'
      by (induction l srv rule: count_all.induct) (auto dest: count_code_keeps)
    show ?thesis
      by (rule respond_early [OF no_status_read [OF assms(2,3) False] same [OF Inr] assms(4)])
  qed
  then have "complete_read e a c False buf n ?s = Some (Crashed ft)"
    by (simp add: complete_read_def handle_read_parts)
  then have "step e a (Running ?s) (Crashed ft)"
    using read_step [of c ?s buf n e a False] in_phase_serial [OF h] ok by simp
  then show ?thesis using Inr by (auto simp: serial_def)
qed

lemma serial_count:
  assumes "\<not> racy e a s" "in_state s i (Counting u r)"
  shows "(case begin_count i u r s of Serving s' \<Rightarrow> serial s' = serial s
    | Aborted ft \<Rightarrow> serial s = Crashed ft | Exit n \<Rightarrow> False)"
proof -
  note p = one_counts [OF assms, simplified]
  show ?thesis
  proof (cases "GetResponseCode r")
    case (Inl ft)
    then show ?thesis using p by (simp add: begin_count_def serial_def count_code_def)
  next
    case (Inr code)
    have i: "i < length (threads s)" using assms(2) by (simp add: in_state_def)
    have "pending ((threads s)[i := Storing u code st]) = [(u, Inr code)]" for st
      using p i by (simp add: upd_conv_take_nth_drop)
    then show ?thesis using p Inr by (simp add: begin_count_def serial_def split: sum.split)
  qed
qed

lemma serial_store:
  assumes "quiet_inv srv s" "\<not> racy e a s" "in_state s i (Storing u code st)"
  shows "serial (finish_count i u code st s) = serial s"
  using one_counts [OF assms(2,3)] stored_current [OF assms(1,3)]
  by (simp add: finish_count_def serial_def count_code_def)

lemma serial_exit:
  "in_state s i Waiting \<Longrightarrow> serial (set_thread i Exited s) = serial s"
  using pending_update [of s i Waiting Exited] by (simp add: serial_def split: sum.split)

lemma serial_finish_response:
  assumes "pool_inv srv s" "\<not> racy e a s" "in_state s i (In_read c buf n)"
    and "respond e a (pool_server s) buf n = Some out" "race_free e a (finish_response i c k out s)"
  shows "\<exists>q. (step e a)\<^sup>*\<^sup>* (serial s) q \<and>
    (case finish_response i c k out s of Serving s' \<Rightarrow> q = serial s' | Aborted ft \<Rightarrow> (\<exists>ft'. q = Crashed ft') | Exit n \<Rightarrow> True)"
proof (cases out)
  case (Inl ft)
  then show ?thesis using serial_throw [OF assms(1-3)] assms(4) by auto
next
  case (Inr t)
  obtain u r srv1 where out: "out = Inr (u, r, srv1)" using Inr by (cases t) auto
  then obtain s' where s': "finish_response i c k out s = Serving s'" by simp
  have "in_state s' i (Counting u r)" "\<not> racy e a s'"
    using assms(3,5) s' by (auto simp: out in_state_def race_free_def)
  from one_counts [OF this(2,1)] have "pending ((threads s')[i := Waiting]) = []" by simp
  moreover have "(threads s')[i := Waiting] = (threads s)[i := Waiting]"
    using s' by (auto simp: out)
  ultimately have "pending (threads s) = []"
    using pending_update [OF assms(3), of Waiting] by simp
  from serial_respond [OF assms(1,3) assms(4) [unfolded out] this s' [unfolded out]] s' show ?thesis by auto
qed

lemma quiet_keeps:
  assumes "quiet_step e a (Serving s) (Serving s')" "quiet_inv srv s"
  shows "quiet_inv srv s'"
  using quiet_inv_callback [OF _ _ assms(2)] assms(1) by (auto simp: quiet_step_def race_free_def)

interpretation threads: simulation "quiet_step e a" "step e a" "represents srv" for e a srv
proof
  fix p p' q
  assume quiet: "quiet_step e a p p'" and rel: "represents srv p q"
  then have cb: "callback e a p p'" and free: "race_free e a p" "race_free e a p'"
    by (simp_all add: quiet_step_def)
  obtain s where p: "p = Serving s" using cb by (cases p) auto
  then have q: "q = serial s" and s: "quiet_inv srv s" "\<not> racy e a s" and inv: "pool_inv srv s"
    using rel free(1) by (auto simp: represents_def quiet_inv_def race_free_def)
  have keeps: "\<forall>s'. p' = Serving s' \<longrightarrow> quiet_inv srv s'" using quiet_keeps [OF _ s(1)] quiet p by blast
  have "\<exists>q'. (step e a)\<^sup>*\<^sup>* (serial s) q' \<and> (case p' of Serving s' \<Rightarrow> q' = serial s'
      | Aborted ft \<Rightarrow> (\<exists>ft'. q' = Crashed ft') | Exit n \<Rightarrow> True)"
    using cb unfolding p
  proof cases
    case (accepts i error)
    then show ?thesis using serial_accept [of s e a error] by auto
  next
    case (begins i c buf n error)
    then show ?thesis using serial_begin [of s i c buf n e a error] by auto
  next
    case (responds i c buf n out k)
    then show ?thesis using serial_finish_response [OF inv s(2)] free(2) by blast
  next
    case (counts i u r)
    then show ?thesis using serial_count [OF s(2) counts(2)] by (auto split: program.splits)
  next
    case (stores i u code st)
    then show ?thesis using serial_store [OF s stores(2)] by auto
  next
    case continues
    then show ?thesis using no_continues [OF inv] by simp
  next
    case (writes i c t p k)
    then show ?thesis using serial_write [of s c t p k e a] by auto
  next
    case (exits i)
    then show ?thesis using serial_exit [of s i] by auto
  qed auto
  then show "\<exists>q'. (step e a)\<^sup>*\<^sup>* q q' \<and> represents srv p' q'"
    using keeps by (auto simp: q represents_def)
qed

lemma serial_run: "serial (Server_run srv) = Running (started srv)"
proof -
  have "pending (replicate n Waiting) = []" for n by (simp add: pending_none)
  then show ?thesis by (simp add: serial_def Server_run_def started_def start_accept_def)
qed

lemma quiet_inv_run: "server_inv srv \<Longrightarrow> quiet_inv srv (Server_run srv)"
  by (simp add: quiet_inv_def pool_inv_run) (simp add: Server_run_def settled_def counted_def)

lemma quiet_runs:
  assumes "(quiet_step e a)\<^sup>*\<^sup>* (Serving (Server_run srv)) p" "server_inv srv"
  obtains q where "reachable e a srv q" "represents srv p q"
proof -
  have "represents srv (Serving (Server_run srv)) (Running (started srv))"
    by (simp add: represents_def quiet_inv_run [OF assms(2)] serial_run)
  from threads.runs [OF assms(1) this] that show thesis by (auto simp: reachable_def)
qed

lemma quiet_run:
  assumes "(quiet_step e a)\<^sup>*\<^sup>* (Serving (Server_run srv)) p" "server_inv srv"
  shows "(\<forall>s. p = Serving s \<longrightarrow> reachable e a srv (serial s)) \<and>
    (\<forall>ft. p = Aborted ft \<longrightarrow> (\<exists>ft'. reachable e a srv (Crashed ft')))"
  by (rule quiet_runs [OF assms]) (auto simp: represents_def)

lemma quiet_reachable_inv:
  assumes "(quiet_step e a)\<^sup>*\<^sup>* (Serving (Server_run srv)) (Serving s)" "server_inv srv"
  shows "quiet_inv srv s"
  by (rule quiet_runs [OF assms]) (simp add: represents_def)

end
