(* ===== verification/Threads_Progress.thy ===== *)
theory Threads_Progress
  imports Threads_Safety
begin

text \<open>
  What the threads can do and cannot: one that waits is enough to answer a connection, whatever the others
  are held up with; five requests to a \<open>HoldingHandler\<close> hold up all of them; two requests race for the
  counters, and one of them can be lost; a text that the socket does not take at once is read again after it
  is destroyed; the server accepts until an accept fails.
\<close>

section \<open>Where a request goes\<close>

lemma route_request:
  assumes "request_ok m u maj mnr hs" "''Referer'' \<notin> (\<lambda>f. fst (field_pair f)) ` set hs"
    and "find_handler (server_handlers srv) u = Some (k, h)" "take n buf = request_text m u maj mnr hs b"
  shows "route a srv buf n = Inr ((parsed_request m u maj mnr hs b)\<lparr>request_status := Some a\<rparr>, k, h)"
proof -
  let ?q = "(parsed_request m u maj mnr hs b)\<lparr>request_status := Some a\<rparr>"
  have "Request_Parse_status (take n buf) (Some a) = Inr ?q"
    using run_request [OF assms(1)] assms(4)
    by (simp add: Request_Parse_status_def Request_Parse_def setServerStatus_def)
  moreover have q: "request_headers ?q = map field_pair hs" "uri ?q = u" by (simp_all add: parsed_request_def)
  moreover have "''Referer'' \<notin> fst ` set (request_headers ?q)" using assms(2) unfolding q(1) set_map image_image .
  ultimately show ?thesis
    using assms(3) by (simp add: route_def referer_prefix_none choose_handler_def)
qed

lemma respond_echo:
  assumes "route a srv buf n = Inr (q, k, Echo_object h)"
  shows "\<exists>r. respond e a srv buf n = Some (Inr (uri q, r, srv\<lparr>server_handlers := map_put k (Echo_object h) (server_handlers srv)\<rparr>)) \<and>
    Response_ToString r = echo_text (raw_request q) \<and> raw_status r = Some OK_200"
proof -
  let ?r = "SetBody (raw_request q) (AddHeader CONTENT_TYPE ''text/plain'' (SetStatus OK_200 new_Response))"
  have "Response_ToString ?r = echo_text (raw_request q)"
    by (simp add: Response_ToString_def echo_text_def CRLF_def CONTENT_TYPE_def)
  then show ?thesis
    using assms by (intro exI [of _ ?r]) (simp add: respond_def EchoHandler_HandleRequest_def lift_handle_def)
qed

section \<open>One thread answers a connection\<close>

lemma in_state_sets [simp]:
  "in_state (set_connection c x s) i t = in_state s i t"
  "in_state (s\<lparr>pool_server := srv\<rparr>) i t = in_state s i t"
  "in_state (s\<lparr>pool_strings := l\<rparr>) i t = in_state s i t"
  "in_state (set_thread i t s) i t' \<longleftrightarrow> i < length (threads s) \<and> t = t'"
  by (auto simp: in_state_def)

lemma in_state_length: "in_state s i t \<Longrightarrow> i < length (threads s)"
  by (simp add: in_state_def)

lemma in_phase_server [simp]:
  "in_phase (s\<lparr>pool_server := srv\<rparr>) c x = in_phase s c x" "in_phase (s\<lparr>pool_strings := l\<rparr>) c x = in_phase s c x"
  by (simp_all add: in_phase_def)

lemma same_threads: "in_state s i t \<Longrightarrow> (threads s)[i := t] = threads s"
  by (auto simp: in_state_def)

lemma respond_returns:
  assumes "\<And>q k h. route a srv buf n = Inr (q, k, h) \<Longrightarrow> class_of h \<noteq> HoldingHandler"
    and "files_end e" "redirects_end e"
  shows "\<exists>out. respond e a srv buf n = Some out"
proof (cases "route a srv buf n")
  case (Inr t)
  obtain q k h where t: "t = (q, k, h)" by (cases t)
  have "ends (HandleRequest (with_status a (server_status_object srv) e) h q (Some new_Response))"
    using assms Inr t by (intro HandleRequest_ends) simp_all
  then show ?thesis using Inr t by (auto simp: respond_def ends_def)
qed (simp add: respond_def)

text \<open>
  The whole text, if the socket takes it; the outcome is that of \<open>handle_read\<close>.
\<close>

definition answered_alone :: "environment \<Rightarrow> nat \<Rightarrow> nat \<Rightarrow> pool \<Rightarrow> (bool \<times> string option \<times> Server) outcome \<Rightarrow> thread list \<Rightarrow> bool" where
  "answered_alone e a c s out ts \<longleftrightarrow>
     (case out of
        Inl ft \<Rightarrow> (callback e a)\<^sup>*\<^sup>* (Serving s) (Aborted ft)
      | Inr (ok, reply, srv) \<Rightarrow>
          (\<exists>s' t. (callback e a)\<^sup>*\<^sup>* (Serving s) (Serving s') \<and> ok \<and> reply = Some t \<and> pool_server s' = srv \<and>
             in_phase s' c (Over (Some (t, length t))) \<and> threads s' = ts))"

text \<open>From the response to the end of the count, and the write.\<close>

lemma count_runs:
  assumes "in_state s i (Counting u r)" "GetResponseCode r = Inr code"
  shows "(callback e a)\<^sup>*\<^sup>* (Serving s) (Serving (set_thread i Waiting (s\<lparr>pool_server :=
    (pool_server s)\<lparr>server_status_object := UpdateStatus u code (server_status_object (pool_server s))\<rparr>\<rparr>)))"
proof -
  let ?t = "Storing u code (server_status_object (pool_server s))"
  have 1: "callback e a (Serving s) (Serving (set_thread i ?t s))"
    using counts [OF assms(1), of e a] assms(2) by (simp add: begin_count_def)
  have "in_state (set_thread i ?t s) i ?t" using in_state_length [OF assms(1)] by simp
  from stores [OF this, of e a] have 2: "callback e a (Serving (set_thread i ?t s)) (Serving (set_thread i Waiting
      (s\<lparr>pool_server := (pool_server s)\<lparr>server_status_object := UpdateStatus u code (server_status_object (pool_server s))\<rparr>\<rparr>)))"
    by (simp add: finish_count_def set_thread_def)
  from 1 2 show ?thesis by (rule converse_rtranclp_into_rtranclp [OF _ r_into_rtranclp])
qed

lemma answer_runs:
  assumes "in_state s i (In_read c buf n)" "in_phase s c x" "handle_read e a (pool_server s) False buf n = Some out"
  shows "answered_alone e a c s out ((threads s)[i := Waiting])"
proof -
  obtain res where res: "respond e a (pool_server s) buf n = Some res"
    and out: "out = outcome_bind res (\<lambda>(u, r, srv').
      outcome_bind (count_response u r srv') (\<lambda>srv''. Inr (True, Some (Response_ToString r), srv'')))"
    using assms(3) by (auto simp: handle_read_parts)
  show ?thesis
  proof (cases res)
    case (Inl ft)
    then have "callback e a (Serving s) (Aborted ft)" using responds [OF assms(1) res, of 0] by simp
    then show ?thesis using Inl by (simp add: out answered_alone_def)
  next
    case (Inr t)
    obtain u r srv1 where t: "t = (u, r, srv1)" by (cases t)
    let ?t = "Response_ToString r"
    let ?s = "s\<lparr>pool_server := srv1, pool_strings := pool_strings s @ [None]\<rparr>"
    let ?s1 = "set_thread i (Counting u r) (set_connection c (sending s r (length ?t)) ?s)"
    have i: "i < length (threads s)" by (rule in_state_length [OF assms(1)])
    have c: "c < length (pool_connections s)" using assms(2) by (simp add: in_phase_def)
    have 1: "callback e a (Serving s) (Serving ?s1)" using responds [OF assms(1) res, of "length ?t"] by (simp add: Inr t)
    have s1: "in_state ?s1 i (Counting u r)" using i by simp
    show ?thesis
    proof (cases "GetResponseCode r")
      case (Inl ft)
      then have "callback e a (Serving ?s1) (Aborted ft)" using counts [OF s1, of e a] by (simp add: begin_count_def)
      with 1 have "(callback e a)\<^sup>*\<^sup>* (Serving s) (Aborted ft)"
        by (rule converse_rtranclp_into_rtranclp [OF _ r_into_rtranclp])
      then show ?thesis using Inl by (simp add: out \<open>res = Inr t\<close> t answered_alone_def count_response_def)
    next
      case (Inr code)
      let ?srv = "srv1\<lparr>server_status_object := UpdateStatus u code (server_status_object srv1)\<rparr>"
      let ?s2 = "set_thread i Waiting (?s1\<lparr>pool_server := ?srv\<rparr>)"
      let ?s3 = "snd (finish_write c ?t (length ?t) ?s2)"
      have 2: "(callback e a)\<^sup>*\<^sup>* (Serving ?s1) (Serving ?s2)" using count_runs [OF s1 Inr, of e a] by simp
      have "in_phase ?s2 c (sending s r (length ?t))" using c by simp
      then have 3: "callback e a (Serving ?s2) (Serving ?s3)" by (intro writes [of _ i]) (simp_all add: i)
      have "(callback e a)\<^sup>*\<^sup>* (Serving s) (Serving ?s3)"
        using 1 2 3 by (meson converse_rtranclp_into_rtranclp rtranclp.rtrancl_into_rtrancl)
      moreover have "in_phase ?s3 c (Over (Some (?t, length ?t)))" "threads ?s3 = (threads s)[i := Waiting]"
        "pool_server ?s3 = ?srv"
        using c by (simp_all add: finish_write_def)
      ultimately show ?thesis using Inr by (auto simp: out \<open>res = Inr t\<close> t answered_alone_def count_response_def)
    qed
  qed
qed

lemma thread_answers:
  assumes "in_state s i Waiting" "in_phase s c Receiving" "handle_read e a (pool_server s) False buf n = Some out"
  shows "answered_alone e a c (begin_read i c False buf n s) out (threads s)"
proof -
  let ?s = "begin_read i c False buf n s"
  have c: "c < length (pool_connections s)" using assms(2) by (simp add: in_phase_def)
  have s: "in_state ?s i (In_read c buf n)" "in_phase ?s c Handling" "pool_server ?s = pool_server s"
    using in_state_length [OF assms(1)] c by (simp_all add: begin_read_def)
  have "(threads ?s)[i := Waiting] = threads s" using same_threads [OF assms(1)] by (simp add: begin_read_def)
  then show ?thesis using answer_runs [OF s(1,2), of e a out] assms(3) s(3) by simp
qed

text \<open>A handler that does not return keeps its thread.\<close>

lemma thread_stays:
  assumes "in_state s i (In_read c buf n)" "respond e a (pool_server s) buf n = None"
    and "callback e a (Serving s) (Serving s')"
  shows "in_state s' i (In_read c buf n)"
proof -
  have i: "i < length (threads s)" "threads s ! i = In_read c buf n" using assms(1) by (simp_all add: in_state_def)
  have other: "i \<noteq> j" if "in_state s j t" "t \<noteq> In_read c buf n" for j t
    using that i(2) by (auto simp: in_state_def)
  show ?thesis
    using assms(3)
  proof (rule callback_Serving, goal_cases)
    case (3 j d buf' n' out k)
    then obtain u r srv where "out = Inr (u, r, srv)" by (cases out) auto
    moreover have "j \<noteq> i" using 3(2,3) assms(2) i by (auto simp: in_state_def)
    ultimately show ?case using 3(1) i by (simp add: in_state_def)
  qed (use i other in \<open>auto simp: in_state_def accept_connection_def Connection_start_def Let_def begin_read_def begin_count_def
      finish_count_def finish_write_def continue_write_def async_write_def nth_list_update split: sum.splits\<close>)
qed

text \<open>The routes stay what they were at the start, so an echo path stays one.\<close>

lemma echo_route_kept:
  assumes "same_routes srv srv'" "longest_match (server_handlers srv) u p"
    and "map_find (server_handlers srv) p = Some (Echo_object h)"
  shows "longest_match (server_handlers srv') u p \<and> (\<exists>h'. map_find (server_handlers srv') p = Some (Echo_object h'))"
proof -
  have kind: "map_option class_of (map_find (server_handlers srv') k) = map_option class_of (map_find (server_handlers srv) k)" for k
    using assms(1) by (simp add: same_routes_def)
  then have same: "map_find (server_handlers srv') k \<noteq> None \<longleftrightarrow> map_find (server_handlers srv) k \<noteq> None" for k
    by (metis option.map_disc_iff)
  obtain g where g: "map_find (server_handlers srv') p = Some g" "class_of g = EchoHandler"
    using kind [of p] assms(3) by auto
  then obtain h' where "g = Echo_object h'" by (cases g) auto
  then show ?thesis using assms(2) g(1) unfolding longest_match_def same by blast
qed

section \<open>All threads held up\<close>

lemma holding_respond:
  assumes "route a srv buf n = Inr (q, k, h)" "class_of h = HoldingHandler"
  shows "respond e a srv buf n = None"
  using assms by (cases h) (auto simp: respond_def HoldingHandler_HandleRequest_def lift_handle_def)

text \<open>A thread in a handler that holds: it does nothing any more and touches nothing shared.\<close>

definition held :: "nat \<Rightarrow> Server \<Rightarrow> thread \<Rightarrow> bool" where
  "held a srv t \<longleftrightarrow> (\<exists>c buf n q k h. t = In_read c buf n \<and> route a srv buf n = Inr (q, k, h) \<and> class_of h = HoldingHandler)"

lemma held_accesses: "held a srv t \<Longrightarrow> accesses e a srv t = []"
  by (auto simp: held_def split: handler.split)

lemma all_held:
  assumes "threads s \<noteq> []" "\<forall>t \<in> set (threads s). held a (pool_server s) t"
  shows "\<not> pool_step e a (Serving s) p"
proof -
  have held: "held a (pool_server s) t" if "in_state s i t" for i t
    using assms(2) that by (auto simp: in_state_def)
  have wait: "\<not> in_state s i Waiting" "\<not> in_state s i (Counting u r)"
    "\<not> in_state s i (Storing u code st)" for i u r code st
    using held by (auto simp: held_def)
  have "\<not> callback e a (Serving s) p"
  proof
    assume "callback e a (Serving s) p"
    then show False
    proof cases
      case (responds i c buf n out k)
      then show False using held holding_respond by (fastforce simp: held_def)
    next
      case returns
      then have "Exited \<in> set (threads s)" using assms(1) by (cases "threads s") auto
      then show False using assms(2) by (auto simp: held_def)
    qed (use wait in auto)
  qed
  moreover have "\<not> goes_wrong e a (Serving s) p"
  proof
    assume "goes_wrong e a (Serving s) p"
    then show False
    proof cases
      case races
      then obtain i j where "i < j" "j < length (threads s)"
        "conflict (accesses e a (pool_server s) (threads s ! i)) (accesses e a (pool_server s) (threads s ! j))"
        by (auto simp: racy_def list_ex_iff)
      then show False using assms(2) held_accesses by (simp add: conflict_def)
    qed (use wait in auto)
  qed
  ultimately show ?thesis by (simp add: pool_step_def)
qed

text \<open>As many connections as threads, each with a request that is held.\<close>

definition holding_pool :: "Server \<Rightarrow> string \<Rightarrow> nat \<Rightarrow> nat \<Rightarrow> pool" where
  "holding_pool srv buf n m = \<lparr>pool_server = srv, pool_accepting = True,
     pool_connections = replicate m Handling,
     threads = map (\<lambda>j. In_read j buf n) [0..<m] @ replicate (NUM_OF_THREADS - m) Waiting, pool_strings = []\<rparr>"

lemma holding_pool_next:
  assumes "m < NUM_OF_THREADS" "length buf = BUFFER_SIZE" "n \<le> BUFFER_SIZE"
  shows "(callback e a)\<^sup>*\<^sup>* (Serving (holding_pool srv buf n m)) (Serving (holding_pool srv buf n (Suc m)))"
proof -
  let ?s = "holding_pool srv buf n m"
  let ?s1 = "snd (accept_connection False ?s)"
  have w: "in_state ?s m Waiting" "in_state ?s1 m Waiting"
    using assms(1) by (simp_all add: in_state_def holding_pool_def nth_append accept_connection_def Connection_start_def Let_def)
  have 1: "callback e a (Serving ?s) (Serving ?s1)"
    by (rule accepts [OF w(1)]) (simp add: holding_pool_def)
  have "in_phase ?s1 m Receiving"
    by (simp add: in_phase_def holding_pool_def nth_append accept_connection_def Connection_start_def Let_def)
  from begins [OF w(2) this assms(2,3), of e a False]
  have 2: "callback e a (Serving ?s1) (Serving (begin_read m m False buf n ?s1))" .
  have t: "(map (\<lambda>j. In_read j buf n) [0..<m] @ replicate (NUM_OF_THREADS - m) Waiting)[m := In_read m buf n] =
      map (\<lambda>j. In_read j buf n) [0..<Suc m] @ replicate (NUM_OF_THREADS - Suc m) Waiting"
    using assms(1) by (simp add: list_update_append Suc_diff_Suc [symmetric])
  have c: "(replicate m Handling @ [Receiving])[m := Handling] = replicate (Suc m) Handling"
    by (simp add: list_update_append replicate_append_same)
  have "begin_read m m False buf n ?s1 = holding_pool srv buf n (Suc m)"
    by (simp add: begin_read_def set_thread_def set_connection_def accept_connection_def Connection_start_def
        Let_def holding_pool_def t c del: upt_Suc replicate_Suc)
  with 1 2 show ?thesis by (metis converse_rtranclp_into_rtranclp rtranclp.rtrancl_refl)
qed

lemma holding_run:
  assumes "length buf = BUFFER_SIZE" "n \<le> BUFFER_SIZE"
  shows "m \<le> NUM_OF_THREADS \<Longrightarrow> (callback e a)\<^sup>*\<^sup>* (Serving (Server_run srv)) (Serving (holding_pool srv buf n m))"
proof (induction m)
  case (Suc m)
  then show ?case using holding_pool_next [OF _ assms, of m e a srv] by (meson Suc_le_lessD less_imp_le rtranclp_trans)
qed (simp add: holding_pool_def Server_run_def)

lemma holding_stuck:
  assumes "route a srv buf n = Inr (q, k, h)" "class_of h = HoldingHandler"
  shows "\<not> pool_step e a (Serving (holding_pool srv buf n NUM_OF_THREADS)) p"
  by (rule all_held) (use assms in \<open>auto simp: holding_pool_def NUM_OF_THREADS_def held_def\<close>)

section \<open>Undefined behaviour that every server can run into\<close>

text \<open>The threads that have got a connection each, and the first of them a response.\<close>

lemma two_reads:
  assumes "length buf = BUFFER_SIZE" "n \<le> BUFFER_SIZE" "respond e a srv buf n = Some (Inr (u, r, srv'))"
  shows "\<exists>s. (callback e a)\<^sup>*\<^sup>* (Serving (Server_run srv)) (Serving s) \<and> pool_server s = srv' \<and>
    in_state s 0 (Counting u r) \<and> in_state s 1 (In_read 1 buf n) \<and> in_state s 2 Waiting \<and> pool_strings s = [None] \<and>
    pool_connections s = [Sending (Response_ToString r) 0 (min k (length (Response_ToString r))), Handling] \<and>
    filter is_counting (threads s) = [Counting u r]"
proof -
  let ?s = "holding_pool srv buf n 2"
  have "(callback e a)\<^sup>*\<^sup>* (Serving (Server_run srv)) (Serving ?s)"
    by (rule holding_run [OF assms(1,2)]) (simp add: NUM_OF_THREADS_def)
  moreover have s: "threads ?s = [In_read 0 buf n, In_read 1 buf n, Waiting, Waiting, Waiting]"
      "pool_connections ?s = [Handling, Handling]" "pool_strings ?s = []" "pool_server ?s = srv"
    by (simp_all add: holding_pool_def NUM_OF_THREADS_def numeral_2_eq_2 numeral_3_eq_3)
  then have "in_state ?s 0 (In_read 0 buf n)" by (simp add: in_state_def)
  from responds [OF this, of e a _ k] have "callback e a (Serving ?s) (finish_response 0 0 k (Inr (u, r, srv')) ?s)"
    using assms(3) s(4) by simp
  ultimately show ?thesis
    by (intro exI [of _ "set_thread 0 (Counting u r) (set_connection 0 (sending ?s r k)
        (?s\<lparr>pool_server := srv', pool_strings := pool_strings ?s @ [None]\<rparr>))"])
       (auto simp: in_state_def s)
qed

lemma callbacks_pool: "(callback e a)\<^sup>*\<^sup>* p q \<Longrightarrow> (pool_step e a)\<^sup>*\<^sup>* p q"
  by (rule rtranclp_mono [THEN predicate2D]) (auto simp: pool_step_def)

lemma wrong_reachable:
  assumes "(callback e a)\<^sup>*\<^sup>* (Serving (Server_run srv)) (Serving s)" "goes_wrong e a (Serving s) p"
  shows "pool_reachable e a srv p"
proof -
  have "pool_step e a (Serving s) p" using assms(2) by (simp add: pool_step_def)
  with callbacks_pool [OF assms(1)] show ?thesis
    unfolding pool_reachable_def by (rule rtranclp.rtrancl_into_rtrancl)
qed

text \<open>Two responses that are ready at the same time: both threads are about to count.\<close>

lemma two_counts:
  assumes "length buf = BUFFER_SIZE" "n \<le> BUFFER_SIZE"
    and "respond e a srv buf n = Some (Inr (u, r, srv'))" "respond e a srv' buf n = Some (Inr (v, w, srv''))"
  shows "\<exists>s. (callback e a)\<^sup>*\<^sup>* (Serving (Server_run srv)) (Serving s) \<and> pool_server s = srv'' \<and>
    in_state s 0 (Counting u r) \<and> in_state s 1 (Counting v w) \<and> filter has_answer (pool_connections s) = pool_connections s \<and>
    length (pool_connections s) = 2 \<and> filter is_counting (threads s) = [Counting u r, Counting v w]"
proof -
  obtain s where run: "(callback e a)\<^sup>*\<^sup>* (Serving (Server_run srv)) (Serving s)" and srv: "pool_server s = srv'"
    and 0: "in_state s 0 (Counting u r)" and 1: "in_state s 1 (In_read 1 buf n)"
    and c: "pool_connections s = [Sending (Response_ToString r) 0 (min 0 (length (Response_ToString r))), Handling]"
    and f: "filter is_counting (threads s) = [Counting u r]"
    using two_reads [OF assms(1-3)] by blast
  let ?s = "set_thread 1 (Counting v w) (set_connection 1 (sending s w 0)
      (s\<lparr>pool_server := srv'', pool_strings := pool_strings s @ [None]\<rparr>))"
  have "callback e a (Serving s) (Serving ?s)"
    using responds [OF 1, of e a "Inr (v, w, srv'')" 0] srv assms(4) by simp
  with run have "(callback e a)\<^sup>*\<^sup>* (Serving (Server_run srv)) (Serving ?s)" by simp
  moreover have t: "in_state ?s 0 (Counting u r)" "in_state ?s 1 (Counting v w)"
    using 0 1 by (simp_all add: in_state_def)
  moreover obtain x y l where "threads s = x # y # l"
    using 1 unfolding in_state_def by (metis One_nat_def length_0_conv length_Suc_conv less_nat_zero_code neq_Nil_conv not_less_eq)
  then have "filter is_counting (threads ?s) = [Counting u r, Counting v w]"
    using f 0 1 by (auto simp: in_state_def split: if_splits)
  ultimately show ?thesis by (intro exI [of _ ?s]) (simp add: c)
qed

lemma counters_race:
  assumes "length buf = BUFFER_SIZE" "n \<le> BUFFER_SIZE"
    and "respond e a srv buf n = Some (Inr (u, r, srv'))" "respond e a srv' buf n = Some (Inr (v, w, srv''))"
  shows "\<exists>s. (callback e a)\<^sup>*\<^sup>* (Serving (Server_run srv)) (Serving s) \<and> racy e a s \<and>
    in_state s 0 (Counting u r) \<and> in_state s 1 (Counting v w)"
proof -
  obtain s where run: "(callback e a)\<^sup>*\<^sup>* (Serving (Server_run srv)) (Serving s)"
    and t: "in_state s 0 (Counting u r)" "in_state s 1 (Counting v w)"
    using two_counts [OF assms] by blast
  have "conflict (accesses e a (pool_server s) (threads s ! 0)) (accesses e a (pool_server s) (threads s ! 1))"
    using t unfolding in_state_def by (simp add: conflict_def)
  moreover have "1 < length (threads s)" using t(2) unfolding in_state_def by blast
  ultimately have "racy e a s"
    unfolding racy_def list_ex_iff set_upt by (metis atLeastLessThan_iff less_one zero_le)
  with run t show ?thesis by blast
qed

text \<open>Both read the counters before either writes them: one of the two answers is not counted.\<close>

lemma count_lost:
  assumes "length buf = BUFFER_SIZE" "n \<le> BUFFER_SIZE"
    and "respond e a srv buf n = Some (Inr (u, r, srv'))" "respond e a srv' buf n = Some (Inr (v, w, srv''))"
    and "GetResponseCode r = Inr c" "GetResponseCode w = Inr d"
  shows "\<exists>s. (callback e a)\<^sup>*\<^sup>* (Serving (Server_run srv)) (Serving s) \<and>
    length (filter has_answer (pool_connections s)) = 2 \<and> filter is_counting (threads s) = [] \<and>
    server_status_object (pool_server s) = UpdateStatus v d (server_status_object srv)"
proof -
  obtain s where run: "(callback e a)\<^sup>*\<^sup>* (Serving (Server_run srv)) (Serving s)" and srv: "pool_server s = srv''"
    and 0: "in_state s 0 (Counting u r)" and 1: "in_state s 1 (Counting v w)"
    and con: "filter has_answer (pool_connections s) = pool_connections s" "length (pool_connections s) = 2"
    and f: "filter is_counting (threads s) = [Counting u r, Counting v w]"
    using two_counts [OF assms(1-4)] by blast
  have st: "server_status_object srv'' = server_status_object srv"
    using respond_keeps [OF assms(3)] respond_keeps [OF assms(4)] by simp
  let ?st = "server_status_object srv"
  let ?s1 = "set_thread 0 (Storing u c ?st) s"
  let ?s2 = "set_thread 1 (Storing v d ?st) ?s1"
  let ?s3 = "finish_count 0 u c ?st ?s2"
  let ?s4 = "finish_count 1 v d ?st ?s3"
  have len: "1 < length (threads s)" using 1 by (simp add: in_state_def)
  have "callback e a (Serving s) (Serving ?s1)"
    using counts [OF 0, of e a] by (simp add: begin_count_def assms(5) srv st)
  moreover have "in_state ?s1 1 (Counting v w)" using 1 by (simp add: in_state_def)
  from counts [OF this, of e a] have "callback e a (Serving ?s1) (Serving ?s2)"
    by (simp add: begin_count_def assms(6) srv st)
  moreover have "in_state ?s2 0 (Storing u c ?st)" using len by (cases "threads s") (auto simp: in_state_def)
  from stores [OF this] have "callback e a (Serving ?s2) (Serving ?s3)" .
  moreover have "in_state ?s3 1 (Storing v d ?st)" using len by (simp add: in_state_def finish_count_def)
  from stores [OF this] have "callback e a (Serving ?s3) (Serving ?s4)" .
  ultimately have "(callback e a)\<^sup>*\<^sup>* (Serving (Server_run srv)) (Serving ?s4)"
    using run by (meson rtranclp.rtrancl_into_rtrancl)
  moreover obtain x y l where l: "threads s = x # y # l"
    using len by (metis One_nat_def length_0_conv length_Suc_conv less_nat_zero_code neq_Nil_conv not_less_eq)
  then have "filter is_counting (threads ?s4) = []"
    using f 0 1 by (auto simp: in_state_def finish_count_def)
  ultimately show ?thesis using con by (intro exI [of _ ?s4]) (simp add: finish_count_def)
qed

text \<open>A response that the socket takes only a part of, and another thread that goes on with it.\<close>

lemma text_dangles:
  assumes "length buf = BUFFER_SIZE" "n \<le> BUFFER_SIZE"
    and "respond e a srv buf n = Some (Inr (u, r, srv'))" "k < length (Response_ToString r)"
  shows "\<exists>s. (callback e a)\<^sup>*\<^sup>* (Serving (Server_run srv)) (Serving s) \<and>
    in_phase s 0 (Sending (Response_ToString r) 0 k) \<and> in_state s 2 Waiting"
proof -
  obtain s where "(callback e a)\<^sup>*\<^sup>* (Serving (Server_run srv)) (Serving s)" "in_state s 2 Waiting"
    "pool_connections s = [Sending (Response_ToString r) 0 (min k (length (Response_ToString r))), Handling]"
    using two_reads [OF assms(1-3), of k] by blast
  then show ?thesis using assms(4) by (intro exI [of _ s]) (simp add: in_phase_def)
qed

lemma sent_is_gone:
  assumes "pool_reachable e a srv (Serving s)" "server_inv srv"
  shows "read_string p s = Inl Undefined_behaviour" "continue_write c p k j s = Inl Undefined_behaviour"
  using no_string [of s] pool_reachable_inv [OF assms] by (simp_all add: pool_inv_def)

section \<open>Accepting\<close>

text \<open>The step that completes an accept with an error.\<close>

definition accept_fails :: "program \<Rightarrow> program \<Rightarrow> bool" where
  "accept_fails p p' \<longleftrightarrow> (\<exists>s. p = Serving s \<and> pool_accepting s \<and> p' = Serving (snd (accept_connection True s)))"

definition accepts_on :: "program \<Rightarrow> bool" where
  "accepts_on p \<longleftrightarrow>
     (case p of
        Serving s \<Rightarrow> pool_accepting s \<and> threads s \<noteq> [] \<and> Exited \<notin> set (threads s)
      | Aborted ft \<Rightarrow> True
      | Exit n \<Rightarrow> False)"

lemma keeps_accepting:
  assumes "callback e a (Serving s) p'" "\<not> accept_fails (Serving s) p'" "accepts_on (Serving s)"
  shows "accepts_on p'"
  using assms(1)
proof cases
  case (accepts i error)
  then show ?thesis
    using assms(2,3)
    by (cases error) (auto simp: accept_fails_def accepts_on_def accept_connection_def Connection_start_def Let_def)
next
  case (responds i c buf n out k)
  then show ?thesis using assms(3) by (cases out) (auto simp: accepts_on_def dest: set_update_other)
next
  case (exits i)
  then show ?thesis using assms(3) by (simp add: accepts_on_def no_work_def)
next
  case returns
  then show ?thesis using assms(3) by (cases "threads s") (auto simp: accepts_on_def)
qed (use assms(3) in \<open>auto simp: accepts_on_def begin_read_def begin_count_def finish_count_def finish_write_def
    continue_write_def async_write_def split: sum.splits dest: set_update_other\<close>)

interpretation accepting: invariant "\<lambda>p p'. pool_step e a p p' \<and> \<not> accept_fails p p'" accepts_on for e a
proof
  fix p p' assume "pool_step e a p p' \<and> \<not> accept_fails p p'" "accepts_on p"
  then show "accepts_on p'"
    by (cases p) (auto simp: pool_step_def goes_wrong_iff keeps_accepting, auto simp: accepts_on_def)
qed

text \<open>After an accept has failed no connection is accepted any more.\<close>

definition accepted_at :: "nat \<Rightarrow> program \<Rightarrow> bool" where
  "accepted_at m p \<longleftrightarrow> (\<forall>s. p = Serving s \<longrightarrow> \<not> pool_accepting s \<and> length (pool_connections s) = m)"

lemma stays_closed:
  assumes "callback e a (Serving s) (Serving s')" "accepted_at m (Serving s)"
  shows "accepted_at m (Serving s')"
  using assms(1)
proof (rule callback_Serving, goal_cases)
  case (3 i c buf n out k)
  then show ?case using assms(2) by (cases out) (auto simp: accepted_at_def)
qed (use assms(2) in \<open>auto simp: accepted_at_def begin_read_def begin_count_def finish_count_def finish_write_def
    continue_write_def async_write_def split: sum.splits\<close>)

interpretation closed: invariant "pool_step e a" "accepted_at m" for e a m
proof
  fix p p' assume "pool_step e a p p'" "accepted_at m p"
  then show "accepted_at m p'"
    by (cases p; cases p') (auto simp: pool_step_def goes_wrong_iff stays_closed, auto simp: accepted_at_def)
qed

lemma accepts_on_run: "accepts_on (Serving (Server_run srv))"
  by (simp add: accepts_on_def Server_run_def NUM_OF_THREADS_def)

end
