(* ===== verification/Markdown_Debug.thy ===== *)
theory Markdown_Debug
  imports Markdown_Document
begin

text \<open>
  What the converter has for debugging, \<open>writeToken\<close> of the tokens and \<open>writeTokens\<close> of a document,
  which the server does not call, and the constructor that reads a stream.
\<close>

section \<open>Reading in the constructor\<close>

definition Document_on :: "regex \<Rightarrow> string \<Rightarrow> nat \<Rightarrow> Document" where
  "Document_on rx src spacesPerTab = snd (Document_read rx src (new_Document\<lparr>cSpacesPerTab := spacesPerTab\<rparr>))"

section \<open>Dumping tokens\<close>

fun containerName :: "Token \<Rightarrow> string" where
  "containerName (Container _) = ''Container''"
| "containerName (InlineHtmlBlock _ _) = ''InlineHtmlBlock''"
| "containerName (ListItem _ _) = ''ListItem''"
| "containerName (UnorderedList _) = ''UnorderedList''"
| "containerName (OrderedList _) = ''OrderedList''"
| "containerName (BlockQuote _) = ''BlockQuote''"
| "containerName (Paragraph _) = ''Paragraph''"
| "containerName _ = []"

text \<open>A disabled marker writes nothing, not even the end of its line.\<close>

definition Marker_writeToken :: "Marker \<Rightarrow> string" where
  "Marker_writeToken m =
     (if mDisabled m then []
      else if mMatch m \<noteq> None then
        (let type = (if mSize m = 1 then ''italic'' else if mSize m = 2 then ''bold'' else ''italic&bold'') in
         if mOpenMarker m then ''Matched open-'' @ type @ '' marker'' @ [LF]
         else ''Matched close-'' @ type @ '' marker'' @ [LF])
      else if mOpenMarker m
      then ''Unmatched bold/italic open marker: '' @ replicate (mSize m) (mTokenCharacter m) @ [LF]
      else ''Unmatched bold/italic close marker: '' @ replicate (mSize m) (mTokenCharacter m) @ [LF])"

text \<open>\<open>writeToken(out)\<close>, of a token that holds no others.\<close>

fun token_line :: "Token \<Rightarrow> string" where
  "token_line (TextHolder s _ _) = ''TextHolder: '' @ s @ [LF]"
| "token_line (RawText s _) = ''RawText: '' @ s @ [LF]"
| "token_line (HtmlTag s) = ''HtmlTag: '' @ s @ [LF]"
| "token_line (HtmlAnchorTag s) = ''HtmlAnchorTag: '' @ s @ [LF]"
| "token_line (InlineHtmlContents s) = ''InlineHtmlContents: '' @ s @ [LF]"
| "token_line (InlineHtmlComment s) = ''InlineHtmlComment: '' @ s @ [LF]"
| "token_line (CodeBlock s) = ''CodeBlock: '' @ s @ [LF]"
| "token_line (CodeSpan s) = ''CodeSpan: '' @ s @ [LF]"
| "token_line (Header n s) = ''Header '' @ nat_to_string n @ '': '' @ s @ [LF]"
| "token_line (BlankLine s) = ''BlankLine: '' @ s @ [LF]"
| "token_line (EscapedCharacter c) = ''EscapedCharacter: '' @ [c] @ [LF]"
| "token_line (BoldOrItalicMarker m) = Marker_writeToken m"
| "token_line (Image alt url title) = ''Image: '' @ url @ [LF]"
| "token_line _ = ''Container: error!'' @ [LF]"

function writeToken :: "nat \<Rightarrow> Token \<Rightarrow> string" where
  "writeToken depth t =
     (case subTokens t of
        Some ts \<Rightarrow> replicate (depth * 2) SPACE @ containerName t @ [LF] @ concat (map (writeToken (depth + 1)) ts)
      | None \<Rightarrow> replicate (depth * 2) SPACE @ token_line t)"
  by pat_completeness auto
termination
  by (relation "measure (\<lambda>(_, t). size t)") (auto simp: subTokens_smaller)

declare writeToken.simps [simp del]

definition Document_writeTokens :: "regex \<Rightarrow> Document \<Rightarrow> (string \<times> Document) run" where
  "Document_writeTokens rx doc =
     run_bind (Document_process rx doc) (\<lambda>doc. ret (writeToken 0 (Container (mTokenContainer doc)), doc))"

section \<open>The dump as an outline\<close>

text \<open>Each token once, before the tokens it holds, with how deep it is.\<close>

function outline :: "nat \<Rightarrow> Token \<Rightarrow> (nat \<times> string) list" where
  "outline depth t =
     (case subTokens t of
        Some ts \<Rightarrow> (depth, containerName t @ [LF]) # concat (map (outline (Suc depth)) ts)
      | None \<Rightarrow> [(depth, token_line t)])"
  by pat_completeness auto
termination
  by (relation "measure (\<lambda>(_, t). size t)") (auto simp: subTokens_smaller)

declare outline.simps [simp del]

lemma concat_map_nested: "concat (map f (concat (map g xs))) = concat (map (\<lambda>x. concat (map f (g x))) xs)"
  by (induction xs) simp_all

lemma writeToken_outline:
  "writeToken d t = concat (map (\<lambda>(d, line). replicate (d * 2) SPACE @ line) (outline d t))"
proof (induction d t rule: writeToken.induct)
  case (1 d t)
  show ?case
  proof (cases "subTokens t")
    case None
    then show ?thesis by (simp add: writeToken.simps outline.simps)
  next
    case (Some ts)
    have "concat (map (writeToken (Suc d)) ts) =
        concat (map (\<lambda>(d, line). replicate (d * 2) SPACE @ line) (concat (map (outline (Suc d)) ts)))"
      using "1.IH" [OF Some] by (simp add: concat_map_nested cong: map_cong)
    with Some show ?thesis by (simp add: writeToken.simps [of d t] outline.simps [of d t])
  qed
qed

end
