(* ===== verification/Markdown_Reference.thy ===== *)
theory Markdown_Reference
  imports Markdown_Correct
begin

text \<open>
  A reference for documents of simple blocks, each followed by an empty line: paragraphs, headers of both
  kinds, horizontal rules and code blocks. The reference says what HTML each block stands for; the five
  passes over the document write just that, block after block.
\<close>

section \<open>Blocks and their HTML\<close>

datatype block =
    Plain "string list"
  | Hash string
  | Underlined string string
  | Ruler string
  | Code "string list"

fun block_lines :: "block \<Rightarrow> string list" where
  "block_lines (Plain ls) = ls"
| "block_lines (Hash l) = [l]"
| "block_lines (Underlined l u) = [l, u]"
| "block_lines (Ruler l) = [l]"
| "block_lines (Code ls) = map (\<lambda>l. spaces 4 @ l) ls"

text \<open>Which expression makes a line what it is.\<close>

definition cHash :: string where
  "cHash = ''^(#{1,6}) +(.*?) *#*$''"

definition cUnderline :: string where
  "cUnderline = backslashed ''^([-=])~1*$''"

definition cRuler :: string where
  "cRuler = backslashed ''^ {0,3}((?:-|~*|_) *){3,}$''"

definition no_list_or_quote :: "regex \<Rightarrow> string \<Rightarrow> bool" where
  "no_list_or_quote rx l \<longleftrightarrow>
     list_all (\<lambda>e. \<not> matches rx e l) [cUnorderedListExpression, cOrderedListExpression, cBlockQuoteExpression]"

fun block_ok :: "regex \<Rightarrow> block \<Rightarrow> bool" where
  "block_ok rx (Plain ls) \<longleftrightarrow> ls \<noteq> [] \<and> list_all (inert_line rx) ls \<and> inert_text rx (join_lines ls)"
| "block_ok rx (Hash l) \<longleftrightarrow> text_line rx l \<and> take 4 l \<noteq> spaces 4 \<and> matches rx cHash l"
| "block_ok rx (Underlined l u) \<longleftrightarrow> text_line rx l \<and> text_line rx u \<and> take 4 l \<noteq> spaces 4 \<and>
     \<not> matches rx cHash l \<and> matches rx cUnderline u"
| "block_ok rx (Ruler l) \<longleftrightarrow> text_line rx l \<and> take 4 l \<noteq> spaces 4 \<and> \<not> matches rx cHash l \<and> matches rx cRuler l"
| "block_ok rx (Code ls) \<longleftrightarrow> ls \<noteq> [] \<and> list_all (\<lambda>l. text_line rx (spaces 4 @ l)) ls \<and>
     no_head rx (spaces 4 @ hd ls) \<and> (length ls > 1 \<longrightarrow> no_head rx (spaces 4 @ ls ! 1)) \<and>
     no_list_or_quote rx (spaces 4 @ hd ls)"

text \<open>Two code blocks with an empty line between them are one.\<close>

fun is_code :: "block \<Rightarrow> bool" where
  "is_code (Code ls) = True"
| "is_code _ = False"

fun codes_apart :: "block list \<Rightarrow> bool" where
  "codes_apart (b # c # bs) \<longleftrightarrow> \<not> (is_code b \<and> is_code c) \<and> codes_apart (c # bs)"
| "codes_apart _ \<longleftrightarrow> True"

text \<open>An empty line is one, and nothing else.\<close>

definition empty_ok :: "regex \<Rightarrow> bool" where
  "empty_ok rx \<longleftrightarrow> isBlankLine rx [] \<and> \<not> matches rx cHtmlTokenStart [] \<and> \<not> matches rx cReference [] \<and>
     parseHtmlTag rx [] cStarts = None \<and> \<not> isHtmlCommentStart rx []"

definition header_html :: "regex \<Rightarrow> nat \<Rightarrow> string \<Rightarrow> string" where
  "header_html rx n s =
     ''<h'' @ nat_to_string n @ ''>'' @ encodeString rx text_flags s @ ''</h'' @ nat_to_string n @ ''>'' @ [LF]"

text \<open>The level and the text of a header.\<close>

definition hash_header :: "regex \<Rightarrow> string \<Rightarrow> nat \<times> string" where
  "hash_header rx l = (let m = the (rx_match rx cHash l) in (length (cap m 1), cap m 2))"

definition underline_level :: "regex \<Rightarrow> string \<Rightarrow> nat" where
  "underline_level rx u = (let m = the (rx_match rx cUnderline u) in if cap m 1 \<noteq> [] \<and> hd (cap m 1) = CHR ''='' then 1 else 2)"

fun block_html :: "regex \<Rightarrow> block \<Rightarrow> string" where
  "block_html rx (Plain ls) = ''<p>'' @ encodeString rx text_flags (join_lines ls) @ ''</p>'' @ [LF, LF]"
| "block_html rx (Hash l) = header_html rx (fst (hash_header rx l)) (snd (hash_header rx l))"
| "block_html rx (Underlined l u) = header_html rx (underline_level rx u) l"
| "block_html rx (Ruler l) = ''<hr/>''"
| "block_html rx (Code ls) =
     ''<pre><code>'' @ encodeString rx code_flags (concat (map (\<lambda>l. l @ [LF]) ls)) @ ''</code></pre>'' @ [LF, LF]"

definition document_lines :: "block list \<Rightarrow> string list" where
  "document_lines bs = concat (map (\<lambda>b. block_lines b @ [[]]) bs)"

section \<open>Reading and the first two passes\<close>

text \<open>Tokens that are neither merged, nor inline HTML, nor a reference.\<close>

definition quiet_token :: "regex \<Rightarrow> Token \<Rightarrow> bool" where
  "quiet_token rx t \<longleftrightarrow> (\<exists>s. Token_text t = Some s \<and> \<not> matches rx cHtmlTokenStart s \<and> \<not> matches rx cReference s \<and>
     parseHtmlTag rx s cStarts = None \<and> \<not> isHtmlCommentStart rx s)"

lemma merge_quiet: "list_all (quiet_token rx) ts \<Longrightarrow> mergeMultilineHtmlTags rx ts = ts"
  by (induction rx ts rule: mergeMultilineHtmlTags.induct) (auto simp: quiet_token_def)

lemma inline_quiet: "list_all (quiet_token rx) ts \<Longrightarrow> inline_loop ts rx processed ids = ret (processed @ ts, ids)"
proof (induction ts arbitrary: processed)
  case Nil
  then show ?case by (subst inline_loop.simps) simp
next
  case (Cons t ts)
  then obtain s where s: "Token_text t = Some s" "\<not> matches rx cReference s" "parseHtmlTag rx s cStarts = None"
    "\<not> isHtmlCommentStart rx s" by (auto simp: quiet_token_def)
  then have "parseInlineHtml rx (t # ts) = ret (None, t # ts)"
    "parseReference rx (t # ts) ids = (False, t # ts, ids)"
    by (simp_all add: parseInlineHtml_def parseReference_def matches_def)
  then have "inline_turn rx processed ids (t # ts) = ret (processed @ [t], ids, ts)"
    using s(1) by (simp add: inline_turn_def)
  with Cons show ?case by (subst inline_loop.simps) simp
qed

lemma quiet_lines: "list_all (text_line rx) ls \<Longrightarrow> list_all (quiet_token rx) (raw_lines ls)"
  by (auto simp: list_all_iff quiet_token_def text_line_def)

lemma quiet_empty: "empty_ok rx \<Longrightarrow> quiet_token rx (BlankLine [])"
  by (simp add: quiet_token_def empty_ok_def Token_text_def)

lemma block_text_lines: "block_ok rx b \<Longrightarrow> list_all (text_line rx) (block_lines b)"
  by (cases b) (auto simp: list_all_iff inert_line_def)

definition document_tokens :: "block list \<Rightarrow> Token list" where
  "document_tokens bs = concat (map (\<lambda>b. raw_lines (block_lines b) @ [BlankLine []]) bs)"

lemma read_blocks:
  assumes "empty_ok rx" "list_all (block_ok rx) bs"
  shows "read_document rx (lines_text (document_lines bs)) = new_Document\<lparr>mTokenContainer := document_tokens bs\<rparr>"
proof -
  have lines: "list_all (text_line rx) (block_lines b)" if "b \<in> set bs" for b
    using assms(2) that block_text_lines by (auto simp: list_all_iff)
  have "read_lines cSpacesPerInitialTab (lines_text (document_lines bs)) = document_lines bs"
  proof (rule read_lines_joined)
    show "\<forall>l \<in> set (document_lines bs). list_all line_char l"
      using lines by (auto simp: document_lines_def text_line_def list_all_iff)
  qed simp
  moreover have "map (line_token rx) (block_lines b) = raw_lines (block_lines b)" if "b \<in> set bs" for b
    using lines [OF that] by (auto simp: list_all_iff text_line_def line_token_def)
  then have "map (line_token rx) (document_lines bs) = document_tokens bs"
    using assms(1) by (auto simp: document_lines_def document_tokens_def map_concat line_token_def empty_ok_def
        intro!: arg_cong [of _ _ concat])
  ultimately show ?thesis by (simp add: read_document_def Document_read_def new_Document_def)
qed

lemma quiet_document:
  assumes "empty_ok rx" "list_all (block_ok rx) bs"
  shows "list_all (quiet_token rx) (document_tokens bs)"
  using assms(2)
proof (induction bs)
  case (Cons b bs)
  then show ?case
    using quiet_lines [OF block_text_lines, of rx b] quiet_empty [OF assms(1)] by (simp add: document_tokens_def)
qed (simp add: document_tokens_def)

section \<open>The blocks\<close>

lemma markup_blank [simp]: "markup_line (BlankLine s) = None"
  by (simp add: markup_line_def)

lemma blank_text [simp]: "Token_text (BlankLine s) = Some s"
  by (simp add: Token_text_def)

lemma block_blank: "blocks_loop (BlankLine s # ts) rx processed = blocks_loop ts rx (processed @ [BlankLine s])"
proof -
  have "parse_block rx (BlankLine s # ts) = ret (None, BlankLine s # ts)"
    by (simp add: parse_block_def parseHeader_def parseHorizontalRule_def parseListBlock_def list_start_def
        parseBlockQuote_def parseCodeBlock_def)
  then show ?thesis by (subst blocks_loop.simps) simp
qed

definition no_underline :: "regex \<Rightarrow> Token list \<Rightarrow> bool" where
  "no_underline rx ts \<longleftrightarrow> ts = [] \<or> Option.bind (markup_line (hd ts)) (rx_match rx cUnderline) = None"

lemma no_underline_simps [simp]:
  "no_underline rx []" "no_underline rx (BlankLine s # ts)"
  "no_underline rx (RawText l True # ts) \<longleftrightarrow> \<not> matches rx cUnderline l"
  by (simp_all add: no_underline_def matches_def)

lemma no_head_iff: "no_head rx l \<longleftrightarrow> \<not> matches rx cHash l \<and> \<not> matches rx cUnderline l \<and> \<not> matches rx cRuler l"
  by (simp add: no_head_def cHash_def cUnderline_def cRuler_def)

lemma parseHeader_none:
  assumes "\<not> matches rx cHash l" "no_underline rx ts"
  shows "parseHeader rx (RawText l True # ts) = (None, RawText l True # ts)"
  using assms by (cases ts) (simp_all add: parseHeader_def matches_def cHash_def no_underline_def cUnderline_def)

lemma parse_block_text:
  assumes "no_head rx l" "no_underline rx ts" "no_list_or_quote rx l"
  shows "parse_block rx (RawText l True # ts) = ret (parseCodeBlock (RawText l True # ts))"
proof -
  have "parseHeader rx (RawText l True # ts) = (None, RawText l True # ts)"
    using parseHeader_none assms(1,2) by (simp add: no_head_iff)
  moreover have "parseHorizontalRule rx (RawText l True # ts) = None"
    using assms(1) by (simp add: parseHorizontalRule_def no_head_iff cRuler_def)
  moreover have "parseListBlock rx False (RawText l True # ts) = ret (None, RawText l True # ts)"
    "parseBlockQuote rx (RawText l True # ts) = ret (None, RawText l True # ts)"
    using assms(3) by (simp_all add: parseListBlock_def list_start_def parseBlockQuote_def no_list_or_quote_def matches_def)
  ultimately show ?thesis by (simp add: parse_block_def)
qed

lemma block_plain_line:
  assumes "inert_line rx l" "no_underline rx ts"
  shows "blocks_loop (RawText l True # ts) rx processed = blocks_loop ts rx (processed @ [RawText l True])"
proof -
  have "fst (parseCodeBlock (RawText l True # ts)) = None"
    using assms(1) by (simp add: parseCodeBlock_def inert_line_def spaces_def numeral_eq_Suc)
  moreover have "no_head rx l" "no_list_or_quote rx l"
    using assms(1) by (simp_all add: inert_line_def no_list_or_quote_def)
  ultimately show ?thesis
    using parse_block_text [OF _ assms(2), of l]
    by (cases "parseCodeBlock (RawText l True # ts)") (subst blocks_loop.simps, simp)
qed

lemma block_plain:
  "list_all (inert_line rx) ls \<Longrightarrow> no_underline rx ts \<Longrightarrow>
   blocks_loop (raw_lines ls @ ts) rx processed = blocks_loop ts rx (processed @ raw_lines ls)"
proof (induction ls arbitrary: processed)
  case (Cons l ls)
  have "no_underline rx (raw_lines ls @ ts)"
    using Cons.prems by (cases ls) (simp_all add: inert_line_def no_head_iff)
  with Cons show ?case by (simp add: block_plain_line)
qed simp

lemma block_hash:
  assumes "matches rx cHash l"
  shows "blocks_loop (RawText l True # ts) rx processed =
    blocks_loop ts rx (processed @ [Header (fst (hash_header rx l)) (snd (hash_header rx l))])"
proof -
  obtain m where m: "rx_match rx cHash l = Some m" using assms by (auto simp: matches_def)
  then have "parse_block rx (RawText l True # ts) =
      ret (Some (Header (fst (hash_header rx l)) (snd (hash_header rx l))), RawText l True # ts)"
    by (simp add: parse_block_def parseHeader_def hash_header_def cHash_def Let_def)
  then show ?thesis by (subst blocks_loop.simps) simp
qed

lemma block_underlined:
  assumes "\<not> matches rx cHash l" "matches rx cUnderline u"
  shows "blocks_loop (RawText l True # RawText u True # ts) rx processed =
    blocks_loop ts rx (processed @ [Header (underline_level rx u) l])"
proof -
  obtain m where m: "rx_match rx cUnderline u = Some m" using assms(2) by (auto simp: matches_def)
  with assms(1) have "parse_block rx (RawText l True # RawText u True # ts) =
      ret (Some (Header (underline_level rx u) l), RawText u True # ts)"
    by (simp add: parse_block_def parseHeader_def underline_level_def cHash_def cUnderline_def matches_def Let_def)
  then show ?thesis by (subst blocks_loop.simps) simp
qed

lemma block_ruler:
  assumes "\<not> matches rx cHash l" "no_underline rx ts" "matches rx cRuler l"
  shows "blocks_loop (RawText l True # ts) rx processed = blocks_loop ts rx (processed @ [HtmlTag ''hr/''])"
proof -
  have "parse_block rx (RawText l True # ts) = ret (Some (HtmlTag ''hr/''), RawText l True # ts)"
    using parseHeader_none [OF assms(1,2)] assms(3) by (simp add: parse_block_def parseHorizontalRule_def cRuler_def)
  then show ?thesis by (subst blocks_loop.simps) simp
qed

text \<open>A code block takes its lines and leaves the loop on the empty line after it, which is skipped.\<close>

lemma code_line [simp]: "isCodeBlockLine (RawText (spaces 4 @ l) True # ts) = Some (l, ts)"
  by (simp add: spaces_def numeral_eq_Suc)

lemma code_lines:
  assumes "isCodeBlockLine ts = None"
  shows "code_block_lines (raw_lines (map (\<lambda>l. spaces 4 @ l) ls) @ ts) = (concat (map (\<lambda>l. l @ [LF]) ls), ts)"
proof (induction ls)
  case Nil
  then show ?case using assms by (simp add: code_block_lines.simps)
next
  case (Cons l ls)
  then show ?case by (subst code_block_lines.simps) (simp del: isCodeBlockLine.simps)
qed

lemma block_code:
  assumes "block_ok rx (Code ls)" "isCodeBlockLine ts = None"
  shows "blocks_loop (raw_lines (block_lines (Code ls)) @ BlankLine [] # ts) rx processed =
    blocks_loop ts rx (processed @ [CodeBlock (concat (map (\<lambda>l. l @ [LF]) ls))])"
proof -
  obtain l ks where ls: "ls = l # ks" using assms(1) by (cases ls) auto
  let ?ts = "raw_lines (map (\<lambda>l. spaces 4 @ l) ks) @ BlankLine [] # ts"
  have code: "isCodeBlockLine (BlankLine [] # ts) = None" using assms(2) by simp
  have "no_underline rx ?ts" using assms(1) by (cases ks) (simp_all add: ls no_head_iff)
  then have "parse_block rx (RawText (spaces 4 @ l) True # ?ts) = ret (parseCodeBlock (RawText (spaces 4 @ l) True # ?ts))"
    using assms(1) by (intro parse_block_text) (simp_all add: ls)
  moreover have "parseCodeBlock (RawText (spaces 4 @ l) True # ?ts) =
      (Some (CodeBlock (concat (map (\<lambda>l. l @ [LF]) ls))), BlankLine [] # ts)"
    using code_lines [OF code, of ls] by (simp add: parseCodeBlock_def ls spaces_def numeral_eq_Suc)
  ultimately show ?thesis by (subst blocks_loop.simps) (simp add: ls)
qed

fun block_tokens :: "regex \<Rightarrow> block \<Rightarrow> Token list" where
  "block_tokens rx (Plain ls) = raw_lines ls @ [BlankLine []]"
| "block_tokens rx (Hash l) = [Header (fst (hash_header rx l)) (snd (hash_header rx l)), BlankLine []]"
| "block_tokens rx (Underlined l u) = [Header (underline_level rx u) l, BlankLine []]"
| "block_tokens rx (Ruler l) = [HtmlTag ''hr/'', BlankLine []]"
| "block_tokens rx (Code ls) = [CodeBlock (concat (map (\<lambda>l. l @ [LF]) ls))]"

lemma no_code_after:
  assumes "list_all (block_ok rx) bs" "codes_apart (Code ls # bs)"
  shows "isCodeBlockLine (document_tokens bs) = None"
proof (cases bs)
  case Nil
  then show ?thesis by (simp add: document_tokens_def)
next
  case (Cons b cs)
  then obtain l ks where l: "block_lines b = l # ks" "take 4 l \<noteq> spaces 4"
    using assms by (cases b) (auto simp: inert_line_def neq_Nil_conv)
  then show ?thesis by (simp add: Cons document_tokens_def spaces_def numeral_eq_Suc)
qed

lemma blocks_document:
  assumes "list_all (block_ok rx) bs" "codes_apart bs"
  shows "blocks_loop (document_tokens bs) rx processed = ret (processed @ concat (map (block_tokens rx) bs))"
  using assms
proof (induction bs arbitrary: processed)
  case Nil
  then show ?case by (subst blocks_loop.simps) (simp add: document_tokens_def)
next
  case (Cons b bs)
  have doc: "document_tokens (b # bs) = raw_lines (block_lines b) @ BlankLine [] # document_tokens bs"
    by (simp add: document_tokens_def)
  have IH: "blocks_loop (document_tokens bs) rx processed = ret (processed @ concat (map (block_tokens rx) bs))" for processed
    using Cons by (cases bs) simp_all
  show ?case
  proof (cases b)
    case (Plain ls)
    then show ?thesis
      unfolding doc using block_plain [of rx ls "BlankLine [] # document_tokens bs"] Cons.prems by (simp add: block_blank IH)
  next
    case (Hash l)
    then show ?thesis unfolding doc using Cons.prems by (simp add: block_hash block_blank IH)
  next
    case (Underlined l u)
    then show ?thesis unfolding doc using Cons.prems by (simp add: block_underlined block_blank IH)
  next
    case (Ruler l)
    then show ?thesis unfolding doc using Cons.prems by (simp add: block_ruler block_blank IH)
  next
    case (Code ls)
    have "isCodeBlockLine (document_tokens bs) = None"
      using no_code_after [of rx bs ls] Cons.prems by (simp add: Code)
    with Code show ?thesis unfolding doc using block_code [of rx ls "document_tokens bs"] Cons.prems by (simp add: IH)
  qed
qed

section \<open>Paragraphs, spans and what is written\<close>

fun written_tokens :: "regex \<Rightarrow> block \<Rightarrow> Token list" where
  "written_tokens rx (Plain ls) = [Paragraph [RawText (join_lines ls) True], BlankLine []]"
| "written_tokens rx b = block_tokens rx b"

lemma paragraph_then_blank:
  "list_all (inert_line rx) ls \<Longrightarrow> joined p (join_lines ls) \<noteq> [] \<Longrightarrow> ls \<noteq> [] \<Longrightarrow>
   paragraph_lines rx False p (raw_lines ls @ BlankLine [] # ts) =
     Paragraph [RawText (joined p (join_lines ls)) True] # BlankLine [] # paragraph_lines rx False [] ts"
proof (induction ls arbitrary: p rule: join_lines.induct)
  case (2 l)
  then have "rx_match rx ''^(.*)  $'' l = None" by (simp add: inert_line_def matches_def)
  with 2 show ?case by (simp add: flushParagraph_def raw_text_def Let_def canContainMarkup_def)
next
  case (3 l k ks)
  then have l: "rx_match rx ''^(.*)  $'' l = None" "l \<noteq> []" by (simp_all add: inert_line_def text_line_def matches_def)
  have j: "joined (joined p l) (join_lines (k # ks)) = joined p (join_lines (l # k # ks))"
    using l(2) by (simp add: joined_def)
  have "joined (joined p l) (join_lines (k # ks)) \<noteq> []" unfolding j by (rule "3.prems"(2))
  from "3.IH" [OF _ this] "3.prems"(1) show ?case unfolding j by (simp add: l(1))
qed simp

lemma join_lines_nonempty: "list_all (inert_line rx) ls \<Longrightarrow> ls \<noteq> [] \<Longrightarrow> join_lines ls \<noteq> []"
  by (induction ls rule: join_lines.induct) (auto simp: inert_line_def text_line_def)

lemma paragraph_block:
  assumes "block_ok rx b"
  shows "paragraph_lines rx False [] (block_tokens rx b @ ts) = written_tokens rx b @ paragraph_lines rx False [] ts"
proof (cases b)
  case (Plain ls)
  with assms show ?thesis
    using paragraph_then_blank [of rx ls "[]" ts] join_lines_nonempty [of rx ls] by (simp add: joined_def)
qed (simp_all add: Token_text_def canContainMarkup_def flushParagraph_def raw_text_def)

lemma paragraph_blocks:
  "list_all (block_ok rx) bs \<Longrightarrow>
   paragraph_lines rx False [] (concat (map (block_tokens rx) bs)) = concat (map (written_tokens rx) bs)"
  by (induction bs) (simp_all add: paragraph_block flushParagraph_def raw_text_def)

lemma no_containers: "map (processParagraphLines rx) (block_tokens rx b) = block_tokens rx b"
  by (cases b) (simp_all add: processParagraphLines.simps)

lemma paragraph_document:
  "list_all (block_ok rx) bs \<Longrightarrow>
   paragraph_tokens rx (concat (map (block_tokens rx) bs)) = concat (map (written_tokens rx) bs)"
  unfolding paragraph_tokens_def map_concat map_map comp_def no_containers by (rule paragraph_blocks)

text \<open>Only paragraphs have spans: the text of a header is written as it is.\<close>

lemma spans_block:
  assumes "block_ok rx b"
  shows "run_map (processSpanElements rx ids) (written_tokens rx b) = ret (map (\<lambda>t. [t]) (written_tokens rx b))"
proof (cases b)
  case (Plain ls)
  with assms have "processSpanElements rx ids (RawText (join_lines ls) True) = ret [RawText (join_lines ls) True]"
    using spans_staged [of rx "join_lines ls" ids] bold_inert [of rx "join_lines ls"] join_lines_nonempty [of rx ls]
    by (simp add: inert_text_def)
  then show ?thesis by (simp add: Plain processSpanElements.simps [of _ _ "Paragraph _"] processSpanElements.simps [of _ _ "BlankLine _"])
qed (simp_all add: processSpanElements.simps)

lemma run_map_append: "run_map f (xs @ ys) = run_bind (run_map f xs) (\<lambda>us. run_bind (run_map f ys) (\<lambda>vs. ret (us @ vs)))"
  by (induction xs) (simp_all add: run_bind_assoc run_bind_def ret_def split: option.split sum.split)

lemma spans_document:
  assumes "list_all (block_ok rx) bs"
  shows "span_tokens rx ids (concat (map (written_tokens rx) bs)) = ret (concat (map (written_tokens rx) bs))"
proof -
  have "run_map (processSpanElements rx ids) (concat (map (written_tokens rx) bs)) =
      ret (map (\<lambda>t. [t]) (concat (map (written_tokens rx) bs)))"
    using assms by (induction bs) (simp_all add: run_map_append spans_block)
  then show ?thesis by (simp add: span_tokens_def)
qed

lemma ruler_html: "writeAsHtml rx (HtmlTag ''hr/'') = ''<hr/>''"
  by (simp add: TextHolder_writeAsHtml_def)

lemma html_block: "concat (map (writeAsHtml rx) (written_tokens rx b)) = block_html rx b"
  by (cases b)
     (simp_all add: TextHolder_writeAsHtml_def text_flags_def text_flags_nonzero header_html_def ruler_html)

lemma sized_block: "list_all markers_sized (written_tokens rx b)"
  by (cases b) simp_all

theorem markdown_blocks:
  assumes "empty_ok rx" "list_all (block_ok rx) bs" "codes_apart bs"
  shows "markdown_html rx (lines_text (document_lines bs)) = ret (Some (concat (map (block_html rx) bs)))"
proof -
  let ?ts = "concat (map (written_tokens rx) bs)"
  have "document_tree rx (read_document rx (lines_text (document_lines bs))) = ret (?ts, [])"
    using quiet_document [OF assms(1,2)] blocks_document [OF assms(2,3), of "[]"] paragraph_document [OF assms(2)]
    by (simp add: document_tree_def read_blocks [OF assms(1,2)] new_Document_def merge_quiet inline_quiet)
  then have "Document_process rx (read_document rx (lines_text (document_lines bs))) =
      ret ((read_document rx (lines_text (document_lines bs)))\<lparr>mTokenContainer := ?ts, mIdTable := [], mProcessed := True\<rparr>)"
    using spans_document [OF assms(2)] read_not_processed by (simp add: Document_process_def)
  moreover have "markers_sized (Container ?ts)"
    using sized_block by (induction bs) simp_all
  moreover have "writeAsHtml rx (Container ?ts) = concat (map (block_html rx) bs)"
    by (induction bs) (simp_all add: html_block)
  ultimately show ?thesis by (simp add: markdown_html_read Document_write_def)
qed

end
