(* ===== verification/Markdown_Samples.thy ===== *)
theory Markdown_Samples
  imports Markdown_Reference Markdown_Termination
begin

text \<open>
  Boost.Regex on a few subjects, as a table: what the concrete instances of the Markdown properties are
  evaluated with. Where the table has no entry there is no match, so the documents are chosen so that no
  other expression matches them.
\<close>

section \<open>The table\<close>

definition list_captures :: "string \<Rightarrow> string \<Rightarrow> string option list" where
  "list_captures line s = [Some line, Some [], Some ''*'', Some s]"

definition sample_matches :: "((string \<times> string) \<times> string option list) list" where
  "sample_matches =
     [((cUnorderedListExpression, ''* a''), list_captures ''* a'' ''a''),
      ((cUnorderedListExpression, ''* b''), list_captures ''* b'' ''b''),
      ((next_unordered 0 ''*'', ''* b''), [Some ''* b'', Some ''b'']),
      ((''^'' @ backslashed '' +(([*+-])|([0-9]+~.)) +.*$'', ''  - *b*''), [Some ''  - *b*'', Some ''-'', Some ''-'', None]),
      ((cBlockQuoteExpression, ''> a''), [Some ''> a'', Some ''>'', Some ''a'']),
      (('' {0,3}(<--(.*)-- *> *)* *'', []), [Some []]),
      ((cHash, ''# *t*''), [Some ''# *t*'', Some ''#'', Some ''*t*''])]"

definition sample_searches :: "((string \<times> string) \<times> nat \<times> string option list) list" where
  "sample_searches =
     [((cEmphasisExpression, ''*b*''), (0, [Some ''*b*'', Some ''*'', Some ''b'', None, None])),
      ((cEmphasisExpression, ''***a___''), (0, [Some ''***'', None, None, Some ''***'', None])),
      ((cEmphasisExpression, ''a___''), (1, [Some ''___'', None, None, None, Some ''___'']))]"

definition sample_regex :: regex where
  "sample_regex =
     \<lparr>rx_match = (\<lambda>e s. map_of sample_matches (e, s)), rx_search = (\<lambda>e s. map_of sample_searches (e, s))\<rparr>"

text \<open>The sources of the expressions are told apart by their first characters.\<close>

lemmas expressions = cUnorderedListExpression_def cOrderedListExpression_def cBlockQuoteExpression_def
  cEmphasisExpression_def cHtmlTokenStart_def cHtmlTokenEnd_def cReference_def cHtmlTokenSource_def cHtmlToken_def
  cLinkExpression_def cCodeSpan_def cReplaced_def cAttributeStrings_def next_unordered_def next_ordered_def
  startSublistExpression_def codeBlockAfterBlankLineExpression_def quote_continuation_def cIgnore_def cHash_def
  cUnderline_def cRuler_def
  backslashed_def spaces_def SOH_def

definition shorter :: "string \<Rightarrow> string option list \<Rightarrow> bool" where
  "shorter s m \<longleftrightarrow> list_all (\<lambda>c. case c of None \<Rightarrow> True | Some t \<Rightarrow> length t \<le> length s) m"

lemma shorter_cap: "shorter s m \<Longrightarrow> length (cap m i) \<le> length s"
  by (auto simp: shorter_def cap_def capture_def list_all_length split: option.splits)

lemma sample_matches_shorter: "((e, s), m) \<in> set sample_matches \<Longrightarrow> shorter s m"
  by (auto simp: sample_matches_def shorter_def list_captures_def)

lemma sample_regex_ok: "regex_ok sample_regex"
proof -
  have match: "rx_match sample_regex e s = Some m \<Longrightarrow> ((e, s), m) \<in> set sample_matches" for e s m
    by (simp add: sample_regex_def map_of_SomeD)
  have search: "rx_search sample_regex e s = Some r \<Longrightarrow> ((e, s), r) \<in> set sample_searches" for e s r
    by (simp add: sample_regex_def map_of_SomeD)
  have "search_ok sample_regex e" for e
    unfolding search_ok_def by (auto dest!: search simp: sample_searches_def cap_def capture_def)
  moreover have "runs_ok sample_regex"
    unfolding runs_ok_def by (auto dest!: search simp: sample_searches_def cap_def capture_def)
  moreover have "shrinks sample_regex e i 0" for e i
    unfolding shrinks_def by (auto dest!: match sample_matches_shorter shorter_cap)
  moreover have "shrinks sample_regex cBlockQuoteExpression 2 1"
    unfolding shrinks_def
    by (auto dest!: match simp: sample_matches_def expressions cap_def capture_def list_captures_def)
  moreover have "shrinks sample_regex cUnorderedListExpression 3 2"
    unfolding shrinks_def
    by (auto dest!: match simp: sample_matches_def expressions cap_def capture_def list_captures_def)
  moreover have "shrinks sample_regex cOrderedListExpression 3 2"
    unfolding shrinks_def
    by (auto dest!: match simp: sample_matches_def expressions cap_def capture_def list_captures_def)
  moreover have "cap m 2 \<in> {''*'', ''+'', ''-''}" if "rx_match sample_regex cUnorderedListExpression s = Some m" for s m
    using match [OF that] by (auto simp: sample_matches_def expressions cap_def capture_def list_captures_def)
  moreover have "shrinks sample_regex (next_unordered n c) 1 2" for n c
    unfolding shrinks_def
    by (cases n; cases "n - 1")
      (auto dest!: match simp: sample_matches_def expressions cap_def capture_def list_captures_def)
  moreover have "shrinks sample_regex (next_ordered n) 1 2" for n
    unfolding shrinks_def
    by (cases n; cases "n - 1")
      (auto dest!: match simp: sample_matches_def expressions cap_def capture_def list_captures_def)
  moreover have "shrinks sample_regex (codeBlockAfterBlankLineExpression st) 1 1" for st
    unfolding shrinks_def
    by (auto dest!: match simp: sample_matches_def expressions cap_def capture_def list_captures_def)
  ultimately show ?thesis by (simp add: regex_ok_def match_ok_def)
qed

section \<open>The lines of the samples\<close>

lemmas sample_table = sample_regex_def sample_matches_def sample_searches_def expressions

definition sample_lines :: "string list" where
  "sample_lines = [''*b*'', ''***a___'', ''b'', ''c'', ''* a'', ''* b'', ''  - *b*'', ''> a'']"

lemma sample_text_line: "list_all (text_line sample_regex) sample_lines"
  by (simp add: sample_lines_def text_line_def line_char_def isBlankLine_def matches_def parseHtmlTag_def
      isHtmlCommentStart_def sample_table)

lemma sample_no_head: "list_all (no_head sample_regex) sample_lines"
  by (simp add: sample_lines_def no_head_def matches_def sample_table)

lemma sample_inert_line: "list_all (inert_line sample_regex) (take 4 sample_lines)"
proof -
  have "list_all (text_line sample_regex) (take 4 sample_lines)" "list_all (no_head sample_regex) (take 4 sample_lines)"
    using sample_text_line sample_no_head by (simp_all add: sample_lines_def)
  moreover have "list_all (\<lambda>l. take 4 l \<noteq> spaces 4 \<and> list_all (\<lambda>e. \<not> matches sample_regex e l)
       [cUnorderedListExpression, cOrderedListExpression, cBlockQuoteExpression, ''^(.*)  $'']) (take 4 sample_lines)"
    by (simp add: sample_lines_def matches_def sample_table numeral_eq_Suc)
  ultimately show ?thesis by (simp add: list_all_iff inert_line_def)
qed

lemma sample_staged: "list_all (staged_text sample_regex) (take 4 sample_lines)"
  by (simp add: sample_lines_def staged_text_def sample_table)

lemma sample_inert_text: "inert_text sample_regex ''b''"
  using sample_staged by (simp add: sample_lines_def inert_text_def sample_table)

section \<open>Emphasis\<close>

lemma sample_emphasis_tokens:
  "emphasis_tokens sample_regex ''*b*'' = ret (2, [marker_token 0 True ''*'', RawText ''b'' True, marker_token 1 False ''*''])"
  "emphasis_tokens sample_regex ''***a___'' = ret (2, [marker_token 0 True ''***'', RawText ''a'' True, marker_token 1 False ''___''])"
  by (simp_all add: emphasis_tokens_def scan.simps sample_regex_def sample_searches_def emphasis_turn_def raw_text_def
      cap_def capture_def)

lemma sample_match_emphasis:
  "match_emphasis [marker_token 0 True ''*'', RawText ''b'' True, marker_token 1 False ''*''] 2 =
     ret [BoldOrItalicMarker (matched (Some 1) 0 (new_Marker 0 True (CHR ''*'') 1)), RawText ''b'' True,
       BoldOrItalicMarker (matched (Some 0) 0 (new_Marker 1 False (CHR ''*'') 1))]"
  by (simp add: match_emphasis_def match_markers_open find_close_skip find_close_match match_markers_skip match_markers_Nil
      marker_token_def new_Marker_def matched_def unmatch_def unmatch_step_def Let_def marker_at_def
      List.map_filter_simps ret_def upt_rec)

lemma sample_emphasis_html:
  "markdown_html sample_regex (lines_text [''*b*'']) = ret (Some (''<p><em>b</em></p>'' @ [LF, LF]))"
proof -
  have "list_all (inert_line sample_regex) [''*b*'']" using sample_inert_line by (simp add: sample_lines_def)
  moreover have "staged_text sample_regex (join_lines [''*b*''])" using sample_staged by (simp add: sample_lines_def)
  ultimately have md: "markdown_html sample_regex (lines_text [''*b*'']) =
      run_bind (processBoldAndItalicSpans sample_regex (join_lines [''*b*'']) []) (\<lambda>ts.
        written sample_regex [Paragraph (if length ts > 1 then [Container ts] else ts)])"
    by (intro markdown_text) simp_all
  have "encodeProcessedItems sample_regex ''b'' [] = ret [RawText ''b'' True]"
    using sample_inert_text by (simp add: encodeProcessedItems_def scan_none inert_text_def raw_text_def)
  then have "processBoldAndItalicSpans sample_regex ''*b*'' [] =
     ret [BoldOrItalicMarker (matched (Some 1) 0 (new_Marker 0 True (CHR ''*'') 1)), RawText ''b'' True,
       BoldOrItalicMarker (matched (Some 0) 0 (new_Marker 1 False (CHR ''*'') 1))]"
    by (simp add: processBoldAndItalicSpans_def sample_emphasis_tokens sample_match_emphasis encode_token_def
        Token_text_def del: One_nat_def)
  with md show ?thesis
    by (simp add: written_def matched_def new_Marker_def Marker_writeAsHtml_def TextHolder_writeAsHtml_def)
qed

section \<open>Lists\<close>

lemma sample_list_start:
  "list_start sample_regex sub (RawText ''* a'' True) = Some (new_ListState False 0 (next_unordered 0 ''*'') ''a'')"
  "list_start sample_regex sub (RawText ''  - *b*'' True) = None"
  by (simp_all add: list_start_def sample_table cap_def capture_def list_captures_def)

lemma sample_sublist:
  "matches sample_regex (startSublistExpression (new_ListState False 0 e s)) ''  - *b*''"
  by (simp add: matches_def new_ListState_def sample_table)

lemma sample_list:
  "parseListBlock sample_regex False (raw_lines [''* a'', ''* b'']) =
     ret (Some (UnorderedList [ListItem [RawText ''a'' True] True, ListItem [RawText ''b'' True] True]), [])"
proof -
  let ?st = "new_ListState False 0 (next_unordered 0 ''*'') ''a''"
  have "list_turn_of sample_regex ?st (raw_lines [''* b'']) = Inr (Go_on (next_item ''b'' ?st) [])"
    by (simp add: list_turn_of_def text_turn_def matches_def new_ListState_def sample_table cap_def capture_def)
  then have "list_loop (raw_lines [''* b'']) sample_regex ?st = ret (next_item ''b'' ?st, [])"
    by (simp add: list_loop.simps)
  then show ?thesis
    by (simp add: parseListBlock_def sample_list_start list_end_def Let_def end_item_def next_item_def new_ListState_def
        new_list_def)
qed

section \<open>Blocks\<close>

definition sample_blocks :: "block list" where
  "sample_blocks = [Hash ''# *t*'', Plain [''b'', ''c''], Code [''x<y'', '' z'']]"

lemma sample_empty: "empty_ok sample_regex"
  by (simp add: empty_ok_def isBlankLine_def matches_def parseHtmlTag_def isHtmlCommentStart_def sample_table)

lemma sample_blocks_ok: "list_all (block_ok sample_regex) sample_blocks" "codes_apart sample_blocks"
proof -
  have "text_line sample_regex ''# *t*''" "matches sample_regex cHash ''# *t*''" "take 4 ''# *t*'' \<noteq> spaces 4"
    by (simp_all add: text_line_def line_char_def isBlankLine_def matches_def parseHtmlTag_def isHtmlCommentStart_def
        sample_table numeral_eq_Suc)
  moreover have "block_ok sample_regex (Plain [''b'', ''c''])"
    using sample_inert_line by (simp add: sample_lines_def inert_text_def staged_text_def sample_table)
  moreover have "text_line sample_regex (spaces 4 @ ''x<y'')" "text_line sample_regex (spaces 4 @ '' z'')"
    by (simp_all add: text_line_def line_char_def isBlankLine_def matches_def parseHtmlTag_def isHtmlCommentStart_def
        sample_table numeral_eq_Suc)
  moreover have "no_head sample_regex (spaces 4 @ ''x<y'')" "no_head sample_regex (spaces 4 @ '' z'')"
    "no_list_or_quote sample_regex (spaces 4 @ ''x<y'')"
    by (simp_all add: no_head_def no_list_or_quote_def matches_def sample_table numeral_eq_Suc)
  ultimately show "list_all (block_ok sample_regex) sample_blocks" by (simp add: sample_blocks_def)
  show "codes_apart sample_blocks" by (simp add: sample_blocks_def)
qed

lemma sample_blocks_html:
  "concat (map (block_html sample_regex) sample_blocks) =
     ''<h1>*t*</h1>'' @ [LF] @ ''<p>b c</p>'' @ [LF, LF] @ ''<pre><code>x&lt;y'' @ [LF] @ '' z'' @ [LF] @ ''</code></pre>'' @ [LF, LF]"
proof -
  have "rx_match sample_regex cHash ''# *t*'' = Some [Some ''# *t*'', Some ''#'', Some ''*t*'']"
    by (simp add: sample_table)
  then have "hash_header sample_regex ''# *t*'' = (1, ''*t*'')" by (simp add: hash_header_def cap_def capture_def)
  moreover have "has_flag code_flags cAngles" "nat_to_string 1 = ''1''" by code_simp+
  ultimately show ?thesis by (simp add: sample_blocks_def header_html_def)
qed

end
