(* ===== verification/Spec2Isabelle.thy ===== *)
theory Spec2Isabelle
  imports Config_Correct Config_Safety Request_Sound Server_Status Proxy_Correct Server_Config_Correct
    Threads_Serial Threads_Progress Markdown_Debug Markdown_Samples "HOL-Library.Multiset"
begin

text \<open>
  A model of spaceteam, a C++ web server, and the properties that make it correct.

  \<^bold>\<open>The program.\<close> \<open>main\<close> reads a configuration file (\<open>config_parser/\<close>), builds from it
  the port and a table from URI prefixes to handler objects (\<open>src/server.cc\<close>), and runs an event loop:
  it accepts connections, reads once from each (\<open>src/connection.cc\<close>), parses what came as an HTTP
  request (\<open>src/request.cc\<close>), gives it to the handler with the longest matching prefix
  (\<open>src/*_handler.cc\<close>, registered by name in \<open>include/request_handler.h\<close>), writes the
  serialised response (\<open>src/response.cc\<close>) and counts its code (\<open>src/server_status.cc\<close>). The handler for
  files turns Markdown into HTML with a bundled converter (\<open>src/markdown/\<close>): it splits a document into
  lines, groups the lines into a tree of block tokens and replaces each text in the tree by span tokens.

  \<^bold>\<open>The theories.\<close>
  \<^item> \<open>Prelude\<close>: how a C++ call ends (\<open>outcome\<close>: a value, an exception or undefined behaviour),
    characters, the members of \<open>std::string\<close> and \<open>std::vector\<close> that the sources use.
    \<open>Std_Map\<close>: \<open>std::map\<close> as the locale \<open>ordered_map\<close>, interpreted on sorted association lists.
    \<open>Std_Number\<close>: \<open>to_string\<close> and \<open>stoi\<close>. \<open>Istream\<close>: formatted extraction and \<open>getline\<close>.
  \<^item> \<open>Nginx_Config\<close>, \<open>Config_Parser\<close>: the configuration tree and its printer, the lexer
    \<open>ParseToken\<close> and the parser \<open>Parse\<close>; \<open>Config_Correct\<close> shows that parsing undoes printing,
    \<open>Config_Safety\<close> the invariant of the parser's stack, what it builds and when the stack runs empty.
  \<^item> \<open>Request\<close>: the character-by-character parser \<open>consume\<close>, one equation per state;
    \<open>Request_Grammar\<close>: the language it is for, as a printer; \<open>Request_Complete\<close> and
    \<open>Request_Sound\<close>: it accepts exactly that language, with an invariant for each state.
  \<^item> \<open>Response\<close>: the class, and a reader that gets back what it prints.
    \<open>Server_Status\<close>: the counters, as a refinement of a log of the calls.
  \<^item> \<open>Handler\<close>: the base class and the locale \<open>request_handler\<close>, the contract a connection
    relies on; \<open>Simple_Handlers\<close>, \<open>Static_Handler\<close>, \<open>S3_Handler\<close>, \<open>Proxy_Handler\<close>: the
    seven handlers, each an interpretation of it; \<open>Proxy_Correct\<close>: what the proxy makes of an
    answer printed by this program; \<open>Handler_Registry\<close>: \<open>CreateByName\<close> and the virtual calls,
    one more interpretation.
  \<^item> \<open>Server_Config\<close>: \<open>getServerInfo\<close>, \<open>makeServer\<close>, \<open>main\<close>; \<open>Server_Config_Correct\<close>: the
    tables agree, and a file in the documented format gives the handlers it names.
  \<^item> \<open>Regex\<close>: Boost.Regex as an argument; \<open>Run\<close>: calls that may fail and may not return.
    \<open>Markdown_Text\<close>: encoding, classifying and reading text, link definitions; \<open>Markdown_Tokens\<close>: the
    token classes and what they write; \<open>Markdown_Emphasis\<close>: matching emphasis markers and undoing crossing
    matches; \<open>Markdown_Spans\<close>: the stages that turn a text into tokens; \<open>Markdown_Blocks\<close>,
    \<open>Markdown_Lists\<close>: the block parsers; \<open>Markdown_Document\<close>: the five passes of
    \<open>Document::_process\<close>.
  \<^item> \<open>Markdown_Emphasis_Correct\<close>: when the matching of markers ends and when not, and the invariant of the
    matched pairs; \<open>Markdown_Nesting\<close>: after the undoing the tags nest; \<open>Markdown_Termination\<close>: every
    other loop of the converter ends, by a weight on token trees; \<open>Markdown_Correct\<close>: lists hold items, what
    becomes of plain lines, which lines are lost; \<open>Markdown_Samples\<close>: a table of matches for the instances;
    \<open>Markdown_Reference\<close>: a reference for documents of simple blocks, and that the passes agree with it;
    \<open>Markdown_Debug\<close>: the dump of a document's tokens, as an outline.
  \<^item> \<open>Connection\<close>: the choice of the handler and \<open>handle_read\<close>; \<open>Connection_Correct\<close>: what a
    served request does to the server and the client; \<open>Server_Loop\<close>: the event loop as a step
    relation, its reachable states and their invariants; \<open>Server_Liveness\<close>: when its callbacks return.
  \<^item> \<open>Server_Threads\<close>: the five threads of \<open>Server::run\<close>, with a callback of a read cut at the call of
    \<open>do_write\<close> and before and in the count, data races, and the strings that writes read from;
    \<open>Transitions\<close>: invariants and simulations of step relations, as locales; \<open>Threads_Safety\<close>: what
    holds in every state of the threads; \<open>Threads_Serial\<close>: in a run without a race every answer is counted
    once, and it simulates the event loop of \<open>Server_Loop\<close>; \<open>Threads_Progress\<close>: what one thread can do
    alone, when all are held up, which undefined behaviour every server can reach, how a count gets lost, and
    that the server accepts until an accept fails.
  \<^item> This theory: the properties C1 to C40, each with an instance where it has hypotheses.

  \<^bold>\<open>Conventions.\<close> A class is a record with its fields' names less the final underscore; a name that
  another class or the library has is prefixed with the class (\<open>Response_ToString\<close>,
  \<open>static_uri_prefix\<close>). A \<open>char\<close> is a signed byte, \<open>unsigned\<close> a 32-bit word, \<open>npos\<close> is
  \<open>None\<close>. A call that may not return has \<open>None\<close> for that; the loops that may not end
  (\<open>HoldingHandler\<close>, the redirects of the proxy, the emphasis markers, and the loops over the matches of
  a regular expression, which end only if no match is empty) and the nested loops over blocks and lists are
  \<open>partial_function\<close>s, all others are total, so no fuel is used anywhere. An iterator into a list of
  tokens is the list from there on, a pointer to an emphasis marker its address. A failing \<open>assert\<close> is
  the fault \<open>Assertion_failed\<close>: the build does not define \<open>NDEBUG\<close>. The two version numbers of a
  request wrap where C++ leaves the overflow of an \<open>int\<close> undefined (\<open>push_digit\<close>): what is shown of the
  request parser is about a build where that overflow does no harm; nothing reads the numbers.

  \<^bold>\<open>Arguments of the model.\<close> What is not in the repository is an argument: the calls of
  Boost.Filesystem, the output of a shell command, the events of a socket, opening the listening
  socket (\<open>machine\<close>, \<open>environment\<close>, \<open>listen_on\<close>), and Boost.Regex (\<open>regex\<close>). What is
  assumed of the regular expressions where it matters is \<open>regex_ok\<close>, on their sources: those searched for
  in a loop match no empty text, a group is inside the subject and shorter where the expression wants more
  than the group, and a run of emphasis characters has one to three.

  \<^bold>\<open>Threads.\<close> \<open>Server_Loop\<close> runs one callback at a time. \<open>Server_Threads\<close> lets the callbacks
  of the five threads overlap: a step is a part of a callback between two accesses to what they share, so
  the call of a handler is one step, taken when it ends. That is faithful as long as no race is on, and a
  state in which two threads are before conflicting accesses is \<open>racy\<close>: the process may go wrong there. The
  locations are the status, the host of each \<open>ProxyHandler\<close>, and the tables of tags of the Markdown converter,
  which \<open>isValidTag\<close> fills at its first use (\<open>isValidTag_in\<close>). Whether a file has a tag, and whether the
  tables are filled already, is not followed: two conversions at a time are always \<open>racy\<close>, and so are two
  calls of a proxy of which one throws, so there may be fewer races than the model has, not more. A run goes on after a race with some of the outcomes that it can have;
  the count of an answer is a read of the counters and a write, so that one of two counts can be lost, and
  what is said of the counters in all states is restricted to runs without a race.
  The strings that \<open>do_write\<close> makes and destroys are a list in the state, addressed by position; that
  \<open>async_write\<close> may take only a part of its buffer at once, and comes back to it later, is the documented
  behaviour of Boost.Asio, as is that \<open>run\<close> returns when there is no more work.

  \<^bold>\<open>Not modelled.\<close> Errors that Boost.Regex throws on expressions that are too costly; what the
  \<open>io_service\<close> does inside; the order of the memory accesses inside a callback; log messages; the tests
  and scripts.
\<close>

section \<open>The configuration parser\<close>

definition sample_config :: NginxConfig where
  "sample_config = NginxConfig
     [NginxConfigStatement [''port'', ''2020''] None,
      NginxConfigStatement [''path'', ''/static'', ''StaticHandler'']
        (Some (NginxConfig [NginxConfigStatement [''root'', ''\"/var/my www\"''] None])),
      NginxConfigStatement [''default'', ''NotFoundHandler''] (Some (NginxConfig []))]"

lemma sample_config_ok: "config_ok sample_config"
  by code_simp

text \<open>
  C1: Printing a configuration and parsing the text gives the configuration back, at any indentation:
  for every configuration whose statements have at least one token and whose tokens are ones the
  lexer can return, \<open>NginxConfigParser::Parse\<close> accepts what \<open>NginxConfig::ToString\<close>
  prints and rebuilds it, nested blocks and quoted tokens included.
\<close>

theorem config_print_parse:
  assumes "config_ok c"
  shows "Parse (NginxConfig_ToString depth c) (NginxConfig []) = Inr (True, c)"
  using assms by (rule Parse_ToString)

theorem config_print_parse_witness:
  "Parse (NginxConfig_ToString 1 sample_config) (NginxConfig []) = Inr (True, sample_config)"
  by (rule config_print_parse [OF sample_config_ok])

text \<open>
  C2: Whatever the input, a configuration the parser has built, also one it goes on to reject, is well
  formed (no statement without tokens, no token the lexer cannot return), so that printing it and
  parsing it again succeeds with the same configuration.
\<close>

theorem config_parse_print_parse:
  assumes "Parse s (NginxConfig []) = Inr (b, c)"
  shows "config_ok c \<and> Parse (NginxConfig_ToString depth c) (NginxConfig []) = Inr (True, c)"
  using Parse_config_ok [OF assms] Parse_ToString by blast

theorem config_parse_print_parse_witness:
  "Parse (NginxConfig_ToString 0 (NginxConfig [NginxConfigStatement [''foo'', ''bar''] None])) (NginxConfig [])
     = Inr (True, NginxConfig [NginxConfigStatement [''foo'', ''bar''] None])"
proof -
  have "Parse ''foo bar; # x'' (NginxConfig []) = Inr (True, NginxConfig [NginxConfigStatement [''foo'', ''bar''] None])"
    by code_simp
  from config_parse_print_parse [OF this, of 0] show ?thesis by blast
qed

text \<open>
  C18: The parser accepts only inputs whose blocks nest: every block that is closed was opened and none
  is left open. If it runs into undefined behaviour (the stack of configurations is empty), the input
  closes a block it did not open.
\<close>

theorem config_nesting:
  "(Parse s (NginxConfig []) = Inr (True, c) \<longrightarrow> nesting 0 (lexemes s) = Some 0) \<and>
   (Parse s (NginxConfig []) = Inl e \<longrightarrow> nesting 0 (lexemes s) = None)"
  using Parse_nesting by blast

theorem config_nesting_witness:
  "nesting 0 (lexemes ''a { b; }'') = Some 0 \<and> nesting 0 (lexemes ''a; } b;'') = None"
proof -
  have "Parse ''a { b; }'' (NginxConfig []) =
      Inr (True, NginxConfig [NginxConfigStatement [''a'']
        (Some (NginxConfig [NginxConfigStatement [''b''] None]))])"
    by code_simp
  moreover have "Parse ''a; } b;'' (NginxConfig []) = Inl Undefined_behaviour" by code_simp
  ultimately show ?thesis
    using config_nesting [of "''a { b; }''"] config_nesting [of "''a; } b;''"] by blast
qed

text \<open>
  C39: A closing brace too many is not refused but empties the stack: after any complete, non-empty
  configuration it makes the parser take the top of an empty stack when one more token follows, which
  is undefined behaviour.
\<close>

theorem config_extra_brace:
  assumes "config_ok c" "statements c \<noteq> []" "token_ok t"
  shows "Parse (NginxConfig_ToString 0 c @ ''}'' @ t @ '';'') (NginxConfig []) = Inl Undefined_behaviour"
proof -
  let ?p = "parser_at (add_statements 0 (statements c) (NginxConfig [])) 0 0 (closing_tokens TOKEN_TYPE_START (statements c))"
  have l: "closing_tokens TOKEN_TYPE_START (statements c) \<in> {TOKEN_TYPE_STATEMENT_END, TOKEN_TYPE_END_BLOCK}"
    using assms(2) by (simp add: closing_tokens_def closing_token_def)
  have "Parse (NginxConfig_ToString 0 c @ ''}'' @ t @ '';'') (NginxConfig []) = Parse_loop ?p (''}'' @ t @ '';'')"
    using Parse_printed(1) [OF assms(1), of 0 "NginxConfig []" TOKEN_TYPE_START 0 0 "''}'' @ t @ '';''"]
    by (simp add: Parse_def initial_parser_def between_statements_def)
  also have "\<dots> = Inl Undefined_behaviour"
    using l ParseToken_token [OF assms(3), of "CHR '';''" "[]"]
    by (auto simp: Parse_loop.simps [of _ "CHR ''}'' # _"] Parse_loop.simps [of _ "t @ _"]
        ParseToken_punctuation step_simps)
  finally show ?thesis .
qed

theorem config_extra_brace_witness:
  "Parse (NginxConfig_ToString 0 sample_config @ ''}'' @ ''x'' @ '';'') (NginxConfig []) = Inl Undefined_behaviour"
  by (rule config_extra_brace [OF sample_config_ok])
     (simp_all add: sample_config_def token_ok_def plain_token_def starts_plain_def skipped_space_def)

text \<open>
  The lexer gets through every input: each token but the end of the input and an unterminated
  quotation takes at least one character away, so the loop of the parser ends.
\<close>

theorem lexer_progress:
  assumes "ParseToken input = (tt, tok, rest)"
  shows "length rest \<le> length input \<and>
    (tt \<notin> {TOKEN_TYPE_EOF, TOKEN_TYPE_ERROR} \<longrightarrow> length rest < length input)"
  using ParseToken_consumes [OF assms] lex_loop_length [of TOKEN_STATE_INITIAL_WHITESPACE "[]" input] assms
  by (auto simp: ParseToken_def)

theorem lexer_progress_witness: "length ('' {}'' :: string) < length ''foo {}''"
proof -
  have "ParseToken ''foo {}'' = (TOKEN_TYPE_NORMAL, ''foo'', '' {}'')" by code_simp
  from lexer_progress [OF this] show ?thesis by blast
qed

section \<open>The request parser\<close>

text \<open>
  C4: The parser accepts every request of the grammar: a request line, header fields (their values
  possibly folded over several lines), an empty line and a body. The object it builds has the method,
  the URI with its two parts, the version, the fields with the folded lines joined, and the body.
\<close>

theorem request_parse_printed:
  assumes "request_ok m u maj mnr hs"
  shows "Request_Parse (request_text m u maj mnr hs b) = Inr (parsed_request m u maj mnr hs b)"
  using run_request [OF assms]
  by (simp add: Request_Parse_def setServerStatus_def parsed_request_def)

definition sample_fields :: "field list" where
  "sample_fields = [(''Host'', ''a.org'', []), (''X-Note'', ''one'', [([TAB], ''two''), ('' '', '''')])]"

lemma sample_request_ok: "request_ok ''GET'' ''/echo/x'' ''1'' ''1'' sample_fields"
  by code_simp

theorem request_parse_printed_witness:
  "Request_Parse (request_text ''GET'' ''/echo/x'' ''1'' ''1'' sample_fields ''body'') =
    Inr (parsed_request ''GET'' ''/echo/x'' ''1'' ''1'' sample_fields ''body'')"
  by (rule request_parse_printed [OF sample_request_ok])

text \<open>
  C3: Nothing else is accepted: a non-empty text gets the status \<open>good\<close> exactly when it is the text
  of a request of the grammar.
\<close>

theorem request_good_iff:
  assumes "s \<noteq> []"
  shows "(\<exists>r. Request_Parse s = Inr r \<and> parsed_status r = good) \<longleftrightarrow>
    (\<exists>m u maj mnr hs b. request_ok m u maj mnr hs \<and> s = request_text m u maj mnr hs b)"
proof
  assume "\<exists>r. Request_Parse s = Inr r \<and> parsed_status r = good"
  then obtain r where "Parse_chars new_Request s = Inr r" "parsed_status r = good"
    by (auto simp: Request_Parse_def setServerStatus_def)
  from Parse_chars_sound [OF this assms]
  show "\<exists>m u maj mnr hs b. request_ok m u maj mnr hs \<and> s = request_text m u maj mnr hs b" by blast
next
  assume "\<exists>m u maj mnr hs b. request_ok m u maj mnr hs \<and> s = request_text m u maj mnr hs b"
  then obtain m u maj mnr hs b where r: "request_ok m u maj mnr hs" "s = request_text m u maj mnr hs b"
    by blast
  then have "Request_Parse s = Inr (parsed_request m u maj mnr hs b)"
    using run_request [OF r(1)] by (simp add: Request_Parse_def setServerStatus_def parsed_request_def)
  then show "\<exists>r. Request_Parse s = Inr r \<and> parsed_status r = good"
    by (simp add: parsed_request_def)
qed

theorem request_good_iff_witness:
  "\<not> (\<exists>m u maj mnr hs b. request_ok m u maj mnr hs \<and> ''GET /x HTTP/1'' = request_text m u maj mnr hs b)"
proof -
  have "map_sum (\<lambda>e. e) parsed_status (Request_Parse ''GET /x HTTP/1'') = Inr indeterminate"
    by code_simp
  then have "\<not> (\<exists>r. Request_Parse ''GET /x HTTP/1'' = Inr r \<and> parsed_status r = good)"
    by auto
  then show ?thesis using request_good_iff [of "''GET /x HTTP/1''"] by simp
qed

text \<open>
  C31: The parser never takes the last field of an empty list of header fields, so, apart from the overflow of
  a version number, which the model wraps, it returns an object for every input, and the URI of that object
  is the handler path followed by the file path.
\<close>

theorem request_total: "\<exists>r. Request_Parse s = Inr r \<and> uri r = handler_path r @ file_path r"
proof -
  obtain r where r: "Parse_chars new_Request s = Inr r" using Parse_chars_total by blast
  have "uri r = handler_path r @ file_path r"
    using Parse_chars_uri [OF r state_inv_new_Request] by (simp add: new_Request_def)
  then show ?thesis using r by (simp add: Request_Parse_def setServerStatus_def)
qed

section \<open>Responses\<close>

text \<open>
  C30: What \<open>Response::ToString\<close> prints is read back by a client as the status line, the fields in
  their order and the body, whatever the body holds, as long as no line feed is in the status or a
  field and no colon in a field name.
\<close>

theorem response_round_trip:
  assumes "plain_line (status r)" "list_all header_plain (headers r)"
  shows "read_response (Response_ToString r) = Some (status r, headers r, body r)"
  by (rule read_response_print [OF assms])

theorem response_round_trip_witness:
  "read_response (Response_ToString (SetBody [CR, LF, CR, LF] (AddHeader ''A'' ''b: c'' (SetStatus REDIRECT new_Response)))) =
    Some (''HTTP/1.1 302 Found'', [(''A'', ''b: c'')], [CR, LF, CR, LF])"
proof -
  have "plain_line (status (SetBody [CR, LF, CR, LF] (AddHeader ''A'' ''b: c'' (SetStatus REDIRECT new_Response))))"
    "list_all header_plain (headers (SetBody [CR, LF, CR, LF] (AddHeader ''A'' ''b: c'' (SetStatus REDIRECT new_Response))))"
    by (simp_all add: plain_line_def header_plain_def)
  from response_round_trip [OF this] show ?thesis by simp
qed

section \<open>The server status\<close>

text \<open>
  C19: The counters are the number of calls of \<open>UpdateStatus\<close>, modulo \<open>2 ^ 32\<close>: after any
  sequence of calls the counter of a prefix and a code is how often they occurred (a redirect counts as
  500), there is none where they never did, and the total is the number of calls.
\<close>

theorem status_counts:
  "lookup p k (run_log l new_ServerStatus) =
     (if count_log p k l = 0 then None else Some (of_nat (count_log p k l))) \<and>
   num_requests (run_log l new_ServerStatus) = of_nat (length l)"
  using lookup_run_log num_requests_run_log [of l new_ServerStatus] by (simp add: new_ServerStatus_def)

text \<open>
  \<open>UpdateStatus\<close> keeps the maps sorted and the total equal to the sum of all counters, in 32-bit
  arithmetic, and adds one to the total.
\<close>

theorem status_total:
  assumes "status_inv s"
  shows "status_inv (UpdateStatus p c s) \<and> num_requests (UpdateStatus p c s) = num_requests s + 1"
  using status_inv_UpdateStatus [OF assms] by (simp add: UpdateStatus_eq)

theorem status_total_witness:
  "status_inv (UpdateStatus ''/x'' REDIRECT new_ServerStatus)"
  using status_total [of new_ServerStatus "''/x''" REDIRECT] by simp

text \<open>
  The order of the requests does not show: two logs with the same entries the same number of times
  leave the same state, and so the same status page.
\<close>

theorem status_order:
  assumes "mset l = mset l'"
  shows "run_log l new_ServerStatus = run_log l' new_ServerStatus \<and>
    ToHtml (run_log l new_ServerStatus) = ToHtml (run_log l' new_ServerStatus)"
proof -
  have "count_log p k l = count_log p k l'" for p k
    unfolding count_log_def using assms by (metis mset_filter size_mset)
  then have "run_log l new_ServerStatus = run_log l' new_ServerStatus"
    using run_log_ext [of l l'] mset_eq_length [OF assms] mset_eq_setD [OF assms] by simp
  then show ?thesis by simp
qed

theorem status_order_witness:
  "run_log [(''/a'', OK_200), (''/b'', NOT_FOUND)] new_ServerStatus =
   run_log [(''/b'', NOT_FOUND), (''/a'', OK_200)] new_ServerStatus"
  using status_order [of "[(''/a'', OK_200), (''/b'', NOT_FOUND)]" "[(''/b'', NOT_FOUND), (''/a'', OK_200)]"]
  by (simp add: add_mset_commute)

text \<open>
  Every URI that was counted stands in the status page as it was requested, without any escaping.
\<close>

theorem status_page_verbatim:
  assumes "map_find (server_status s) p = Some m"
  shows "\<exists>a b. ToHtml s = a @ ''<h5>Number of requests for \"'' @ p @ ''\"</h5>'' @ b"
proof -
  have "(p, m) \<in> set (server_status s)" using assms by (rule map_of_SomeD)
  then obtain xs ys where "server_status s = xs @ (p, m) # ys" by (metis split_list)
  then have "concat (map counters_html (server_status s)) =
      concat (map counters_html xs) @ ''<h5>Number of requests for \"'' @ p @ ''\"</h5>'' @
      (''<ul style=\"list-style-type:none\">'' @
       concat (map (\<lambda>(c, n). ''<li>'' @ int_to_string c @ '': '' @ to_string n @ ''</li>'') m) @
       ''</ul>'' @ concat (map counters_html ys))"
    by (simp add: counters_html_def)
  then show ?thesis unfolding ToHtml_def by (metis append.assoc)
qed

theorem status_page_verbatim_witness:
  "\<exists>a b. ToHtml (UpdateStatus ''/<b>'' OK_200 new_ServerStatus) =
    a @ ''<h5>Number of requests for \"'' @ ''/<b>'' @ ''\"</h5>'' @ b"
proof -
  have "map_find (server_status (UpdateStatus ''/<b>'' OK_200 new_ServerStatus)) ''/<b>'' \<noteq> None"
    by (simp add: UpdateStatus_eq map_find_put)
  then show ?thesis using status_page_verbatim by blast
qed

section \<open>The handlers\<close>

text \<open>
  A machine for the examples: an HTML file and four Markdown files in \<open>/srv/www\<close>, one more file below
  a directory of the same name elsewhere, a shell that prints its command, and a peer that redirects to itself.
\<close>

definition sample_file :: "string \<Rightarrow> string option" where
  "sample_file p =
     (if p = ''/srv/www/a.html'' then Some ''<p>hello</p>''
      else if p = ''/etc/www/passwd'' then Some ''secret''
      else if p = ''/srv/www/b.md'' then Some (lines_text [''b'', ''c''])
      else if p = ''/srv/www/list.md'' then Some (lines_text [''* a'', ''  - *b*''])
      else if p = ''/srv/www/hang.md'' then Some (lines_text [''***a___''])
      else if p = ''/srv/www/doc.md'' then Some (lines_text (document_lines sample_blocks)) else None)"

definition sample_canonical :: "string \<Rightarrow> string outcome" where
  "sample_canonical p =
     (if p \<in> {''/srv/www'', ''/srv/www/a.html'', ''/srv/www/b.md'', ''/srv/www/list.md'', ''/srv/www/hang.md'', ''/srv/www/doc.md''}
      then Inr p
      else if p = ''/srv/www/../../etc/www/passwd'' then Inr ''/etc/www/passwd''
      else Inl System_error)"

definition sample_environment :: environment where
  "sample_environment =
     \<lparr>fs_exists = (\<lambda>p. Inr (case sample_canonical p of Inl _ \<Rightarrow> False | Inr _ \<Rightarrow> True)),
      fs_is_regular_file = (\<lambda>p. Inr (case sample_canonical p of Inl _ \<Rightarrow> False | Inr q \<Rightarrow> sample_file q \<noteq> None)),
      fs_canonical = sample_canonical,
      fs_filename = (\<lambda>p. case rfind_char (CHR ''/'') p of None \<Rightarrow> p | Some i \<Rightarrow> drop (Suc i) p),
      fs_extension = (\<lambda>p. case rfind_char (CHR ''.'') p of None \<Rightarrow> [] | Some i \<Rightarrow> drop i p),
      fs_open = sample_file,
      regex_engine = sample_regex,
      popen_output = Some,
      network_of = (\<lambda>n hst service q.
        Inr (answer_events REDIRECT [(''Location'', ''http://'' @ hst @ ''/'')] [] [''moved''])),
      heap_of = (\<lambda>_. None)\<rparr>"

definition sample_get :: "string \<Rightarrow> Request" where
  "sample_get u = parsed_request ''GET'' u ''1'' ''1'' [] []"

text \<open>
  C21: A handler, of any class, that returns \<open>OK\<close> on a fresh response has set its status: the code
  can be read and the status line is the one of that code.
\<close>

theorem handler_ok_has_status:
  assumes "HandleRequest e h q (Some new_Response) = Some (Inr (OK, p, h'))"
  shows "\<exists>r c. p = Some r \<and> GetResponseCode r = Inr c \<and> status r = status_line c \<and> class_of h' = class_of h"
  using any.fresh_ok [OF assms] HandleRequest_class [OF assms] by blast

theorem handler_ok_has_status_witness:
  "\<exists>r c. HandleRequest sample_environment (Echo_object new_RequestHandler) (sample_get ''/x'') (Some new_Response) =
      Some (Inr (OK, Some r, Echo_object new_RequestHandler)) \<and> GetResponseCode r = Inr c"
proof -
  obtain r where r: "HandleRequest sample_environment (Echo_object new_RequestHandler) (sample_get ''/x'')
      (Some new_Response) = Some (Inr (OK, Some r, Echo_object new_RequestHandler))"
    by (simp add: EchoHandler_HandleRequest_def lift_handle_def)
  from handler_ok_has_status [OF r] show ?thesis using r by blast
qed

text \<open>
  \<open>HoldingHandler\<close> never returns from a request, whatever it is.
\<close>

theorem holding_never_returns: "HandleRequest e (Holding_object h) q p = None"
  by (simp add: HoldingHandler_HandleRequest_def lift_handle_def)

text \<open>What the extensions stand for.\<close>

definition type_of_extension :: "string \<Rightarrow> string" where
  "type_of_extension x =
     (if x = ''.htm'' \<or> x = ''.html'' then ''text/html''
      else if x = ''.jpg'' \<or> x = ''.jpeg'' then ''image/jpeg''
      else if x = ''.gif'' then ''image/gif''
      else if x = ''.png'' then ''image/png''
      else ''text/plain'')"

lemma GetMimeType_type: "GetMimeType x = type_of_extension x"
  by (simp add: GetMimeType_def mime_map_def type_of_extension_def)

text \<open>
  C25: \<open>StaticHandler\<close> sends a file that is not Markdown as it is: when the rest of the URI names an
  existing regular file whose canonical path has the root's last component in it and whose extension is not
  \<open>.md\<close>, the response is 200 with the content of the file at that path and the MIME type of its
  extension, HTML, JPEG, GIF or PNG, and plain text for any other.
\<close>

theorem static_serves_file:
  assumes "uri q = static_uri_prefix h @ t" "t \<noteq> []"
    and "fs_exists e (root h @ t) = Inr True" "fs_is_regular_file e (root h @ t) = Inr True"
    and "fs_canonical e (root h @ t) = Inr a" "fs_canonical e (root h) = Inr b"
    and "a = u @ fs_filename e b @ v" "fs_open e a = Some content" "fs_extension e a \<noteq> ''.md''"
  shows "StaticHandler_HandleRequest e h q (Some r) = Some (Inr (OK,
    Some (SetStatus OK_200 (AddHeader ''Content-Type'' (type_of_extension (fs_extension e a)) (SetBody content r))), h))"
proof -
  have "find_file e (root h) (root h @ t) = Inr (Some (a, content))"
    using assms(3-8) by (auto simp: find_file_Some)
  from StaticHandler_serves [OF assms(1,2) this assms(9)] show ?thesis by (simp add: CONTENT_TYPE_def GetMimeType_type)
qed

definition sample_static :: StaticHandler where
  "sample_static = \<lparr>config_map = [], static_uri_prefix = ''/static'', root = ''/srv/www''\<rparr>"

lemma sample_paths:
  "uri (sample_get ''/static/a.html'') = static_uri_prefix sample_static @ ''/a.html''"
  "uri (sample_get ''/static/../../etc/www/passwd'') = static_uri_prefix sample_static @ ''/../../etc/www/passwd''"
  "root sample_static @ ''/a.html'' = ''/srv/www/a.html''"
  "root sample_static @ ''/../../etc/www/passwd'' = ''/srv/www/../../etc/www/passwd''"
  "root sample_static = ''/srv/www''"
  by (simp_all add: sample_get_def parsed_request_def sample_static_def)

lemma sample_files:
  "fs_exists sample_environment ''/srv/www/a.html'' = Inr True"
  "fs_is_regular_file sample_environment ''/srv/www/a.html'' = Inr True"
  "fs_canonical sample_environment ''/srv/www/a.html'' = Inr ''/srv/www/a.html''"
  "fs_canonical sample_environment ''/srv/www'' = Inr ''/srv/www''"
  "fs_filename sample_environment ''/srv/www'' = ''www''"
  "fs_open sample_environment ''/srv/www/a.html'' = Some ''<p>hello</p>''"
  "fs_extension sample_environment ''/srv/www/a.html'' = ''.html''"
  "type_of_extension ''.html'' = ''text/html''"
  "fs_exists sample_environment ''/srv/www/../../etc/www/passwd'' = Inr True"
  "fs_is_regular_file sample_environment ''/srv/www/../../etc/www/passwd'' = Inr True"
  "fs_canonical sample_environment ''/srv/www/../../etc/www/passwd'' = Inr ''/etc/www/passwd''"
  "fs_open sample_environment ''/etc/www/passwd'' = Some ''secret''"
  "fs_extension sample_environment ''/etc/www/passwd'' = []"
  "find_string ''www'' ''/etc/www/passwd'' = Some 5"
  by code_simp+

theorem static_serves_file_witness:
  "StaticHandler_HandleRequest sample_environment sample_static (sample_get ''/static/a.html'') (Some new_Response) =
    Some (Inr (OK, Some (SetStatus OK_200 (AddHeader ''Content-Type'' ''text/html''
      (SetBody ''<p>hello</p>'' new_Response))), sample_static))"
proof -
  have "fs_extension sample_environment ''/srv/www/a.html'' \<noteq> ''.md''"
      "''/srv/www/a.html'' = ''/srv/'' @ fs_filename sample_environment ''/srv/www'' @ ''/a.html''"
    by (simp_all only: sample_files) simp_all
  note t = static_serves_file [OF sample_paths(1), of sample_environment, unfolded sample_paths(3), unfolded sample_paths(5),
    OF _ sample_files(1-4) this(2) sample_files(6) this(1), of new_Response, unfolded sample_files(7,8)]
  show ?thesis by (rule t) simp
qed

text \<open>
  C26: The check that a file is inside the root is only that the root's last component occurs somewhere in
  its canonical path: a file of another directory is sent when some part of its path has that name.
\<close>

theorem static_leaves_root:
  assumes "uri q = static_uri_prefix h @ t" "t \<noteq> []"
    and "fs_exists e (root h @ t) = Inr True" "fs_is_regular_file e (root h @ t) = Inr True"
    and "fs_canonical e (root h @ t) = Inr a" "fs_canonical e (root h) = Inr b" "\<not> starts_with b a"
    and "find_string (fs_filename e b) a \<noteq> None" "fs_open e a = Some content" "fs_extension e a \<noteq> ''.md''"
  shows "\<exists>r'. StaticHandler_HandleRequest e h q (Some r) = Some (Inr (OK, Some r', h)) \<and> body r' = content"
proof -
  obtain u v where "a = u @ fs_filename e b @ v" using assms(8) by (auto simp: find_string_None)
  then have "find_file e (root h) (root h @ t) = Inr (Some (a, content))"
    using assms(3-6,9) by (auto simp: find_file_Some)
  from StaticHandler_serves [OF assms(1,2) this assms(10)] show ?thesis by simp
qed

theorem static_leaves_root_witness:
  "\<exists>r'. StaticHandler_HandleRequest sample_environment sample_static
      (sample_get ''/static/../../etc/www/passwd'') (Some new_Response) = Some (Inr (OK, Some r', sample_static)) \<and>
    body r' = ''secret''"
proof -
  have "\<not> starts_with ''/srv/www'' ''/etc/www/passwd''"
      "find_string (fs_filename sample_environment ''/srv/www'') ''/etc/www/passwd'' \<noteq> None"
      "fs_extension sample_environment ''/etc/www/passwd'' \<noteq> ''.md''"
    by (simp_all only: sample_files) (simp_all add: starts_with_def)
  note t = static_leaves_root [OF sample_paths(2), of sample_environment, unfolded sample_paths(4), unfolded sample_paths(5),
    OF _ sample_files(9-11) sample_files(4) this(1,2) sample_files(12) this(3), of new_Response]
  show ?thesis by (rule t) simp
qed

text \<open>
  \<open>S3Handler\<close> sends what the shell command prints, unchanged when it holds no NUL, whatever its
  lines and length; the command is built from the bucket and what the URI has after the prefix and one
  more character, without any quoting.
\<close>

theorem s3_sends_output:
  assumes "uri q = s3_uri_prefix h @ c # key"
    and "popen_output e (c_str (''nodejs get-s3-object.js '' @ bucket h @ '' '' @ key)) = Some printed"
    and "CHR 0x00 \<notin> set printed"
  shows "S3Handler_HandleRequest e h q (Some r) = Some (Inr (OK,
    Some (SetStatus OK_200 (AddHeader ''Content-Type'' ''text/html'' (SetBody printed r))), h))"
  using S3Handler_key [OF assms(1), of e r] assms(2,3)
  by (simp add: GetS3Object_def s3_command_def read_pipe_id CONTENT_TYPE_def)

definition sample_s3 :: S3Handler where
  "sample_s3 = \<lparr>config_map = [], s3_uri_prefix = ''/s3'', bucket = ''b''\<rparr>"

theorem s3_sends_output_witness:
  "S3Handler_HandleRequest sample_environment sample_s3 (sample_get ''/s3/x;id'') (Some new_Response) =
   Some (Inr (OK, Some (SetStatus OK_200 (AddHeader ''Content-Type'' ''text/html''
     (SetBody ''nodejs get-s3-object.js b x;id'' new_Response))), sample_s3))"
proof (rule s3_sends_output)
  show "uri (sample_get ''/s3/x;id'') = s3_uri_prefix sample_s3 @ CHR ''/'' # ''x;id''"
    by (simp add: sample_get_def parsed_request_def sample_s3_def)
  have "c_str (''nodejs get-s3-object.js '' @ ''b'' @ '' '' @ ''x;id'') = ''nodejs get-s3-object.js b x;id''"
    by code_simp
  then show "popen_output sample_environment
      (c_str (''nodejs get-s3-object.js '' @ bucket sample_s3 @ '' '' @ ''x;id'')) =
      Some ''nodejs get-s3-object.js b x;id''"
    by (simp only: sample_environment_def environment.select_convs machine.select_convs sample_s3_def
        S3Handler.select_convs)
  show "CHR 0x00 \<notin> set ''nodejs get-s3-object.js b x;id''" by code_simp
qed

section \<open>The proxy\<close>

text \<open>
  C22: The proxy relays what another server of this program prints, when the status line and the header
  fields arrive in one read and there is at least one field: the code becomes 200 or 404, each value
  keeps the carriage return of its line, and the body is all of what was read, but only if some of it
  arrives in a later read; otherwise the response keeps the body it had.
\<close>

theorem proxy_relays_answer:
  assumes "network_of e 0 (host h) ''80'' (proxy_request h q) =
      Inr (Bytes (Response_ToString (SetBody b (add_headers hs (SetStatus c new_Response)))) #
        map Bytes cs @ [Eof])"
    and "list_all header_plain hs" "hs \<noteq> []" "c \<noteq> REDIRECT"
  shows "\<exists>r. ProxyHandler_HandleRequest e h q (Some new_Response) = Some (Inr (OK, Some r, h)) \<and>
    raw_status r = Some (if c = OK_200 then OK_200 else NOT_FOUND) \<and>
    headers r = map (\<lambda>(n, v). (n, v @ [CR])) hs \<and>
    body r = (if concat cs = [] then [] else b @ concat cs)"
proof -
  have "Response_ToString (SetBody b (add_headers hs (SetStatus c new_Response))) =
      status_line c @ CRLF @ concat (map header_line hs) @ CRLF @ b"
    by (simp add: Response_ToString_def add_headers_def CRLF_def)
  then have net: "network_of e 0 (host h) ''80'' (proxy_request h q) = Inr (answer_events c hs b cs)"
    using assms(1) by (simp add: answer_events_def)
  have "map with_CR hs = map (\<lambda>(n, v). (n, v @ [CR])) hs" by auto
  then show ?thesis
    using proxy_relays [OF net assms(2-4), of new_Response] by (simp add: Let_def add_headers_def)
qed

definition sample_proxy :: ProxyHandler where
  "sample_proxy = \<lparr>config_map = [], proxy_uri_prefix = ''/p'', host = ''a.org'', portno = ''8080''\<rparr>"

theorem proxy_relays_answer_witness:
  "\<exists>r. ProxyHandler_HandleRequest (sample_environment\<lparr>network_of := \<lambda>n hst service q.
      Inr [Bytes (Response_ToString (SetBody ''a'' (add_headers [(''X'', ''y'')] (SetStatus INTERNAL_SERVER_ERROR new_Response)))),
           Bytes ''b'', Eof]\<rparr>) sample_proxy (sample_get ''/p/x'') (Some new_Response) =
      Some (Inr (OK, Some r, sample_proxy)) \<and> raw_status r = Some NOT_FOUND \<and> body r = ''ab''"
  using proxy_relays_answer [of "sample_environment\<lparr>network_of := \<lambda>n hst service q.
      Inr [Bytes (Response_ToString (SetBody ''a'' (add_headers [(''X'', ''y'')] (SetStatus INTERNAL_SERVER_ERROR new_Response)))),
           Bytes ''b'', Eof]\<rparr>" sample_proxy "sample_get ''/p/x''" "''a''" "[(''X'', ''y'')]"
      INTERNAL_SERVER_ERROR "[''b'']"]
  by (auto simp: header_plain_def plain_line_def)

text \<open>
  C23: A peer that redirects every request to itself keeps the proxy busy for ever: the call does not
  return.
\<close>

theorem proxy_redirect_loop:
  assumes "\<And>n q. network_of e n d ''80'' q =
      Inr (answer_events REDIRECT [(''Location'', ''http://'' @ d @ ''/'')] (b n) (cs n))"
    and "host h = d" "LF \<notin> set d"
  shows "ProxyHandler_HandleRequest e h q (Some r) = None"
proof (rule proxy_redirect_forever [of d e q "[(''Location'', ''http://'' @ d @ ''/'')]" b cs h])
  show "next_host True d (map with_CR [(''Location'', ''http://'' @ d @ ''/'')]) = Inr d"
    using location_host_slash [of d] by simp
  show "list_all header_plain [(''Location'', ''http://'' @ d @ ''/'')]"
    using assms(3) by (simp add: header_plain_def plain_line_def)
qed (use assms in simp_all)

theorem proxy_redirect_loop_witness:
  "ProxyHandler_HandleRequest sample_environment sample_proxy (sample_get ''/p/x'') (Some new_Response) = None"
  by (rule proxy_redirect_loop [of _ "''a.org''" "\<lambda>_. []" "\<lambda>_. [''moved'']"])
     (simp_all add: sample_environment_def sample_proxy_def)

text \<open>
  C24: A redirect is for ever: when the configured host sends a request on to another host, which answers it,
  the response has the fields of the redirect in front of those of the answer, and the handler keeps the
  other host: a later request is sent there first, and throws when that host cannot be reached any more.
\<close>

theorem proxy_host_sticks:
  assumes "network_of e 0 (host h) ''80'' (proxy_request h q) =
      Inr (answer_events REDIRECT [(''Location'', ''http://'' @ d @ ''/'')] b0 [])"
    and "network_of e 1 d ''80'' (proxy_request (h\<lparr>host := d\<rparr>) q) = Inr (answer_events c hs b cs)"
    and "LF \<notin> set d" "list_all header_plain hs" "hs \<noteq> []" "c \<noteq> REDIRECT"
    and "network_of e' 0 d ''80'' (proxy_request (h\<lparr>host := d\<rparr>) q') = Inl ft"
  shows "\<exists>r h'. ProxyHandler_HandleRequest e h q (Some new_Response) = Some (Inr (OK, Some r, h')) \<and>
    raw_status r = Some (if c = OK_200 then OK_200 else NOT_FOUND) \<and>
    headers r = (''Location'', ''http://'' @ d @ ''/'' @ [CR]) # map (\<lambda>(n, v). (n, v @ [CR])) hs \<and>
    ProxyHandler_HandleRequest e' h' q' p = Some (Inl ft)"
proof -
  have "map with_CR hs = map (\<lambda>(n, v). (n, v @ [CR])) hs" by auto
  moreover have "ProxyHandler_HandleRequest e' (h\<lparr>host := d\<rparr>) q' p = Some (Inl ft)"
    using assms(7) by (simp add: ProxyHandler_HandleRequest_def proxy_loop.simps proxy_turn_def)
  ultimately show ?thesis
    using proxy_follows [OF assms(1-6), of new_Response] by (auto simp: Let_def add_headers_def)
qed

definition moved_network :: network where
  "moved_network n hst service q =
     (if n = 0 \<and> hst = ''a.org'' then Inr (answer_events REDIRECT [(''Location'', ''http://b.org/'')] [] [])
      else if n = 1 \<and> hst = ''b.org'' then Inr (answer_events OK_200 [(''X'', ''y'')] ''hello'' ['' you''])
      else Inl System_error)"

theorem proxy_host_sticks_witness:
  "\<exists>r h'. ProxyHandler_HandleRequest (sample_environment\<lparr>network_of := moved_network\<rparr>) sample_proxy
      (sample_get ''/p/x'') (Some new_Response) = Some (Inr (OK, Some r, h')) \<and>
    ProxyHandler_HandleRequest (sample_environment\<lparr>network_of := moved_network\<rparr>) h'
      (sample_get ''/p/x'') (Some new_Response) = Some (Inl System_error)"
  using proxy_host_sticks [of "sample_environment\<lparr>network_of := moved_network\<rparr>" sample_proxy "sample_get ''/p/x''"
      "''b.org''" "[]" OK_200 "[(''X'', ''y'')]" "''hello''" "['' you'']"
      "sample_environment\<lparr>network_of := moved_network\<rparr>" "sample_get ''/p/x''" System_error "Some new_Response"]
  by (auto simp: moved_network_def sample_proxy_def header_plain_def plain_line_def)

text \<open>
  An answer without header fields makes the proxy throw once the peer closes: the search for the
  empty line starts after the line feed that ends the status line.
\<close>

theorem proxy_needs_fields:
  assumes "network_of e 0 (host h) ''80'' (proxy_request h q) = Inr (answer_events c [] b cs)"
    and "find_string [CR, LF, CR, LF] ([CR, LF] @ b @ concat cs) = None"
  shows "ProxyHandler_HandleRequest e h q (Some r) = Some (Inl System_error)"
  by (rule proxy_no_fields [OF assms(1)]) (use assms(2) in \<open>simp add: CRLF_def\<close>)

theorem proxy_needs_fields_witness:
  "ProxyHandler_HandleRequest (sample_environment\<lparr>network_of := \<lambda>n hst service q.
      Inr (answer_events OK_200 [] ''hello'' [])\<rparr>) sample_proxy (sample_get ''/p'') (Some new_Response) =
   Some (Inl System_error)"
proof (rule proxy_needs_fields [of _ _ _ OK_200 "''hello''" "[]"])
  show "find_string [CR, LF, CR, LF] ([CR, LF] @ ''hello'' @ concat []) = None" by code_simp
qed simp

section \<open>The Markdown converter\<close>

text \<open>
  A Markdown file is served as HTML: a file whose lines match no block expression and whose text no span
  expression, nor a backslash, is answered with 200, type text/html and one paragraph, its lines joined by
  spaces and encoded.
\<close>

theorem static_serves_markdown:
  assumes "uri q = static_uri_prefix h @ t" "t \<noteq> []"
    and "find_file e (root h) (root h @ t) = Inr (Some (a, lines_text ls))" "fs_extension e a = ''.md''"
    and "list_all (inert_line (regex_engine e)) ls" "ls \<noteq> []" "inert_text (regex_engine e) (join_lines ls)"
  shows "StaticHandler_HandleRequest e h q (Some r) = Some (Inr (OK,
    Some (SetStatus OK_200 (AddHeader ''Content-Type'' ''text/html'' (SetBody
      (''<p>'' @ encodeString (regex_engine e) text_flags (join_lines ls) @ ''</p>'' @ [LF, LF]) r))), h))"
  using StaticHandler_markdown [OF assms(1-4)] markdown_paragraph [OF assms(5-7)]
  by (simp add: file_response_def CONTENT_TYPE_def GetMimeType_def mime_map_def ret_def)

lemma sample_markdown_files:
  "find_file sample_environment ''/srv/www'' ''/srv/www/b.md'' = Inr (Some (''/srv/www/b.md'', lines_text [''b'', ''c'']))"
  "find_file sample_environment ''/srv/www'' ''/srv/www/list.md'' = Inr (Some (''/srv/www/list.md'', lines_text [''* a'', ''  - *b*'']))"
  "find_file sample_environment ''/srv/www'' ''/srv/www/hang.md'' = Inr (Some (''/srv/www/hang.md'', lines_text [''***a___'']))"
  "fs_extension sample_environment ''/srv/www/b.md'' = ''.md''"
  "fs_extension sample_environment ''/srv/www/list.md'' = ''.md''"
  "fs_extension sample_environment ''/srv/www/hang.md'' = ''.md''"
  by code_simp+

lemma sample_static_get:
  "uri (sample_get (''/static'' @ t)) = static_uri_prefix sample_static @ t" "root sample_static = ''/srv/www''"
  by (simp_all add: sample_get_def parsed_request_def sample_static_def)

theorem static_serves_markdown_witness:
  "StaticHandler_HandleRequest sample_environment sample_static (sample_get (''/static'' @ ''/b.md'')) (Some new_Response) =
    Some (Inr (OK, Some (SetStatus OK_200 (AddHeader ''Content-Type'' ''text/html'' (SetBody
      (''<p>'' @ ''b c'' @ ''</p>'' @ [LF, LF]) new_Response))), sample_static))"
proof -
  have rx: "regex_engine sample_environment = sample_regex" by (simp add: sample_environment_def)
  have "inert_text sample_regex (join_lines [''b'', ''c''])"
    by (simp add: inert_text_def staged_text_def sample_table)
  moreover have "list_all (inert_line sample_regex) [''b'', ''c'']"
    using sample_inert_line by (simp add: sample_lines_def)
  ultimately have "StaticHandler_HandleRequest sample_environment sample_static (sample_get (''/static'' @ ''/b.md''))
      (Some new_Response) = Some (Inr (OK, Some (SetStatus OK_200 (AddHeader ''Content-Type'' ''text/html'' (SetBody
        (''<p>'' @ encodeString sample_regex text_flags (join_lines [''b'', ''c'']) @ ''</p>'' @ [LF, LF]) new_Response))),
        sample_static))"
    using static_serves_markdown [OF sample_static_get(1), of "''/b.md''" sample_environment "''/srv/www/b.md''"
        "[''b'', ''c'']" new_Response] sample_markdown_files sample_static_get(2) rx by simp
  then show ?thesis by simp
qed

text \<open>
  C27: The converter agrees with a reference on documents of simple blocks, each followed by an empty line:
  for a file of paragraphs, headers of both kinds, horizontal rules and code blocks, no two code blocks next
  to each other, the answer is the HTML that the reference gives for each block, one after the other. (A
  paragraph has no emphasis here; the text of a header is never searched for any.)
\<close>

theorem static_serves_blocks:
  assumes "uri q = static_uri_prefix h @ t" "t \<noteq> []" "regex_engine e = rx"
    and "find_file e (root h) (root h @ t) = Inr (Some (a, lines_text (document_lines bs)))" "fs_extension e a = ''.md''"
    and "empty_ok rx" "list_all (block_ok rx) bs" "codes_apart bs"
  shows "StaticHandler_HandleRequest e h q (Some r) = Some (Inr (OK,
    Some (SetStatus OK_200 (AddHeader ''Content-Type'' ''text/html''
      (SetBody (concat (map (block_html rx) bs)) r))), h))"
  using StaticHandler_markdown [OF assms(1,2,4,5)] markdown_blocks [OF assms(6-8)] assms(3)
  by (simp add: file_response_def CONTENT_TYPE_def GetMimeType_def mime_map_def ret_def)

theorem static_serves_blocks_witness:
  "StaticHandler_HandleRequest sample_environment sample_static (sample_get (''/static'' @ ''/doc.md'')) (Some new_Response) =
    Some (Inr (OK, Some (SetStatus OK_200 (AddHeader ''Content-Type'' ''text/html'' (SetBody
      (''<h1>*t*</h1>'' @ [LF] @ ''<p>b c</p>'' @ [LF, LF] @
       ''<pre><code>x&lt;y'' @ [LF] @ '' z'' @ [LF] @ ''</code></pre>'' @ [LF, LF]) new_Response))), sample_static))"
proof -
  have "find_file sample_environment ''/srv/www'' ''/srv/www/doc.md'' =
      Inr (Some (''/srv/www/doc.md'', lines_text (document_lines sample_blocks)))"
    "fs_extension sample_environment ''/srv/www/doc.md'' = ''.md''"
    by code_simp+
  moreover have "regex_engine sample_environment = sample_regex" by (simp add: sample_environment_def)
  ultimately show ?thesis
    using static_serves_blocks [OF sample_static_get(1), of "''/doc.md''" sample_environment sample_regex
        "''/srv/www/doc.md''" sample_blocks new_Response] sample_empty sample_blocks_ok
    by (simp only: sample_static_get(2) sample_blocks_html) simp
qed

text \<open>
  C29: A list line that is followed by a line of the form of a list in the list, which is none for the
  expression that decides it, such as one that starts with emphasis, fails an assertion: the request ends
  the server.
\<close>

theorem static_markdown_aborts:
  assumes "uri q = static_uri_prefix h @ t" "t \<noteq> []" "regex_engine e = rx"
    and "find_file e (root h) (root h @ t) = Inr (Some (a, lines_text (l # k # ls)))" "fs_extension e a = ''.md''"
    and "list_all (text_line rx) (l # k # ls)" "no_head rx l" "no_head rx k"
    and "list_start rx False (RawText l True) = Some st"
    and "matches rx (startSublistExpression st) k" "list_start rx True (RawText k True) = None"
  shows "StaticHandler_HandleRequest e h q (Some r) = Some (Inl Assertion_failed)"
proof -
  have "markdown_html rx (lines_text (l # k # ls)) = Run.fail Assertion_failed"
    using sublist_fails [OF assms(7-11)] by (simp only: markdown_plain [OF assms(6)]) simp
  then show ?thesis
    using StaticHandler_markdown [OF assms(1,2,4,5)] assms(3) by (simp add: Run.fail_def)
qed

theorem static_markdown_aborts_witness:
  "StaticHandler_HandleRequest sample_environment sample_static (sample_get (''/static'' @ ''/list.md'')) (Some new_Response) =
    Some (Inl Assertion_failed)"
proof (rule static_markdown_aborts [OF sample_static_get(1)])
  show "find_file sample_environment (root sample_static) (root sample_static @ ''/list.md'') =
      Inr (Some (''/srv/www/list.md'', lines_text (''* a'' # ''  - *b*'' # [])))"
    using sample_markdown_files(2) by (simp add: sample_static_get(2))
  show "regex_engine sample_environment = sample_regex" by (simp add: sample_environment_def)
  show "list_all (text_line sample_regex) [''* a'', ''  - *b*'']" "no_head sample_regex ''* a''"
    "no_head sample_regex ''  - *b*''"
    using sample_text_line sample_no_head by (simp_all add: sample_lines_def)
  show "matches sample_regex (startSublistExpression (new_ListState False 0 (next_unordered 0 ''*'') ''a'')) ''  - *b*''"
    by (rule sample_sublist)
qed (simp_all add: sample_markdown_files sample_list_start)

text \<open>
  C28: A text with an open run of three emphasis characters and, before any other close run, a close run of
  three of the other character, such as \<open>***a___\<close>, is never answered: the matching of the markers splits
  off a marker of no characters, which splits the close marker for ever.
\<close>

theorem static_markdown_hangs:
  assumes "uri q = static_uri_prefix h @ t" "t \<noteq> []" "regex_engine e = rx"
    and "find_file e (root h) (root h @ t) = Inr (Some (a, lines_text ls))" "fs_extension e a = ''.md''"
    and "list_all (inert_line rx) ls" "ls \<noteq> []" "staged_text rx (join_lines ls)"
    and "emphasis_tokens rx (join_lines ls) =
      ret (addr, before @ BoldOrItalicMarker op # mid @ BoldOrItalicMarker cl # after)"
    and "list_all (\<lambda>t. \<not> isUnmatchedOpenMarker t) before" "no_close mid"
    and "mOpenMarker op" "\<not> mOpenMarker cl" "mSize op = 3" "mSize cl = 3" "mTokenCharacter op \<noteq> mTokenCharacter cl"
  shows "StaticHandler_HandleRequest e h q (Some r) = None"
  using StaticHandler_markdown [OF assms(1,2,4,5)] markdown_text [OF assms(6-8)] bold_hangs [OF assms(9-16)] assms(3)
  by simp

theorem static_markdown_hangs_witness:
  "StaticHandler_HandleRequest sample_environment sample_static (sample_get (''/static'' @ ''/hang.md'')) (Some new_Response) = None"
proof (rule static_markdown_hangs [OF sample_static_get(1), of _ _ sample_regex _ _ 2 "[]" _ "[RawText ''a'' True]" _ "[]"])
  show "find_file sample_environment (root sample_static) (root sample_static @ ''/hang.md'') =
      Inr (Some (''/srv/www/hang.md'', lines_text [''***a___'']))"
    using sample_markdown_files(3) by (simp add: sample_static_get(2))
  show "emphasis_tokens sample_regex (join_lines [''***a___'']) =
      ret (2, [] @ BoldOrItalicMarker (new_Marker 0 True (CHR ''*'') 3) # [RawText ''a'' True] @
        BoldOrItalicMarker (new_Marker 1 False (CHR ''_'') 3) # [])"
    using sample_emphasis_tokens(2) by (simp add: marker_token_def numeral_eq_Suc)
  show "list_all (inert_line sample_regex) [''***a___'']" "staged_text sample_regex (join_lines [''***a___''])"
    using sample_inert_line sample_staged by (simp_all add: sample_lines_def)
  show "fs_extension sample_environment ''/srv/www/hang.md'' = ''.md''" by (rule sample_markdown_files)
  show "regex_engine sample_environment = sample_regex" by (simp add: sample_environment_def)
qed (simp_all add: no_close_def new_Marker_def)

text \<open>
  C16: The converter ends on a document, if the regular expressions match as their sources say (no empty match
  of those that are searched for, groups inside the subject, runs of one to three markers) and no text of
  the document's tree has two clashing runs of three markers.
\<close>

theorem markdown_ends:
  assumes "regex_ok rx" "clash_free rx contents"
  shows "ends (markdown_html rx contents)"
  by (rule markdown_html_ends [OF assms])

lemma sample_clash_free: "clash_free sample_regex (lines_text [''*b*''])"
  unfolding clash_free_def
proof (intro allI impI)
  fix ts ids t s
  assume tree: "document_tree sample_regex (read_document sample_regex (lines_text [''*b*''])) = ret (ts, ids)"
    and t: "t \<in> set ts" and s: "s \<in> set (span_texts t)"
  have "document_tree sample_regex (read_document sample_regex (lines_text [''*b*''])) =
      ret ([Paragraph [RawText ''*b*'' True]], [])"
    using inert_tree [of sample_regex "[''*b*'']"] sample_inert_line by (simp add: sample_lines_def)
  with tree have "ids = []" "ts = [Paragraph [RawText ''*b*'' True]]" by simp_all
  moreover from this t s have "s = ''*b*''" by (simp add: span_texts.simps)
  moreover have "span_stages sample_regex [] ''*b*'' = ret ([], ''*b*'')"
    using span_stages_id sample_staged by (simp add: sample_lines_def)
  moreover have "threes_agree [marker_token 0 True ''*'', RawText ''b'' True, marker_token 1 False ''*'']"
    by (simp add: threes_agree_def marker_token_def is_three_def new_Marker_def)
  ultimately show "\<not> spans_clash sample_regex ids s"
    by (simp add: spans_clash_def sample_emphasis_tokens)
qed

theorem markdown_ends_witness: "ends (markdown_html sample_regex (lines_text [''*b*'']))"
  by (rule markdown_ends [OF sample_regex_ok sample_clash_free])

text \<open>
  C17: Emphasis nests: whatever the text, when the matching of its markers ends, the undoing of the matches that
  cross does not fail, and the tags that the markers write open and close properly, each close tag the
  innermost open one.
\<close>

theorem emphasis_nests:
  assumes "emphasis_tokens rx src = ret (addr, ts)" "match_emphasis ts addr = Some r"
  shows "\<exists>us. r = Inr us \<and> tags_nest [] (concat (map marker_tags (markers us))) \<and>
    (\<forall>m\<in>set (markers us). mMatch m \<noteq> None \<longrightarrow> Marker_writeAsHtml m = concat (map write_tag (marker_tags m)))"
  using match_emphasis_nests [OF assms] by (auto simp: Marker_writeAsHtml_tags)

theorem emphasis_nests_witness: "\<exists>us. match_emphasis [marker_token 0 True ''*'', RawText ''b'' True, marker_token 1 False ''*''] 2 =
    ret us \<and> tags_nest [] (concat (map marker_tags (markers us)))"
proof -
  obtain us where "match_emphasis [marker_token 0 True ''*'', RawText ''b'' True, marker_token 1 False ''*''] 2 = Some (Inr us)"
    using sample_match_emphasis unfolding ret_def by blast
  with emphasis_nests [OF sample_emphasis_tokens(1) this] show ?thesis unfolding ret_def by blast
qed

text \<open>
  C33: A list is well formed: what \<open>parseListBlock\<close> returns is an ordered or an unordered list of list items,
  none of them empty, which the cast in the constructor of \<open>UnorderedList\<close> relies on.
\<close>

theorem list_of_items:
  assumes "parseListBlock rx sub ts = ret (Some p, rest)"
  shows "\<exists>items. (p = UnorderedList items \<or> p = OrderedList items) \<and> list_all is_item items"
  by (rule parseListBlock_items [OF assms])

theorem list_of_items_witness:
  "list_all is_item [ListItem [RawText ''a'' True] True, ListItem [RawText ''b'' True] True]"
  using list_of_items [OF sample_list] by simp

text \<open>
  C32: The text of code is safe and exact: in a code block and a code span it has no angle bracket, so it can
  neither open nor close a tag, and a reader that replaces the four entities gets it back as it was written.
\<close>

theorem code_shown:
  "\<exists>html. writeAsHtml rx (CodeBlock s) = ''<pre><code>'' @ html @ ''</code></pre>'' @ [LF, LF] \<and>
    writeAsHtml rx (CodeSpan s) = ''<code>'' @ html @ ''</code>'' \<and>
    CHR ''<'' \<notin> set html \<and> CHR ''>'' \<notin> set html \<and> shown html = s"
  using writeAsHtml_code [of rx s] encodeString_angles [of code_flags rx s] shown_encodeString [of rx s] by simp

text \<open>
  Reading a document undoes writing it line by line, with any of the three line ends: its tokens are the
  lines, in order, as blank lines or as text.
\<close>

theorem document_lines:
  assumes "eol \<in> {[LF], [CR, LF], [CR]}" "\<forall>l\<in>set ls. list_all line_char l"
  shows "Document_read rx (concat (map (\<lambda>l. l @ eol) ls)) new_Document =
    (True, new_Document\<lparr>mTokenContainer := map (line_token rx) ls\<rparr>)"
  using read_lines_joined [OF assms] by (simp add: Document_read_def new_Document_def)

theorem document_lines_witness:
  "Document_read sample_regex (''a'' @ [CR, LF] @ [CR, LF] @ ''  b'' @ [CR, LF]) new_Document =
    (True, new_Document\<lparr>mTokenContainer := [RawText ''a'' True, line_token sample_regex [], RawText ''  b'' True]\<rparr>)"
proof -
  have "line_token sample_regex ''a'' = RawText ''a'' True" "line_token sample_regex ''  b'' = RawText ''  b'' True"
    by (simp_all add: line_token_def isBlankLine_def matches_def sample_table)
  then show ?thesis
    using document_lines [of "[CR, LF]" "[''a'', [], ''  b'']" sample_regex] by (simp add: line_char_def)
qed

text \<open>
  The table of link definitions refines the list of the definitions: a reference finds the first one with
  the same identifier, whatever the case of its letters, and later ones change nothing.
\<close>

theorem first_definition_wins:
  "LinkIds_find key (fold (\<lambda>(k, url, title). LinkIds_add k url title) defs []) =
    map_option snd (find (\<lambda>(k, _). scrubKey k = scrubKey key) defs)"
  by (rule LinkIds_fold)

text \<open>
  C34: A line that follows a block quote without a blank line is lost when it does not continue the quote:
  the HTML is the same whatever the line says.
\<close>

theorem quote_drops_line:
  assumes "list_all (text_line rx) (l # k # ls)" "text_line rx k'" "no_head rx l" "no_head rx k" "no_head rx k'"
    and "list_start rx False (RawText l True) = None" "rx_match rx cBlockQuoteExpression l = Some m"
    and "\<forall>j\<in>{k, k'}. rx_match rx (quote_continuation (countQuoteLevel (cap m 1))) j = None"
  shows "markdown_html rx (lines_text (l # k # ls)) = markdown_html rx (lines_text (l # k' # ls))"
proof -
  have "list_all (text_line rx) (l # k' # ls)" using assms(1,2) by simp
  moreover have "blocks_loop (raw_lines (l # k # ls)) rx [] = blocks_loop (raw_lines (l # k' # ls)) rx []"
    using quote_drops [OF assms(3,4,6,7)] quote_drops [OF assms(3,5,6,7)] assms(8) by simp
  ultimately show ?thesis using assms(1) by (simp only: markdown_plain)
qed

theorem quote_drops_line_witness:
  "markdown_html sample_regex (lines_text [''> a'', ''b'']) = markdown_html sample_regex (lines_text [''> a'', ''c''])"
proof (rule quote_drops_line [of _ _ _ _ _ "[Some ''> a'', Some ''>'', Some ''a'']"])
  show "list_all (text_line sample_regex) (''> a'' # ''b'' # [])" "text_line sample_regex ''c''"
    using sample_text_line by (simp_all add: sample_lines_def)
  show "no_head sample_regex ''> a''" "no_head sample_regex ''b''" "no_head sample_regex ''c''"
    using sample_no_head by (simp_all add: sample_lines_def)
  show "list_start sample_regex False (RawText ''> a'' True) = None"
    by (simp add: list_start_def sample_table)
  show "rx_match sample_regex cBlockQuoteExpression ''> a'' = Some [Some ''> a'', Some ''>'', Some ''a'']"
    by (simp add: sample_table)
qed (simp add: sample_table)

section \<open>Starting the server\<close>

text \<open>
  In whatever order the static registerers run, \<open>CreateByName\<close> finds each of the seven classes
  under its own name, makes a new object of it, and finds nothing under any other name.
\<close>

theorem registry_any_order:
  assumes "set Ts = UNIV"
  shows "CreateByName_in (register_all Ts) k =
    (if k \<in> range class_name then Inr (Some (Create (the_inv class_name k))) else Inr None)"
  by (rule CreateByName_any_order [OF assms])

theorem registry_any_order_witness: "CreateByName_in (register_all (rev registered_classes)) ''Nobody'' = Inr None"
proof -
  have "class_name T \<noteq> ''Nobody''" for T by (cases T) simp_all
  then have "''Nobody'' \<notin> range class_name" by (metis rangeE)
  then show ?thesis
    using registry_any_order [of "rev registered_classes" "''Nobody''"] registered_all by simp
qed

text \<open>
  \<open>ParseConfig\<close> is defined exactly when every statement of the block has at least two tokens,
  and then the value of a key is the second token of the last statement that starts with it.
\<close>

theorem handler_config:
  "((\<exists>m'. ParseConfig c m = Inr m') \<longleftrightarrow> list_all (\<lambda>s. 2 \<le> length (tokens s)) (statements c)) \<and>
   (ParseConfig c m = Inr m' \<longrightarrow> map_find m' k =
     (case find (\<lambda>s. tokens s ! 0 = k) (rev (statements c)) of
        None \<Rightarrow> map_find m k | Some s \<Rightarrow> Some (tokens s ! 1)))"
  using ParseConfig_statements_iff [of "statements c" m] ParseConfig_statements_find [of "statements c" m m' k]
  by (simp add: ParseConfig_def)

theorem handler_config_witness:
  "map_find [(''root'', ''b'')] ''root'' = Some (''b'' :: string)"
proof -
  let ?c = "NginxConfig [NginxConfigStatement [''root'', ''a''] None, NginxConfigStatement [''root'', ''b''] None]"
  have "ParseConfig ?c [] = Inr [(''root'', ''b'')]" by code_simp
  then show ?thesis using handler_config [of ?c "[]" "[(''root'', ''b'')]" "''root''"] by simp
qed

text \<open>
  After \<open>getServerInfo\<close>, accepted or not, the table of handlers and the lists of prefixes agree:
  each entry is listed under the name of its handler's class, and each listed prefix has a handler.
\<close>

theorem server_info_tables:
  assumes "getServerInfo read_file f new_ServerInfo = Inr (ok, i)"
  shows "tables_agree i"
  by (rule getServerInfo_inv [OF assms])

theorem server_info_tables_witness:
  "\<exists>i. getServerInfo (\<lambda>_. None) ''config'' new_ServerInfo = Inr (False, i) \<and> tables_agree i"
proof -
  have "getServerInfo (\<lambda>_. None) ''config'' new_ServerInfo = Inr (False, new_ServerInfo)"
    by (simp add: getServerInfo_def Parse_file_def)
  from server_info_tables [OF this] this show ?thesis by blast
qed

text \<open>
  C7: A file in the format of the README, as printed from a port below \<open>2 ^ 16\<close>, distinct paths with
  known handlers and a default handler, whose blocks have two tokens to a statement, starts a server:
  listening on exactly that port decides whether the program goes on, and then its server has exactly those
  handlers, each initialised with its path and its block.
\<close>

theorem documented_file_starts:
  assumes "list_all route_ok routes" "distinct (map fst routes)" "config_ok c" "two_tokens c"
    and "p < 2 ^ 16" "read_file f = Some (NginxConfig_ToString 0 (server_config p routes T c))"
  shows "\<exists>srv. (\<forall>listen_on. main_program read_file listen_on [prog, f] =
      (case listen_on (of_nat p) of Inl ft \<Rightarrow> Inl ft | Inr _ \<Rightarrow> Inr (Inr srv))) \<and>
    unat (of_nat p :: 16 word) = p \<and> server_port srv = int p \<and>
    map_find (server_handlers srv) =
      (map_of (map (\<lambda>(n, T, c). (n, made_handler n T c)) routes))(''default'' \<mapsto> made_handler ''default'' T c) \<and>
    num_requests (server_status_object srv) = 0"
proof -
  obtain i where i: "getServerInfo read_file f new_ServerInfo = Inr (True, i)" "info_port i = Some (int p)"
      "map_find (uri_prefix_to_handler i) =
        (map_of (map (\<lambda>(n, T, c). (n, made_handler n T c)) routes))(''default'' \<mapsto> made_handler ''default'' T c)"
    using getServerInfo_server_config [OF assms(1-4), of p read_file f T, OF _ assms(6)] assms(5) by auto
  let ?srv = "\<lparr>server_port = int p, server_handlers = uri_prefix_to_handler i,
    server_handler_prefixes = handler_prefixes i,
    server_status_object = AddHandlerInfo (handler_prefixes i) new_ServerStatus\<rparr>"
  have "main_program read_file listen_on [prog, f] =
      (case listen_on (of_nat p) of Inl ft \<Rightarrow> Inl ft | Inr _ \<Rightarrow> Inr (Inr ?srv))" for listen_on
    using i(1,2) by (simp add: main_program_def makeServer_def new_Server_def outcome_bind_def split: sum.split)
  moreover have "unat (of_nat p :: 16 word) = p"
    using assms(5) by (simp add: unat_of_nat)
  ultimately show ?thesis
    using i(3) by (intro exI [of _ ?srv]) (simp add: AddHandlerInfo_def new_ServerStatus_def)
qed

definition sample_routes :: "route list" where
  "sample_routes =
     [(''/echo'', EchoHandler, NginxConfig []),
      (''/static'', StaticHandler, NginxConfig [NginxConfigStatement [''root'', ''/srv/www''] None])]"

lemma sample_routes_ok:
  "list_all route_ok sample_routes" "distinct (map fst sample_routes)" "config_ok (NginxConfig [])"
  "two_tokens (NginxConfig [])"
  by code_simp+

theorem documented_file_starts_witness:
  "\<exists>srv. main_program (\<lambda>_. Some (NginxConfig_ToString 0 (server_config 2020 sample_routes NotFoundHandler (NginxConfig []))))
      (\<lambda>p. if p = 2020 then Inr () else Inl Runtime_error) [''./webserver'', ''config''] = Inr (Inr srv) \<and>
    server_port srv = 2020"
  using documented_file_starts [OF sample_routes_ok, of 2020
      "\<lambda>_. Some (NginxConfig_ToString 0 (server_config 2020 sample_routes NotFoundHandler (NginxConfig [])))"
      "''config''" NotFoundHandler "''./webserver''"]
  by (auto dest!: spec [of _ "\<lambda>p. if p = 2020 then Inr () else Inl Runtime_error"])

text \<open>
  C40: The port statement takes a number from its second token, whatever follows the digits; a number that
  does not fit an \<open>int\<close> throws, and a second port statement is refused. The server listens on the
  number modulo \<open>2 ^ 16\<close>: a larger port is not refused.
\<close>

theorem port_wraps:
  assumes "r = [] \<or> \<not> is_digit_char (hd r)"
  shows "port_statement (k # (nat_to_string n @ r) # ts) l =
     (if port l \<noteq> -1 then Inr (False, l)
      else if n < 2 ^ 31 then Inr (True, l\<lparr>port := int n\<rparr>)
      else Inl Out_of_range) \<and>
   (\<exists>srv. \<forall>listen_on. new_Server listen_on (i\<lparr>info_port := Some (int n)\<rparr>) =
     (case listen_on (of_nat (n mod 2 ^ 16)) of Inl ft \<Rightarrow> Inl ft | Inr _ \<Rightarrow> Inr srv))"
proof
  have "stoi (nat_to_string n @ r) = (if n < 2 ^ 31 then Inr (int n) else Inl Out_of_range)"
    using stoi_digits [OF nat_to_string_digits nat_to_string_nonempty assms] by simp
  then show "port_statement (k # (nat_to_string n @ r) # ts) l =
     (if port l \<noteq> -1 then Inr (False, l)
      else if n < 2 ^ 31 then Inr (True, l\<lparr>port := int n\<rparr>)
      else Inl Out_of_range)"
    by (simp add: port_statement_def vec_at_def)
  have "of_nat (n mod 2 ^ 16) = (of_nat n :: 16 word)"
    by (simp add: word_unat_eq_iff unat_of_nat)
  then show "\<exists>srv. \<forall>listen_on. new_Server listen_on (i\<lparr>info_port := Some (int n)\<rparr>) =
     (case listen_on (of_nat (n mod 2 ^ 16)) of Inl ft \<Rightarrow> Inl ft | Inr _ \<Rightarrow> Inr srv)"
    by (auto simp: new_Server_def outcome_bind_def split: sum.split)
qed

theorem port_wraps_witness:
  "port_statement [''port'', ''65537''] (start_loop new_ServerInfo) =
     Inr (True, (start_loop new_ServerInfo)\<lparr>port := 65537\<rparr>) \<and>
   (\<exists>srv. new_Server (\<lambda>p. if p = 1 then Inr () else Inl Runtime_error) (new_ServerInfo\<lparr>info_port := Some 65537\<rparr>) = Inr srv)"
proof -
  let ?listen = "\<lambda>p. if p = 1 then Inr () else Inl Runtime_error"
  have n: "nat_to_string 65537 = ''65537''" by (simp add: nat_to_string.simps digit_char_def)
  have r: "[] = [] \<or> \<not> is_digit_char (hd [])" by simp
  have "port_statement [''port'', ''65537''] (start_loop new_ServerInfo) =
      Inr (True, (start_loop new_ServerInfo)\<lparr>port := 65537\<rparr>)"
    using port_wraps [OF r, of "''port''" 65537 "[]" "start_loop new_ServerInfo"] unfolding n by (simp add: start_loop_def)
  moreover obtain srv where srv: "\<forall>listen_on. new_Server listen_on (new_ServerInfo\<lparr>info_port := Some (int 65537)\<rparr>) =
      (case listen_on (of_nat (65537 mod 2 ^ 16)) of Inl ft \<Rightarrow> Inl ft | Inr _ \<Rightarrow> Inr srv)"
    using port_wraps [OF r, of "''port''" 65537 "[]" "start_loop new_ServerInfo" new_ServerInfo] by blast
  have "new_Server ?listen (new_ServerInfo\<lparr>info_port := Some 65537\<rparr>) = Inr srv"
    using spec [OF srv, of ?listen] by simp
  ultimately show ?thesis by blast
qed

text \<open>
  The port is not required: a file without a port statement is accepted, and the server is asked to
  listen on port 65535.
\<close>

theorem port_not_required:
  assumes "config_ok c" "two_tokens c"
    and "read_file f = Some (NginxConfig_ToString 0
      (NginxConfig [NginxConfigStatement [''default'', class_name T] (Some c)]))"
  shows "\<exists>srv. makeServer read_file (\<lambda>p. if p = 65535 then Inr () else Inl System_error) f = Inr (Some srv) \<and>
    server_port srv = -1"
proof -
  let ?s = "NginxConfigStatement [''default'', class_name T] (Some c)"
  have ok: "config_ok (NginxConfig [?s])" using assms(1) by (simp add: token_ok_words)
  have parse: "Parse_file read_file f (NginxConfig []) = Inr (True, NginxConfig [?s])"
    by (simp only: Parse_file_def assms(3) option.case Parse_ToString [OF ok])
  have "server_statement ?s (start_loop new_ServerInfo) = Inr (True, (start_loop new_ServerInfo)
      \<lparr>info := add_handler ''default'' (class_name T) (made_handler ''default'' T c) new_ServerInfo\<rparr>)"
    using assms(2) by (simp add: server_statement_def default_statement_def CreateByName_class Init_made start_loop_def)
  then show ?thesis
    by (simp add: makeServer_def getServerInfo_def parse new_Server_def start_loop_def)
qed

theorem port_not_required_witness:
  "\<exists>srv. makeServer (\<lambda>_. Some ''default EchoHandler {\<newline>}\<newline>'')
     (\<lambda>p. if p = 65535 then Inr () else Inl System_error) ''config'' = Inr (Some srv) \<and> server_port srv = -1"
proof (rule port_not_required [of "NginxConfig []" _ _ EchoHandler])
  show "Some ''default EchoHandler {\<newline>}\<newline>'' = Some (NginxConfig_ToString 0
      (NginxConfig [NginxConfigStatement [''default'', class_name EchoHandler] (Some (NginxConfig []))]))"
    by code_simp
qed (simp_all add: two_tokens_def)

text \<open>
  A default statement that names an unknown handler is not refused: \<open>Init\<close> is called on the null
  pointer.
\<close>

theorem unknown_default_handler:
  assumes "c_str name \<notin> range class_name" "child_block s = Some c" "tokens s = [''default'', name]"
  shows "server_statements (s # ss) l = Inl Undefined_behaviour"
  using assms by (simp add: server_statement_def default_statement_def CreateByName_unknown)

theorem unknown_default_handler_witness:
  "server_statements [NginxConfigStatement [''default'', ''Nobody''] (Some (NginxConfig []))]
     (start_loop new_ServerInfo) = Inl Undefined_behaviour"
proof (rule unknown_default_handler)
  have "class_name T \<noteq> ''Nobody''" for T by (cases T) simp_all
  moreover have "c_str ''Nobody'' = ''Nobody''" by code_simp
  ultimately show "c_str ''Nobody'' \<notin> range class_name" by (metis rangeE)
qed simp_all

section \<open>Serving a request\<close>

text \<open>
  C6: The handler is found by the longest registered prefix of the URI, where a prefix ends before a
  slash, is the whole URI, or is the root.
\<close>

theorem longest_prefix_handler:
  "find_handler m u = Some (p, h) \<longleftrightarrow>
     path_prefix p u \<and> map_find m p = Some h \<and>
     (\<forall>q. path_prefix q u \<longrightarrow> map_find m q \<noteq> None \<longrightarrow> length q \<le> length p)"
  using find_handler_iff [of m u p h] by (auto simp: longest_match_def)

theorem longest_prefix_handler_witness:
  "path_prefix ''/a'' ''/a/b''"
proof -
  have "find_handler [(''/'', Echo_object new_RequestHandler), (''/a'', Status_object new_RequestHandler)] ''/a/b'' =
      Some (''/a'', Status_object new_RequestHandler)"
    by code_simp
  then show ?thesis
    using longest_prefix_handler [of _ "''/a/b''" "''/a''" "Status_object new_RequestHandler"]
    by simp
qed

text \<open>
  C20: What is counted is what was sent: when a read is served, the bytes given to the socket are those of a
  response with some code, and the status counts one more request for the URI with just that code.
\<close>

theorem counted_is_sent:
  assumes "serve e a srv q = Some (Inr (reply, srv'))"
  shows "\<exists>code rest. reply = status_line code @ [CR, LF] @ rest \<and>
    server_status_object srv' = UpdateStatus (uri q) code (server_status_object srv)"
  using serve_counts [OF assms] by (simp add: CRLF_def)

definition sample_server :: Server where
  "sample_server =
     \<lparr>server_port = 2020,
      server_handlers = [(''/echo'', Echo_object new_RequestHandler), (''/static'', Static_object sample_static),
        (''default'', NotFound_object new_RequestHandler)],
      server_handler_prefixes = [], server_status_object = new_ServerStatus\<rparr>"

lemma sample_echo:
  "longest_match (server_handlers sample_server) ''/echo/x'' ''/echo''"
  "map_find (server_handlers sample_server) ''/echo'' = Some (Echo_object new_RequestHandler)"
proof -
  have "find_handler (server_handlers sample_server) ''/echo/x'' = Some (''/echo'', Echo_object new_RequestHandler)"
    by code_simp
  then show "longest_match (server_handlers sample_server) ''/echo/x'' ''/echo''"
    "map_find (server_handlers sample_server) ''/echo'' = Some (Echo_object new_RequestHandler)"
    using find_handler_Some by blast+
qed

lemma sample_server_inv: "server_inv sample_server"
  by (simp add: server_inv_def sample_server_def map_ok_def DEFAULT_STRING_def)

theorem counted_is_sent_witness:
  "\<exists>srv' :: Server. server_status_object srv' = UpdateStatus ''/echo/x'' OK_200 (server_status_object sample_server) \<and>
    (\<exists>code rest. echo_text (raw_request (sample_get ''/echo/x'')) = status_line code @ [CR, LF] @ rest)"
proof -
  have "uri (sample_get ''/echo/x'') = ''/echo/x''" "request_headers (sample_get ''/echo/x'') = []"
    by (simp_all add: sample_get_def parsed_request_def)
  then obtain srv' where s: "serve sample_environment 1 sample_server (sample_get ''/echo/x'') =
      Some (Inr (echo_text (raw_request (sample_get ''/echo/x'')), srv'))"
      "server_status_object srv' = UpdateStatus ''/echo/x'' OK_200 (server_status_object sample_server)"
    using serve_echo [of "sample_get ''/echo/x''" sample_server "''/echo''" new_RequestHandler sample_environment 1]
      sample_echo by simp
  obtain code rest where
    "echo_text (raw_request (sample_get ''/echo/x'')) = status_line code @ [CR, LF] @ rest"
    using counted_is_sent [OF s(1)] by blast
  then show ?thesis using s(2) by blast
qed

text \<open>
  C5: From the file to the client: on a server started from a file in the documented format with a path
  \<open>p\<close> for \<open>EchoHandler\<close>, a request of the grammar without a \<open>Referer\<close> field, read in one
  piece, whose URI has \<open>p\<close> as its longest configured prefix, is answered with a 200 response of type
  text/plain whose body is the request itself, and counted as such.
\<close>

theorem echo_server:
  assumes "list_all route_ok routes" "distinct (map fst routes)" "config_ok c" "two_tokens c"
    and "port_number < 2 ^ 31" "listen_on (of_nat port_number) = Inr ()"
    and "read_file f = Some (NginxConfig_ToString 0 (server_config port_number routes T c))"
    and "(p, EchoHandler, cfg) \<in> set routes" "path_prefix p u"
    and "\<forall>q \<in> fst ` set routes. path_prefix q u \<longrightarrow> length q \<le> length p"
    and "request_ok m u maj mnr hs" "''Referer'' \<notin> (\<lambda>f. fst (field_pair f)) ` set hs"
    and "take n buf = request_text m u maj mnr hs b"
  shows "\<exists>srv srv'. makeServer read_file listen_on f = Inr (Some srv) \<and>
    handle_read e a srv False buf n = Some (Inr (True, Some (status_line OK_200 @ CRLF @
      ''Content-Type: text/plain'' @ CRLF @ CRLF @ request_text m u maj mnr hs b), srv')) \<and>
    server_status_object srv' = UpdateStatus u OK_200 (server_status_object srv)"
proof -
  let ?made = "map (\<lambda>(n, T, c). (n, made_handler n T c)) routes"
  obtain i where i: "getServerInfo read_file f new_ServerInfo = Inr (True, i)" "info_port i = Some (int port_number)"
      "map_find (uri_prefix_to_handler i) = (map_of ?made)(''default'' \<mapsto> made_handler ''default'' T c)"
    using getServerInfo_server_config [OF assms(1-5), of read_file f T, OF assms(7)] by blast
  then obtain srv where srv: "makeServer read_file listen_on f = Inr (Some srv)"
      "server_handlers srv = uri_prefix_to_handler i"
    using assms(6) by (simp add: makeServer_def new_Server_def)
  have slash: "\<exists>r. u = CHR ''/'' # r"
    using assms(11) by (cases u) (auto simp: request_ok_def uri_ok_def)
  have nodefault: "\<not> path_prefix ''default'' u"
    using slash by (auto simp: path_prefix_def)
  have "p \<noteq> ''default''" using assms(9) nodefault by auto
  moreover have "map_of ?made p = Some (made_handler p EchoHandler cfg)"
  proof (rule map_of_is_SomeI)
    show "distinct (map fst ?made)" using assms(2) by (simp add: comp_def case_prod_beta)
    show "(p, made_handler p EchoHandler cfg) \<in> set ?made" using assms(8) by force
  qed
  moreover have "made_handler p EchoHandler cfg = Echo_object new_RequestHandler"
    by (simp add: made_handler_def lift_init_def EchoHandler_Init_def)
  ultimately have h: "map_find (server_handlers srv) p = Some (Echo_object new_RequestHandler)"
    by (simp add: srv(2) i(3))
  have keys: "fst ` set ?made = fst ` set routes" by force
  have "longest_match (server_handlers srv) u p"
    unfolding longest_match_def
  proof (intro conjI allI impI)
    fix q
    assume q: "path_prefix q u" "map_find (server_handlers srv) q \<noteq> None"
    then have "q \<noteq> ''default''" using nodefault by auto
    then have "map_of ?made q \<noteq> None" using q(2) by (simp add: srv(2) i(3))
    then have "q \<in> fst ` set routes" unfolding map_of_eq_None_iff keys by simp
    then show "length q \<le> length p" using q(1) assms(10) by blast
  qed (use assms(9) h in simp_all)
  from echo_end_to_end [OF assms(11,12) this h refl assms(13)] srv(1)
  show ?thesis unfolding echo_text_def by blast
qed

theorem echo_server_witness:
  "\<exists>srv srv'. makeServer (\<lambda>_. Some (NginxConfig_ToString 0 (server_config 2020 sample_routes NotFoundHandler (NginxConfig []))))
      (\<lambda>_. Inr ()) ''config'' = Inr (Some srv) \<and>
    handle_read sample_environment 1 srv False (request_text ''GET'' ''/echo/x'' ''1'' ''1'' sample_fields ''body'') 1024 =
      Some (Inr (True, Some (status_line OK_200 @ CRLF @ ''Content-Type: text/plain'' @ CRLF @ CRLF @
        request_text ''GET'' ''/echo/x'' ''1'' ''1'' sample_fields ''body''), srv')) \<and>
    server_status_object srv' = UpdateStatus ''/echo/x'' OK_200 (server_status_object srv)"
proof (rule echo_server [OF sample_routes_ok(1-4)])
  show "(''/echo'', EchoHandler, NginxConfig []) \<in> set sample_routes" by (simp add: sample_routes_def)
  show "path_prefix ''/echo'' ''/echo/x''" by (simp add: path_prefix_def)
  show "\<forall>q \<in> fst ` set sample_routes. path_prefix q ''/echo/x'' \<longrightarrow> length q \<le> length ''/echo''"
    by (simp add: sample_routes_def path_prefix_def)
  show "''Referer'' \<notin> (\<lambda>f. fst (field_pair f)) ` set sample_fields" by (simp add: sample_fields_def)
  have "length (request_text ''GET'' ''/echo/x'' ''1'' ''1'' sample_fields ''body'') \<le> 1024" by code_simp
  then show "take 1024 (request_text ''GET'' ''/echo/x'' ''1'' ''1'' sample_fields ''body'') =
      request_text ''GET'' ''/echo/x'' ''1'' ''1'' sample_fields ''body''"
    by (rule take_all)
qed (simp_all add: sample_request_ok)

text \<open>
  C36: The verdict of the request parser is not looked at: whatever was read, also a text the parser refused,
  goes to the handler of the URI read so far (unless a \<open>Referer\<close> was read), and an
  \<open>EchoHandler\<close> answers it with 200.
\<close>

theorem refused_request_served:
  assumes "Request_Parse (take n buf) = Inr q" "''Referer'' \<notin> fst ` set (request_headers q)"
    and "find_handler (server_handlers srv) (uri q) = Some (p, Echo_object h)"
  shows "\<exists>srv'. handle_read e a srv False buf n =
    Some (Inr (True, Some (status_line OK_200 @ CRLF @ ''Content-Type: text/plain'' @ CRLF @ CRLF @
      raw_request q), srv'))"
proof -
  obtain r where r: "Parse_chars new_Request (take n buf) = Inr r" "q = setServerStatus None r"
    using assms(1) by (auto simp: Request_Parse_def)
  let ?q = "r\<lparr>request_status := Some a\<rparr>"
  have eq: "request_headers ?q = request_headers q" "uri ?q = uri q" "raw_request ?q = raw_request q"
    by (simp_all add: r(2) setServerStatus_def)
  have "longest_match (server_handlers srv) (uri ?q) p" "map_find (server_handlers srv) p = Some (Echo_object h)"
    using find_handler_Some [OF assms(3)] eq by simp_all
  from serve_echo [OF _ this, of e a] assms(2) eq
  show ?thesis by (simp add: handle_read_parsed [OF r(1)] echo_text_def)
qed

theorem refused_request_served_witness:
  "\<exists>srv'. handle_read sample_environment 1 sample_server False ''GET /echo bad'' 13 =
    Some (Inr (True, Some (status_line OK_200 @ CRLF @ ''Content-Type: text/plain'' @ CRLF @ CRLF @
      ''GET /echo b''), srv'))"
proof -
  have "map_sum (\<lambda>e. e) (\<lambda>r. (uri r, raw_request r, request_headers r, parsed_status r))
      (Request_Parse (take 13 ''GET /echo bad'')) = Inr (''/echo'', ''GET /echo b'', [], bad)"
    by code_simp
  then obtain q where q: "Request_Parse (take 13 ''GET /echo bad'') = Inr q" "uri q = ''/echo''"
      "raw_request q = ''GET /echo b''" "request_headers q = []"
    by (cases "Request_Parse (take 13 ''GET /echo bad'')") auto
  have "find_handler (server_handlers sample_server) ''/echo'' = Some (''/echo'', Echo_object new_RequestHandler)"
    by code_simp
  with refused_request_served [OF q(1), of sample_server] q show ?thesis by simp
qed

text \<open>
  C35: A request without a \<open>Referer\<close> for exactly the prefix of a \<open>StaticHandler\<close> runs into undefined behaviour: the handler
  refuses it without setting a code, its verdict is ignored, and the code is read.
\<close>

theorem static_prefix_undefined:
  assumes "''Referer'' \<notin> fst ` set (request_headers q)"
    and "find_handler (server_handlers srv) (uri q) = Some (p, Static_object h)" "static_uri_prefix h = uri q"
  shows "serve e a srv q = Some (Inl Undefined_behaviour)"
proof (rule serve_no_code [OF assms(1)])
  show "choose_handler (server_handlers srv) (uri q) = Inr (p, Static_object h)"
    using assms(2) by (simp add: choose_handler_def)
  show "HandleRequest (with_status a (server_status_object srv) e) (Static_object h) q (Some new_Response) =
      Some (Inr (ERROR, Some new_Response, Static_object h))"
    by (rule StaticHandler_own_prefix) (simp add: assms(3))
qed simp

theorem static_prefix_undefined_witness:
  "serve sample_environment 1 sample_server (sample_get ''/static'') = Some (Inl Undefined_behaviour)"
proof (rule static_prefix_undefined)
  show "''Referer'' \<notin> fst ` set (request_headers (sample_get ''/static''))"
    by (simp add: sample_get_def parsed_request_def)
  have u: "uri (sample_get ''/static'') = ''/static''" by (simp add: sample_get_def parsed_request_def)
  have "find_handler (server_handlers sample_server) ''/static'' = Some (''/static'', Static_object sample_static)"
    by code_simp
  then show "find_handler (server_handlers sample_server) (uri (sample_get ''/static'')) =
      Some (''/static'', Static_object sample_static)" by (simp only: u)
  show "static_uri_prefix sample_static = uri (sample_get ''/static'')" by (simp add: u sample_static_def)
qed

text \<open>
  C38: A \<open>Referer\<close> without a slash from its ninth character on, anywhere among the header fields,
  ends the server: \<open>substr(npos)\<close> throws and nothing catches it.
\<close>

theorem referer_throws:
  assumes "(''Referer'', v) \<in> set (request_headers q)" "CHR ''/'' \<notin> set (drop 8 v)"
  shows "serve e a srv q = Some (Inl Out_of_range)"
proof -
  have "find_char_from (CHR ''/'') v 8 = None"
    using assms(2) find_char_None [of "CHR ''/''" "drop 8 v"] by (simp add: find_char_from_def)
  then have "(''Referer'', v) \<in> set hs \<Longrightarrow> referer_prefix hs p = Inl Out_of_range" for hs p
    by (induction hs p rule: referer_prefix.induct)
       (auto simp: substr_from_def outcome_bind_def split: option.splits sum.splits if_splits)
  then show ?thesis using assms(1) by (simp add: serve_def)
qed

theorem referer_throws_witness:
  "serve sample_environment 1 sample_server ((sample_get ''/echo'')\<lparr>request_headers :=
      [(''Referer'', ''http://a.org''), (''Referer'', ''http://a.org/echo'')]\<rparr>) = Some (Inl Out_of_range)"
  by (rule referer_throws [of "''http://a.org''"]) simp_all

section \<open>The running server\<close>

text \<open>
  C8: In every state the server can reach without crashing, its tables are in order, it serves the same
  prefixes with the same classes as at the start, every connection that was answered got the text of a
  response, and the total shown on the status page is the number of answered connections, modulo
  \<open>2 ^ 32\<close>.
\<close>

theorem running_server:
  assumes "reachable e a srv (Running s)" "server_inv srv"
  shows "server_inv (server s) \<and> same_routes srv (server s) \<and> list_all phase_ok (connections s) \<and>
    num_requests (server_status_object (server s)) =
      num_requests (server_status_object srv) + of_nat (length (filter answered (connections s)))"
  using reachable_inv [OF assms] by (simp add: loop_inv_def)

lemma sample_accepted: "reachable e a srv (Running (snd (handle_accept False (started srv))))"
  unfolding reachable_def by (rule r_into_rtranclp, rule accept_step) (simp add: started_def start_accept_def)

theorem running_server_witness:
  "num_requests (server_status_object (server (snd (handle_accept False (started sample_server))))) = 0"
  using running_server [OF sample_accepted sample_server_inv]
  by (simp add: handle_accept_def Let_def start_accept_def started_def sample_server_def new_ServerStatus_def)

text \<open>
  No callback blocks a thread: on a server without a \<open>HoldingHandler\<close>, in every state it reaches, the
  read callback of a connection returns, whatever was read, or ends the process, if the peers of the proxy
  stop redirecting, the regular expressions match as their sources say and no Markdown file that can be
  opened has two clashing runs of three emphasis markers.
\<close>

theorem callbacks_return:
  assumes "reachable e a srv (Running s)" "server_inv srv" "no_holding srv" "files_end e" "redirects_end e"
  shows "\<exists>p. complete_read e a c error buf n s = Some p"
  by (rule complete_read_ends [OF assms])

definition quiet_environment :: environment where
  "quiet_environment = sample_environment\<lparr>fs_open := \<lambda>_. Some (lines_text [''*b*'']),
     network_of := \<lambda>n hst service q. if n = 0 then network_of sample_environment n hst service q else Inl System_error\<rparr>"

lemma quiet_files: "files_end quiet_environment"
proof -
  have "regex_engine quiet_environment = sample_regex" "fs_open quiet_environment p = Some (lines_text [''*b*''])" for p
    by (simp_all add: quiet_environment_def sample_environment_def)
  then show ?thesis using sample_regex_ok sample_clash_free by (simp add: files_end_def)
qed

lemma quiet_redirects: "redirects_end quiet_environment"
  unfolding redirects_end_def by (rule exI [of _ 1]) (simp add: proxy_turn_def quiet_environment_def)

theorem callbacks_return_witness:
  "\<exists>p. complete_read quiet_environment 1 0 False (request_text ''GET'' ''/static/b.md'' ''1'' ''1'' sample_fields ''body'') 1024
     (snd (handle_accept False (started sample_server))) = Some p"
proof (rule callbacks_return [OF sample_accepted sample_server_inv _ quiet_files quiet_redirects])
  show "no_holding sample_server" by (simp add: no_holding_def sample_server_def split: if_splits)
qed

text \<open>
  After one failed accept the server takes no connection any more, whatever happens later.
\<close>

theorem failed_accept_is_final:
  assumes "(step e a)\<^sup>*\<^sup>* (Running (snd (handle_accept True s))) (Running s')"
  shows "\<not> accepting s' \<and> length (connections s') = length (connections s)"
  using no_accept [OF assms] by (simp add: handle_accept_def)

theorem failed_accept_is_final_witness:
  "\<not> accepting (snd (handle_accept True (started sample_server)))"
  using failed_accept_is_final [OF rtranclp.rtrancl_refl] by blast

text \<open>
  A connection is answered at most once: once it has an answer, it stays answered with the same text in
  every later state.
\<close>

theorem answered_once:
  assumes "(step e a)\<^sup>*\<^sup>* (Running s) (Running s')" "c < length (connections s)" "answered (connections s ! c)"
  shows "c < length (connections s') \<and> answered (connections s' ! c) \<and>
    text_of (connections s' ! c) = text_of (connections s ! c)"
  using text_of_reachable [OF assms] by blast

theorem answered_once_witness:
  "text_of (connections (set_phase 0 (Closed (Some ''x''))
     \<lparr>server = sample_server, accepting = False, connections = [Writing ''x'']\<rparr>) ! 0) = Some ''x''"
proof -
  let ?s = "\<lparr>server = sample_server, accepting = False, connections = [Writing ''x'']\<rparr>"
  have "(step sample_environment 1)\<^sup>*\<^sup>* (Running ?s) (Running (set_phase 0 (Closed (Some ''x'')) ?s))"
    by (rule r_into_rtranclp, rule write_step) simp_all
  from answered_once [OF this, of 0] show ?thesis by simp
qed

section \<open>The five threads\<close>

text \<open>
  C10: Without a data race the five threads behave as if the callbacks were run one after the other: a
  state that they reach, with the answers that are ready counted, is one that the event loop reaches, with
  the same table, counters, accepted connections and texts; and if a callback aborts the process, the event
  loop can crash as well. Two callbacks at a time that convert Markdown count as a race, because of the
  tables that the first use of the converter fills.
\<close>

theorem threads_are_serial:
  assumes "(quiet_step e a)\<^sup>*\<^sup>* (Serving (Server_run srv)) p" "server_inv srv"
  shows "(\<forall>s. p = Serving s \<longrightarrow> reachable e a srv (serial s)) \<and>
    (\<forall>ft. p = Aborted ft \<longrightarrow> (\<exists>ft'. reachable e a srv (Crashed ft')))"
  by (rule quiet_run [OF assms])

lemma idle_race_free:
  assumes "\<forall>t \<in> set (threads s). t = Waiting"
  shows "race_free e a (Serving s)"
proof -
  have "threads s ! j = Waiting" if "j < length (threads s)" for j using assms that nth_mem by blast
  then show ?thesis by (simp add: race_free_def racy_iff conflict_def list_ex_iff)
qed

theorem threads_are_serial_witness:
  "reachable sample_environment 1 sample_server
     (Running \<lparr>server = sample_server, accepting = True, connections = [Reading]\<rparr>)"
proof -
  let ?s = "snd (accept_connection False (Server_run sample_server))"
  have t: "threads ?s = replicate NUM_OF_THREADS Waiting" "threads (Server_run sample_server) = replicate NUM_OF_THREADS Waiting"
    by (simp_all add: accept_connection_def Connection_start_def Let_def Server_run_def)
  have "callback sample_environment 1 (Serving (Server_run sample_server)) (Serving ?s)"
    by (rule accepts [of _ 0]) (simp_all add: in_state_def Server_run_def NUM_OF_THREADS_def)
  then have "quiet_step sample_environment 1 (Serving (Server_run sample_server)) (Serving ?s)"
    by (auto simp: quiet_step_def t intro: idle_race_free)
  then have "reachable sample_environment 1 sample_server (serial ?s)"
    using threads_are_serial [OF _ sample_server_inv] by blast
  moreover have "serial ?s = Running \<lparr>server = sample_server, accepting = True, connections = [Reading]\<rparr>"
    by (simp add: serial_def t NUM_OF_THREADS_def eval_nat_numeral)
       (simp add: accept_connection_def Connection_start_def Let_def Server_run_def)
  ultimately show ?thesis by simp
qed


text \<open>
  With a race an answer can go uncounted: two requests are answered, nothing is left to count, and the
  status is the one after the second of them alone.
\<close>

theorem count_is_lost:
  assumes "length buf = BUFFER_SIZE" "n \<le> BUFFER_SIZE"
    and "respond e a srv buf n = Some (Inr (u, r, srv'))" "respond e a srv' buf n = Some (Inr (v, w, srv''))"
    and "GetResponseCode r = Inr c" "GetResponseCode w = Inr d"
  shows "\<exists>s. pool_reachable e a srv (Serving s) \<and>
    length (filter has_answer (pool_connections s)) = 2 \<and> filter is_counting (threads s) = [] \<and>
    server_status_object (pool_server s) = UpdateStatus v d (server_status_object srv)"
  using count_lost [OF assms] callbacks_pool unfolding pool_reachable_def by blast

definition sample_text :: "string \<Rightarrow> string" where
  "sample_text u = request_text ''GET'' u ''1'' ''1'' [] []"

definition sample_buffer :: "string \<Rightarrow> string" where
  "sample_buffer u = sample_text u @ replicate (BUFFER_SIZE - length (sample_text u)) (CHR 0x00)"

lemma sample_buffer_ok:
  assumes "length (sample_text u) \<le> BUFFER_SIZE"
  shows "length (sample_buffer u) = BUFFER_SIZE" "take (length (sample_text u)) (sample_buffer u) = sample_text u"
  using assms by (simp_all add: sample_buffer_def)

lemma sample_lengths: "length (sample_text ''/echo'') \<le> BUFFER_SIZE" "length (sample_text ''/hold'') \<le> BUFFER_SIZE"
  by code_simp+


text \<open>
  C14: Two requests that are answered at the same time race for the counters: on every server that can
  respond to a request and then to the same request again, the threads reach a state in which two of them
  are about to change the status, which no lock guards, so undefined behaviour is reachable.
\<close>

theorem counters_are_raced:
  assumes "length buf = BUFFER_SIZE" "n \<le> BUFFER_SIZE"
    and "respond e a srv buf n = Some (Inr (u, r, srv'))" "respond e a srv' buf n = Some (Inr (v, w, srv''))"
  shows "(\<exists>s. pool_reachable e a srv (Serving s) \<and> in_state s 0 (Counting u r) \<and> in_state s 1 (Counting v w) \<and>
      racy e a s) \<and>
    pool_reachable e a srv (Aborted Undefined_behaviour)"
proof -
  obtain s where s: "(callback e a)\<^sup>*\<^sup>* (Serving (Server_run srv)) (Serving s)" "racy e a s"
      "in_state s 0 (Counting u r)" "in_state s 1 (Counting v w)"
    using counters_race [OF assms] by blast
  have "pool_reachable e a srv (Serving s)" unfolding pool_reachable_def by (rule callbacks_pool [OF s(1)])
  moreover have "pool_reachable e a srv (Aborted Undefined_behaviour)"
    by (rule wrong_reachable [OF s(1)], rule races, rule s(2))
  ultimately show ?thesis using s(2-4) by blast
qed

lemma sample_get_ok: "request_ok ''GET'' ''/echo'' ''1'' ''1'' []" "request_ok ''GET'' ''/hold'' ''1'' ''1'' []"
  by code_simp+

lemma sample_respond:
  "\<exists>u r. respond sample_environment 1 sample_server (sample_buffer ''/echo'') (length (sample_text ''/echo'')) =
     Some (Inr (u, r, sample_server)) \<and> 5 < length (Response_ToString r) \<and> raw_status r = Some OK_200"
proof -
  let ?q = "(sample_get ''/echo'')\<lparr>request_status := Some 1\<rparr>"
  have "find_handler (server_handlers sample_server) ''/echo'' = Some (''/echo'', Echo_object new_RequestHandler)"
    by code_simp
  then have "route 1 sample_server (sample_buffer ''/echo'') (length (sample_text ''/echo'')) =
      Inr (?q, ''/echo'', Echo_object new_RequestHandler)"
    using route_request [OF sample_get_ok(1), of sample_server "''/echo''" "Echo_object new_RequestHandler"
        "length (sample_text ''/echo'')" "sample_buffer ''/echo''" "[]" 1] sample_buffer_ok(2) [OF sample_lengths(1)]
    by (simp add: sample_text_def sample_get_def)
  moreover have "map_put ''/echo'' (Echo_object new_RequestHandler) (server_handlers sample_server) = server_handlers sample_server"
    by code_simp
  ultimately show ?thesis
    using respond_echo [of 1 sample_server "sample_buffer ''/echo''" "length (sample_text ''/echo'')" ?q "''/echo''"
        new_RequestHandler sample_environment] by (auto simp: echo_text_def)
qed

theorem counters_are_raced_witness:
  "pool_reachable sample_environment 1 sample_server (Aborted Undefined_behaviour)"
proof -
  obtain u r where "respond sample_environment 1 sample_server (sample_buffer ''/echo'') (length (sample_text ''/echo'')) =
      Some (Inr (u, r, sample_server))"
    using sample_respond by blast
  from counters_are_raced [OF sample_buffer_ok(1) [OF sample_lengths(1)] sample_lengths(1) this this] show ?thesis by blast
qed

theorem count_is_lost_witness:
  "\<exists>s. pool_reachable sample_environment 1 sample_server (Serving s) \<and>
    length (filter has_answer (pool_connections s)) = 2 \<and> num_requests (server_status_object (pool_server s)) = 1"
proof -
  obtain u r where r: "respond sample_environment 1 sample_server (sample_buffer ''/echo'') (length (sample_text ''/echo'')) =
      Some (Inr (u, r, sample_server))" "raw_status r = Some OK_200"
    using sample_respond by blast
  then have "GetResponseCode r = Inr OK_200" by (simp add: GetResponseCode_def)
  from count_is_lost [OF sample_buffer_ok(1) [OF sample_lengths(1)] sample_lengths(1) r(1) r(1) this this]
  show ?thesis by (auto simp: UpdateStatus_eq sample_server_def new_ServerStatus_def)
qed

text \<open>
  C15: The text of a response does not live as long as its write: in every state that is reached, the
  string of a write that is under way is destroyed, so reading it to go on is undefined behaviour; and for
  every response and every number of bytes less than its text, there is a state in which the socket has
  taken that many of them and another thread is there to go on.
\<close>

theorem response_text_dangles:
  assumes "server_inv srv" "length buf = BUFFER_SIZE" "n \<le> BUFFER_SIZE"
    and "respond e a srv buf n = Some (Inr (u, r, srv'))" "k < length (Response_ToString r)"
  shows "(\<forall>s c t p m j. pool_reachable e a srv (Serving s) \<longrightarrow> in_phase s c (Sending t p m) \<longrightarrow>
      read_string p s = Inl Undefined_behaviour \<and> continue_write c p m j s = Inl Undefined_behaviour) \<and>
    (\<exists>s p. pool_reachable e a srv (Serving s) \<and> in_phase s 0 (Sending (Response_ToString r) p k) \<and>
      goes_wrong e a (Serving s) (Aborted Undefined_behaviour))"
proof -
  obtain s where s: "(callback e a)\<^sup>*\<^sup>* (Serving (Server_run srv)) (Serving s)"
      "in_phase s 0 (Sending (Response_ToString r) 0 k)" "in_state s 2 Waiting"
    using text_dangles [OF assms(2-5)] by blast
  have r: "pool_reachable e a srv (Serving s)" unfolding pool_reachable_def by (rule callbacks_pool [OF s(1)])
  have "goes_wrong e a (Serving s) (Aborted Undefined_behaviour)"
    by (rule dangles [OF s(3,2) assms(5) sent_is_gone(2) [OF r assms(1)]])
  with r s(2) sent_is_gone [OF _ assms(1)] show ?thesis by blast
qed

theorem response_text_dangles_witness:
  "\<exists>s t p. pool_reachable sample_environment 1 sample_server (Serving s) \<and> in_phase s 0 (Sending t p 5) \<and>
    read_string p s = Inl Undefined_behaviour"
proof -
  obtain u r where "respond sample_environment 1 sample_server (sample_buffer ''/echo'') (length (sample_text ''/echo'')) =
      Some (Inr (u, r, sample_server))" "5 < length (Response_ToString r)"
    using sample_respond by blast
  from response_text_dangles [OF sample_server_inv sample_buffer_ok(1) [OF sample_lengths(1)] sample_lengths(1) this]
  show ?thesis by blast
qed


text \<open>A server with a \<open>HoldingHandler\<close>, four of whose threads are in it.\<close>

definition hold_server :: Server where
  "hold_server = sample_server\<lparr>server_handlers :=
     map_put ''/hold'' (Holding_object new_RequestHandler) (server_handlers sample_server)\<rparr>"




text \<open>
  C9: In every state that the five threads can reach, races included, an echo path still answers: a request
  of the grammar without a \<open>Referer\<close> field whose longest registered prefix belonged to an \<open>EchoHandler\<close> when
  the server started can be answered by any thread that waits, with a 200 response whose body is the request
  itself, and is counted.
\<close>

theorem threads_answer_echo:
  assumes "pool_reachable e a srv (Serving s)" "server_inv srv"
    and "path_prefix p u" "map_find (server_handlers srv) p = Some (Echo_object h)"
    and "\<forall>q. path_prefix q u \<longrightarrow> map_find (server_handlers srv) q \<noteq> None \<longrightarrow> length q \<le> length p"
    and "request_ok m u maj mnr hs" "''Referer'' \<notin> (\<lambda>f. fst (field_pair f)) ` set hs"
    and "take n buf = request_text m u maj mnr hs b"
    and "in_state s i Waiting" "in_phase s c Receiving"
  shows "\<exists>s' t. t = status_line OK_200 @ CRLF @ ''Content-Type: text/plain'' @ CRLF @ CRLF @ request_text m u maj mnr hs b \<and>
    (callback e a)\<^sup>*\<^sup>* (Serving (begin_read i c False buf n s)) (Serving s') \<and>
    in_phase s' c (Over (Some (t, length t))) \<and> threads s' = threads s \<and>
    server_status_object (pool_server s') = UpdateStatus u OK_200 (server_status_object (pool_server s))"
proof -
  have "longest_match (server_handlers srv) u p" using assms(3-5) by (simp add: longest_match_def)
  moreover have "same_routes srv (pool_server s)"
    using pool_reachable_inv [OF assms(1,2)] unfolding pool_inv_def by blast
  ultimately obtain h' where h': "longest_match (server_handlers (pool_server s)) u p"
      "map_find (server_handlers (pool_server s)) p = Some (Echo_object h')"
    using echo_route_kept assms(4) by blast
  obtain srv' where r: "handle_read e a (pool_server s) False buf n = Some (Inr (True, Some (echo_text (request_text m u maj mnr hs b)), srv'))"
      and c: "server_status_object srv' = UpdateStatus u OK_200 (server_status_object (pool_server s))"
    using echo_end_to_end [OF assms(6,7) h' refl assms(8)] by blast
  obtain s' where "(callback e a)\<^sup>*\<^sup>* (Serving (begin_read i c False buf n s)) (Serving s')" "pool_server s' = srv'"
      "in_phase s' c (Over (Some (echo_text (request_text m u maj mnr hs b), length (echo_text (request_text m u maj mnr hs b)))))"
      "threads s' = threads s"
    using thread_answers [OF assms(9,10) r] by (simp only: answered_alone_def sum.case prod.case option.inject) blast
  with c show ?thesis unfolding echo_text_def by blast
qed

theorem threads_answer_echo_witness:
  "\<exists>s' t. (callback sample_environment 1)\<^sup>*\<^sup>*
      (Serving (begin_read 0 0 False (sample_buffer ''/echo'') (length (sample_text ''/echo''))
        (snd (accept_connection False (Server_run sample_server))))) (Serving s') \<and>
    in_phase s' 0 (Over (Some (t, length t)))"
proof -
  let ?s = "snd (accept_connection False (Server_run sample_server))"
  have "callback sample_environment 1 (Serving (Server_run sample_server)) (Serving ?s)"
    by (rule accepts [of _ 0]) (simp_all add: in_state_def Server_run_def NUM_OF_THREADS_def)
  then have run: "pool_reachable sample_environment 1 sample_server (Serving ?s)"
    unfolding pool_reachable_def by (intro callbacks_pool r_into_rtranclp)
  have "find_handler (server_handlers sample_server) ''/echo'' = Some (''/echo'', Echo_object new_RequestHandler)"
    by code_simp
  from find_handler_Some [OF this] have route: "path_prefix ''/echo'' ''/echo''"
      "map_find (server_handlers sample_server) ''/echo'' = Some (Echo_object new_RequestHandler)"
      "\<forall>q. path_prefix q ''/echo'' \<longrightarrow> map_find (server_handlers sample_server) q \<noteq> None \<longrightarrow> length q \<le> length ''/echo''"
    unfolding longest_match_def by blast+
  have thread: "in_state ?s 0 Waiting" "in_phase ?s 0 Receiving"
    by (simp_all add: in_state_def in_phase_def Server_run_def accept_connection_def Connection_start_def Let_def NUM_OF_THREADS_def)
  have bytes: "take (length (sample_text ''/echo'')) (sample_buffer ''/echo'') = request_text ''GET'' ''/echo'' ''1'' ''1'' [] []"
    using sample_buffer_ok(2) [OF sample_lengths(1)] by (simp only: sample_text_def)
  have "''Referer'' \<notin> (\<lambda>f. fst (field_pair f)) ` set []" by simp
  from threads_answer_echo [OF run sample_server_inv route sample_get_ok(1) this bytes thread] show ?thesis by blast
qed

text \<open>
  C13: Five requests stop the server for good: if the URI of a request goes to a \<open>HoldingHandler\<close>, five
  connections that send it lead to a state without any step: connections are still queued for accepting, and
  no thread will accept, read, write or return any more.
\<close>

theorem five_requests_hold:
  assumes "request_ok m u maj mnr hs" "''Referer'' \<notin> (\<lambda>f. fst (field_pair f)) ` set hs"
    and "find_handler (server_handlers srv) u = Some (k, h)" "class_of h = HoldingHandler"
    and "length buf = BUFFER_SIZE" "n \<le> BUFFER_SIZE" "take n buf = request_text m u maj mnr hs b"
  shows "\<exists>s. pool_reachable e a srv (Serving s) \<and> pool_accepting s \<and> length (pool_connections s) = 5 \<and>
    (\<forall>p. \<not> pool_step e a (Serving s) p)"
proof -
  let ?s = "holding_pool srv buf n NUM_OF_THREADS"
  have "pool_reachable e a srv (Serving ?s)"
    unfolding pool_reachable_def by (rule callbacks_pool [OF holding_run [OF assms(5,6)]]) simp
  moreover have "\<not> pool_step e a (Serving ?s) p" for p
    by (rule holding_stuck [OF route_request [OF assms(1-3,7)] assms(4)])
  ultimately show ?thesis
    by (intro exI [of _ ?s]) (simp add: holding_pool_def NUM_OF_THREADS_def)
qed

theorem five_requests_hold_witness:
  "\<exists>s. pool_reachable sample_environment 1 hold_server (Serving s) \<and> (\<forall>p. \<not> pool_step sample_environment 1 (Serving s) p)"
proof -
  have "find_handler (server_handlers hold_server) ''/hold'' = Some (''/hold'', Holding_object new_RequestHandler)"
    by code_simp
  from five_requests_hold [OF sample_get_ok(2) _ this _ sample_buffer_ok(1) [OF sample_lengths(2)] sample_lengths(2),
      of "[]" sample_environment 1]
  show ?thesis using sample_buffer_ok(2) [OF sample_lengths(2)] by (auto simp: sample_text_def)
qed

text \<open>
  C37: As long as no accept fails the server accepts: in every state that it reaches an accept is
  outstanding, and it never exits. Once an accept has failed no connection is accepted any more.
\<close>

theorem server_accepts:
  "((\<lambda>p p'. pool_step e a p p' \<and> \<not> accept_fails p p')\<^sup>*\<^sup>* (Serving (Server_run srv)) p \<longrightarrow>
      (\<forall>s. p = Serving s \<longrightarrow> pool_accepting s) \<and> (\<forall>n. p \<noteq> Exit n)) \<and>
   (accept_fails (Serving s) p' \<longrightarrow> (pool_step e a)\<^sup>*\<^sup>* p' (Serving s'') \<longrightarrow>
      \<not> pool_accepting s'' \<and> length (pool_connections s'') = length (pool_connections s))"
proof (intro conjI impI)
  assume "(\<lambda>p p'. pool_step e a p p' \<and> \<not> accept_fails p p')\<^sup>*\<^sup>* (Serving (Server_run srv)) p"
  from accepting.reached [OF this accepts_on_run]
  show "\<forall>s. p = Serving s \<longrightarrow> pool_accepting s" "\<forall>n. p \<noteq> Exit n" by (auto simp: accepts_on_def)
next
  assume f: "accept_fails (Serving s) p'" and r: "(pool_step e a)\<^sup>*\<^sup>* p' (Serving s'')"
  from f have "accepted_at (length (pool_connections s)) p'"
    by (auto simp: accept_fails_def accepted_at_def accept_connection_def)
  from closed.reached [OF r this]
  show "\<not> pool_accepting s''" "length (pool_connections s'') = length (pool_connections s)"
    by (simp_all add: accepted_at_def)
qed

theorem server_accepts_witness:
  "pool_accepting (snd (accept_connection False (Server_run sample_server)))"
proof -
  let ?s = "snd (accept_connection False (Server_run sample_server))"
  have "callback sample_environment 1 (Serving (Server_run sample_server)) (Serving ?s)"
    by (rule accepts [of _ 0]) (simp_all add: in_state_def Server_run_def NUM_OF_THREADS_def)
  moreover have "\<not> accept_fails (Serving (Server_run sample_server)) (Serving ?s)"
    by (simp add: accept_fails_def accept_connection_def Connection_start_def Let_def Server_run_def)
  ultimately have "(\<lambda>p p'. pool_step sample_environment 1 p p' \<and> \<not> accept_fails p p')\<^sup>*\<^sup>*
      (Serving (Server_run sample_server)) (Serving ?s)"
    by (intro r_into_rtranclp) (simp add: pool_step_def)
  with server_accepts [of sample_environment 1 sample_server "Serving ?s"] show ?thesis by blast
qed

end
